(* ===== verification/Prelude.thy ===== *)
theory Prelude
  imports Main "HOL-Library.Sublist" "HOL-Library.Word"
begin

text \<open>
  Shared vocabulary of the development: Rust's \<open>Result\<close> as a sum type, the ASCII fragment of
  \<open>str\<close> that the kernel uses (searching, splitting, trimming, lower-casing), the JSON values of
  \<open>serde_json\<close>, saturating machine arithmetic, and the generic lemmas and interface locales
  the components share.

  A Rust \<open>str\<close> is a \<open>string\<close>, one \<open>char\<close> per byte. Every character the modelled code tests for
  is ASCII and no byte of a multi-byte UTF-8 sequence is ASCII, so scanning bytes and scanning
  characters agree on those tests.
\<close>

named_theorems geju_simps \<open>defining equations of the GeJu tables\<close>
named_theorems mode_simps \<open>facts on execution modes and strictness\<close>
named_theorems scan_simps \<open>equations of the quote-aware shell scanners\<close>

section \<open>Results\<close>

type_synonym ('e, 'a) result = "'e + 'a"

abbreviation Err :: "'e \<Rightarrow> ('e, 'a) result" where
  "Err \<equiv> Inl"

abbreviation Ok :: "'a \<Rightarrow> ('e, 'a) result" where
  "Ok \<equiv> Inr"

definition is_ok :: "('e, 'a) result \<Rightarrow> bool" where
  "is_ok r = (case r of Inl _ \<Rightarrow> False | Inr _ \<Rightarrow> True)"

lemma is_ok_simps [simp]: "is_ok (Inr x)" "\<not> is_ok (Inl e)"
  by (simp_all add: is_ok_def)

section \<open>Strings\<close>

text \<open>The UTF-8 bytes of an em dash, which several messages have.\<close>

definition em_dash :: string where "em_dash = [CHR 0xE2, CHR 0x80, CHR 0x94]"

text \<open>\<open>str::find\<close>: the offset of the first occurrence of a pattern.\<close>

fun str_find :: "string \<Rightarrow> string \<Rightarrow> nat option" where
  "str_find pat [] = (if pat = [] then Some 0 else None)"
| "str_find pat (c # cs) =
     (if prefix pat (c # cs) then Some 0 else map_option Suc (str_find pat cs))"

text \<open>\<open>str::rfind\<close>: the offset of the last occurrence.\<close>

fun str_rfind :: "string \<Rightarrow> string \<Rightarrow> nat option" where
  "str_rfind pat [] = (if pat = [] then Some 0 else None)"
| "str_rfind pat (c # cs) =
     (case str_rfind pat cs of
        Some i \<Rightarrow> Some (Suc i)
      | None \<Rightarrow> (if prefix pat (c # cs) then Some 0 else None))"

text \<open>\<open>str::contains\<close>.\<close>

definition str_contains :: "string \<Rightarrow> string \<Rightarrow> bool" where
  "str_contains s pat = (str_find pat s \<noteq> None)"

lemma str_find_Some:
  "str_find pat s = Some i \<Longrightarrow> i \<le> length s \<and> prefix pat (drop i s)"
proof (induction s arbitrary: i)
  case Nil
  then show ?case by (auto split: if_splits)
next
  case (Cons c cs)
  then show ?case by (cases i) (auto split: if_splits)
qed

lemma str_find_Some_take:
  "str_find pat s = Some i \<Longrightarrow> \<exists>rest. s = take i s @ pat @ rest"
proof -
  assume "str_find pat s = Some i"
  then obtain rest where "drop i s = pat @ rest"
    using str_find_Some by (metis prefixE)
  then show ?thesis by (metis append_take_drop_id)
qed

lemma str_find_least:
  "str_find pat s = Some i \<Longrightarrow> j < i \<Longrightarrow> \<not> prefix pat (drop j s)"
proof (induction s arbitrary: i j)
  case Nil
  then show ?case by (auto split: if_splits)
next
  case (Cons c cs)
  then show ?case by (cases j) (auto split: if_splits)
qed

lemma str_find_None: "str_find pat s = None \<Longrightarrow> \<not> prefix pat (drop j s)"
proof (induction s arbitrary: j)
  case Nil
  then show ?case by (auto split: if_splits)
next
  case (Cons c cs)
  then show ?case by (cases j) (auto split: if_splits)
qed

lemma str_contains_iff_sublist: "str_contains s pat \<longleftrightarrow> sublist pat s"
proof
  assume "str_contains s pat"
  then obtain i where "str_find pat s = Some i" by (auto simp: str_contains_def)
  from str_find_Some_take [OF this] show "sublist pat s"
    by (metis sublist_appendI)
next
  assume "sublist pat s"
  then obtain ps ss where s: "s = ps @ pat @ ss" by (auto simp: sublist_def)
  then have "prefix pat (drop (length ps) s)" by simp
  then show "str_contains s pat"
    using str_find_None unfolding str_contains_def by blast
qed

lemma str_contains_append:
  "str_contains s pat \<Longrightarrow> str_contains (xs @ s @ ys) pat"
  unfolding str_contains_iff_sublist sublist_def by (metis append.assoc)

text \<open>\<open>char::is_whitespace\<close> and \<open>char::to_ascii_lowercase\<close> on ASCII.\<close>

definition is_whitespace :: "char \<Rightarrow> bool" where
  "is_whitespace c =
     (c = CHR '' '' \<or> c = CHR 0x09 \<or> c = CHR 0x0A \<or> c = CHR 0x0B \<or> c = CHR 0x0C \<or> c = CHR 0x0D)"

definition lower_char :: "char \<Rightarrow> char" where
  "lower_char c = (let n = of_char c :: nat in if 65 \<le> n \<and> n \<le> 90 then char_of (n + 32) else c)"

definition to_lowercase :: "string \<Rightarrow> string" where
  "to_lowercase s = map lower_char s"

definition eq_ignore_ascii_case :: "string \<Rightarrow> string \<Rightarrow> bool" where
  "eq_ignore_ascii_case a b = (to_lowercase a = to_lowercase b)"

definition trim_start :: "string \<Rightarrow> string" where
  "trim_start s = dropWhile is_whitespace s"

definition trim :: "string \<Rightarrow> string" where
  "trim s = rev (dropWhile is_whitespace (rev (dropWhile is_whitespace s)))"

text \<open>\<open>str::split_whitespace\<close>: the maximal runs of non-blank characters.\<close>

fun split_whitespace_from :: "string \<Rightarrow> string \<Rightarrow> string list" where
  "split_whitespace_from cur [] = (if cur = [] then [] else [cur])"
| "split_whitespace_from cur (c # cs) =
     (if is_whitespace c
      then (if cur = [] then split_whitespace_from [] cs else cur # split_whitespace_from [] cs)
      else split_whitespace_from (cur @ [c]) cs)"

definition split_whitespace :: "string \<Rightarrow> string list" where
  "split_whitespace s = split_whitespace_from [] s"

lemma split_whitespace_from_words:
  "\<forall>c \<in> set cur. \<not> is_whitespace c \<Longrightarrow> w \<in> set (split_whitespace_from cur s) \<Longrightarrow>
     w \<noteq> [] \<and> (\<forall>c \<in> set w. \<not> is_whitespace c)"
proof (induction s arbitrary: cur)
  case Nil
  then show ?case by (cases "cur = []") simp_all
next
  case (Cons c cs)
  show ?case
  proof (cases "is_whitespace c")
    case True
    then show ?thesis using Cons.prems Cons.IH [of "[]"] by (cases "cur = []") auto
  next
    case False
    then have "\<forall>d \<in> set (cur @ [c]). \<not> is_whitespace d" using Cons.prems(1) by simp
    then show ?thesis using Cons.IH [of "cur @ [c]"] Cons.prems(2) False by simp
  qed
qed

lemma split_whitespace_words:
  "w \<in> set (split_whitespace s) \<Longrightarrow> w \<noteq> [] \<and> (\<forall>c \<in> set w. \<not> is_whitespace c)"
  using split_whitespace_from_words [of "[]"] by (auto simp: split_whitespace_def)

text \<open>\<open>str::split\<close> on one character: \<open>n\<close> separators give \<open>n + 1\<close> pieces.\<close>

fun split_char :: "char \<Rightarrow> string \<Rightarrow> string list" where
  "split_char d [] = [[]]"
| "split_char d (c # cs) =
     (if c = d then [] # split_char d cs
      else (case split_char d cs of [] \<Rightarrow> [[c]] | w # ws \<Rightarrow> (c # w) # ws))"

lemma split_char_nonempty [simp]: "split_char d s \<noteq> []"
  by (induction s) (auto split: list.splits)

lemma split_char_none: "d \<notin> set s \<Longrightarrow> split_char d s = [s]"
  by (induction s) auto

lemma split_char_append: "d \<notin> set s \<Longrightarrow> split_char d (s @ d # t) = s # split_char d t"
  by (induction s) auto

lemma split_char_free: "w \<in> set (split_char d s) \<Longrightarrow> d \<notin> set w"
proof (induction s arbitrary: w)
  case Nil
  then show ?case by simp
next
  case (Cons c cs)
  then show ?case by (auto split: if_splits list.splits)
qed

text \<open>\<open>str::parse\<close> for unsigned integers of a given width: an optional plus sign and at least one
  digit; a value beyond the width is an error.\<close>

definition digit_char :: "nat \<Rightarrow> char" where
  "digit_char n = char_of (48 + n)"

text \<open>Decimal notation, as \<open>Display\<close> prints an unsigned integer.\<close>

fun nat_to_string :: "nat \<Rightarrow> string" where
  "nat_to_string n = (if n < 10 then [digit_char n]
                      else nat_to_string (n div 10) @ [digit_char (n mod 10)])"

declare nat_to_string.simps [simp del]

definition digit_value :: "char \<Rightarrow> nat option" where
  "digit_value c = (let n = of_char c :: nat in if 48 \<le> n \<and> n \<le> 57 then Some (n - 48) else None)"

fun parse_digits :: "nat \<Rightarrow> string \<Rightarrow> nat option" where
  "parse_digits acc [] = Some acc"
| "parse_digits acc (c # cs) =
     (case digit_value c of None \<Rightarrow> None | Some d \<Rightarrow> parse_digits (10 * acc + d) cs)"

definition parse_unsigned :: "nat \<Rightarrow> string \<Rightarrow> nat option" where
  "parse_unsigned w s =
     (let ds = (case s of [] \<Rightarrow> [] | c # cs \<Rightarrow> if c = CHR ''+'' then cs else s)
      in if ds = [] then None
         else (case parse_digits 0 ds of
                 None \<Rightarrow> None
               | Some n \<Rightarrow> if n < 2 ^ w then Some n else None))"

lemma parse_unsigned_bound: "parse_unsigned w s = Some n \<Longrightarrow> n < 2 ^ w"
  by (auto simp: parse_unsigned_def Let_def split: if_splits option.splits list.splits)

section \<open>JSON values\<close>

text \<open>
  \<open>serde_json::Value\<close>. Objects are association lists with the first binding of a key in force;
  numbers keep their text. Indexing a missing key or a non-object gives \<open>Null\<close>, as
  \<open>Value\<close>'s \<open>Index\<close> does.
\<close>

datatype json =
  JNull
| JBool bool
| JNumber string
| JString string
| JArray "json list"
| JObject "(string \<times> json) list"

fun json_get :: "json \<Rightarrow> string \<Rightarrow> json option" where
  "json_get (JObject kvs) k = map_of kvs k"
| "json_get _ k = None"

definition json_index :: "json \<Rightarrow> string \<Rightarrow> json" where
  "json_index v k = (case json_get v k of Some x \<Rightarrow> x | None \<Rightarrow> JNull)"

fun as_str :: "json \<Rightarrow> string option" where
  "as_str (JString s) = Some s"
| "as_str _ = None"

fun as_u64 :: "json \<Rightarrow> nat option" where
  "as_u64 (JNumber s) = parse_unsigned 64 s"
| "as_u64 _ = None"

fun as_bool :: "json \<Rightarrow> bool option" where
  "as_bool (JBool b) = Some b"
| "as_bool _ = None"

fun json_set :: "json \<Rightarrow> string \<Rightarrow> json \<Rightarrow> json" where
  "json_set (JObject kvs) k v = JObject ((k, v) # filter (\<lambda>(k', _). k' \<noteq> k) kvs)"
| "json_set other k v = other"

lemma json_index_as_str_object:
  "as_str (json_index v k) = Some s \<Longrightarrow> \<exists>kvs. v = JObject kvs \<and> map_of kvs k = Some (JString s)"
  by (cases v; auto simp: json_index_def split: option.splits elim!: as_str.elims)

lemma json_index_set_same:
  "as_str (json_index v k) \<noteq> None \<Longrightarrow> json_index (json_set v k x) k = x"
  using json_index_as_str_object [of v k] by (auto simp: json_index_def)

lemma map_of_filter_other: "k \<noteq> k' \<Longrightarrow> map_of (filter (\<lambda>(x, _). x \<noteq> k) kvs) k' = map_of kvs k'"
  by (induction kvs) auto

lemma json_index_set_other: "k \<noteq> k' \<Longrightarrow> json_index (json_set v k x) k' = json_index v k'"
  by (cases v) (auto simp: json_index_def map_of_filter_other)

section \<open>Machine arithmetic\<close>

definition saturating_sub :: "nat \<Rightarrow> nat \<Rightarrow> nat" where
  "saturating_sub a b = (if a < b then 0 else a - b)"

lemma saturating_sub_nat [simp]: "saturating_sub a b = a - b"
  by (simp add: saturating_sub_def)

definition u64_max :: nat where
  "u64_max = 2 ^ 64 - 1"

definition u32_max :: nat where
  "u32_max = 2 ^ 32 - 1"

section \<open>Interfaces shared by several components\<close>

lemma mem_map_filter: "y \<in> set (List.map_filter g xs) \<longleftrightarrow> (\<exists>x \<in> set xs. g x = Some y)"
  by (force simp: List.map_filter_def)

lemma find_key_None: "find (\<lambda>x. key x = n) xs = None \<longleftrightarrow> n \<notin> key ` set xs"
  by (induction xs) auto

lemma distinct_map_filter_key:
  assumes "distinct (map key xs)" "\<And>x y. x \<in> set xs \<Longrightarrow> g x = Some y \<Longrightarrow> nm y = key x"
  shows "distinct (map nm (List.map_filter g xs))"
  using assms
proof (induction xs)
  case (Cons x xs)
  have "key x \<notin> nm ` set (List.map_filter g xs)"
    using Cons.prems by (fastforce simp: mem_map_filter)
  moreover have "nm y = key x" if "g x = Some y" for y using Cons.prems(2) that by simp
  moreover have "distinct (map nm (List.map_filter g xs))" using Cons by simp
  ultimately show ?case by (cases "g x") (simp_all add: List.map_filter_simps)
qed (simp add: List.map_filter_simps)

lemma find_map_filter_key:
  assumes "distinct (map key xs)" "\<And>x y. x \<in> set xs \<Longrightarrow> g x = Some y \<Longrightarrow> nm y = key x"
  shows "find (\<lambda>y. nm y = n) (List.map_filter g xs) = Option.bind (find (\<lambda>x. key x = n) xs) g"
  using assms
proof (induction xs)
  case (Cons x xs)
  have "find (\<lambda>z. key z = n) xs = None" if "key x = n"
    using Cons.prems(1) that by (auto simp: find_key_None)
  moreover have "nm y = key x" if "g x = Some y" for y using Cons.prems(2) that by simp
  moreover have "find (\<lambda>y. nm y = n) (List.map_filter g xs) = Option.bind (find (\<lambda>x. key x = n) xs) g"
    using Cons by simp
  ultimately show ?case by (cases "g x") (simp_all add: List.map_filter_simps)
qed (simp add: List.map_filter_simps)

lemma find_filter_key:
  "distinct (map fst xs) \<Longrightarrow>
     find (\<lambda>x. fst x = n) (filter P xs) =
       (case map_of xs n of None \<Rightarrow> None | Some v \<Rightarrow> if P (n, v) then Some (n, v) else None)"
proof (induction xs)
  case (Cons x xs)
  have "map_of xs n = None" if "fst x = n" using Cons.prems that by (simp add: map_of_eq_None_iff)
  then show ?case using Cons by (cases x) auto
qed simp

lemma find_SomeD: "find P xs = Some x \<Longrightarrow> x \<in> set xs \<and> P x"
  by (auto simp: find_Some_iff)

lemma drop_snoc_drop:
  "drop (Suc (length (drop (length ys - n) ys)) - n) (drop (length ys - n) ys @ [x]) =
     drop (length (ys @ [x]) - n) (ys @ [x])"
proof (cases "length ys < n")
  case True
  then show ?thesis by simp
next
  case False
  then have "length (drop (length ys - n) ys) = n" by simp
  then show ?thesis using False by (simp add: Suc_diff_le)
qed

text \<open>
  A bounded history: a buffer with a capacity to which entries are appended, the oldest entry
  leaving when the capacity is reached. The contract is the contents after one append; the client
  gets the contents after any sequence of appends.
\<close>

locale bounded_history =
  fixes push :: "'b \<Rightarrow> 'a \<Rightarrow> 'b"
    and contents :: "'b \<Rightarrow> 'a list"
    and capacity :: "'b \<Rightarrow> nat"
    and valid :: "'b \<Rightarrow> bool"
  assumes valid_bound: "valid b \<Longrightarrow> length (contents b) \<le> capacity b"
    and valid_push: "valid b \<Longrightarrow> valid (push b x)"
    and capacity_push: "capacity (push b x) = capacity b"
    and contents_push: "valid b \<Longrightarrow>
      contents (push b x) =
        drop (Suc (length (contents b)) - capacity b) (contents b @ [x])"
begin

lemma valid_pushes: "valid b \<Longrightarrow> valid (foldl push b xs)"
  by (induction xs arbitrary: b) (auto intro: valid_push)

lemma capacity_pushes: "capacity (foldl push b xs) = capacity b"
  by (induction xs arbitrary: b) (auto simp: capacity_push)

lemma contents_pushes:
  assumes "valid b"
  shows "contents (foldl push b xs) =
    drop (length (contents b) + length xs - capacity b) (contents b @ xs)"
proof (induction xs rule: rev_induct)
  case Nil
  then show ?case using valid_bound [OF assms] by simp
next
  case (snoc x xs)
  let ?b = "foldl push b xs"
  let ?ys = "contents b @ xs"
  have v: "valid ?b" using assms by (rule valid_pushes)
  have c: "contents ?b = drop (length ?ys - capacity b) ?ys" using snoc.IH by simp
  have "contents (push ?b x) =
      drop (Suc (length (contents ?b)) - capacity b) (contents ?b @ [x])"
    using contents_push [OF v] by (simp add: capacity_pushes)
  also have "\<dots> = drop (length (?ys @ [x]) - capacity b) (?ys @ [x])"
    unfolding c by (rule drop_snoc_drop)
  finally show ?case by simp
qed

lemma length_pushes:
  "valid b \<Longrightarrow> length (contents (foldl push b xs)) \<le> capacity b"
  using valid_bound [OF valid_pushes] capacity_pushes by metis

end

text \<open>
  One-way tightening: operations on a result that may only move it up a preorder of strictness.
  Any sequence of such operations moves it up.
\<close>

locale one_way_tightening =
  fixes at_least_as_strict :: "'r \<Rightarrow> 'r \<Rightarrow> bool"
    and tighten_by :: "'p \<Rightarrow> 'r \<Rightarrow> 'r"
  assumes strict_refl: "at_least_as_strict r r"
    and strict_trans: "at_least_as_strict c b \<Longrightarrow> at_least_as_strict b a \<Longrightarrow> at_least_as_strict c a"
    and tighten_strict: "at_least_as_strict (tighten_by p r) r"
begin

lemma tighten_all: "at_least_as_strict (fold tighten_by ps r) r"
proof (induction ps arbitrary: r)
  case Nil
  show ?case by (simp add: strict_refl)
next
  case (Cons p ps)
  have "at_least_as_strict (fold tighten_by ps (tighten_by p r)) (tighten_by p r)"
    by (rule Cons.IH)
  then have "at_least_as_strict (fold tighten_by ps (tighten_by p r)) r"
    using tighten_strict [of p r] by (rule strict_trans)
  then show ?case by simp
qed

end

text \<open>
  A table keyed by session: reading back what was stored, and not touching other sessions.
\<close>

locale session_table =
  fixes lookup :: "'t \<Rightarrow> 'k \<Rightarrow> 'v"
    and update :: "'k \<Rightarrow> 'a \<Rightarrow> 't \<Rightarrow> 't"
    and apply_to :: "'a \<Rightarrow> 'v \<Rightarrow> 'v"
  assumes lookup_same: "lookup (update k a t) k = apply_to a (lookup t k)"
    and lookup_other: "k \<noteq> k' \<Longrightarrow> lookup (update k a t) k' = lookup t k'"
begin

text \<open>A run of updates on several sessions acts on each session as the run restricted to it.\<close>

lemma lookup_run:
  "lookup (fold (\<lambda>(k, a). update k a) ops t) k =
     fold apply_to (map snd (filter (\<lambda>(k', _). k' = k) ops)) (lookup t k)"
proof (induction ops arbitrary: t)
  case Nil
  then show ?case by simp
next
  case (Cons op ops)
  then show ?case
    by (cases op) (auto simp: lookup_same lookup_other)
qed

end

section \<open>Fields\<close>

text \<open>A self-delimiting notation for lists of strings, for the sample environments of witnesses: each character is
  marked and each field closed.\<close>

fun put_field :: "string \<Rightarrow> string" where
  "put_field [] = ''b''"
| "put_field (c # cs) = CHR ''a'' # c # put_field cs"

fun get_field :: "string \<Rightarrow> string \<times> string" where
  "get_field (m # c # rest) =
     (if m = CHR ''a'' then (case get_field rest of (x, r) \<Rightarrow> (c # x, r)) else ([], c # rest))"
| "get_field _ = ([], [])"

lemma get_put_field [simp]: "get_field (put_field s @ rest) = (s, rest)"
proof (induction s)
  case Nil
  then show ?case by (cases rest) auto
qed simp

fun get_fields :: "nat \<Rightarrow> string \<Rightarrow> string list" where
  "get_fields 0 s = []"
| "get_fields (Suc n) s = (if s = [] then [] else case get_field s of (x, rest) \<Rightarrow> x # get_fields n rest)"

lemma put_field_nonempty [simp]: "put_field s \<noteq> []"
  by (cases s) auto

lemma get_fields_put: "length xs \<le> n \<Longrightarrow> get_fields n (concat (map put_field xs)) = xs"
proof (induction xs arbitrary: n)
  case Nil
  then show ?case by (cases n) simp_all
next
  case (Cons x xs)
  then show ?case by (cases n) simp_all
qed

lemma length_put_fields: "length xs \<le> length (concat (map put_field xs))"
proof (induction xs)
  case (Cons x xs)
  have "0 < length (put_field x)" by simp
  then show ?case using Cons by (simp del: length_greater_0_conv)
qed simp

definition put_fields :: "string list \<Rightarrow> string" where
  "put_fields xs = concat (map put_field xs)"

definition fields_of :: "string \<Rightarrow> string list" where
  "fields_of s = get_fields (length s) s"

lemma fields_of_put [simp]: "fields_of (put_fields xs) = xs"
  by (simp add: fields_of_def put_fields_def get_fields_put length_put_fields)

end
