(* ===== verification/Floats.thy ===== *)
theory Floats
  imports Complex_Main Prelude
begin

text \<open>
  Single-precision arithmetic. An \<open>f32\<close> value is the real number it denotes; every operation is
  the exact one followed by a rounding, passed to the definitions as the argument \<open>rnd\<close>.
  \<open>round_f32\<close> is the rounding of Rust's \<open>f32\<close> (IEEE 754 binary32, to nearest, ties to even, with
  gradual underflow). Overflow to infinity and NaN are outside the model: the values the modelled
  code computes stay far below \<open>2 ^ 127\<close> and no operation divides by zero.

  What proofs use of a rounding is the contract \<open>float_rounding\<close>: it is monotone and keeps the
  values the format represents exactly. The laws are proved for \<open>round_f32\<close>.
\<close>

type_synonym rounding = "real \<Rightarrow> real"

definition fadd :: "rounding \<Rightarrow> real \<Rightarrow> real \<Rightarrow> real" where
  "fadd rnd a b = rnd (a + b)"

definition fsub :: "rounding \<Rightarrow> real \<Rightarrow> real \<Rightarrow> real" where
  "fsub rnd a b = rnd (a - b)"

definition fmul :: "rounding \<Rightarrow> real \<Rightarrow> real \<Rightarrow> real" where
  "fmul rnd a b = rnd (a * b)"

definition fdiv :: "rounding \<Rightarrow> real \<Rightarrow> real \<Rightarrow> real" where
  "fdiv rnd a b = rnd (a / b)"

text \<open>A sum is accumulated from the left, starting at zero, as \<open>Iterator::sum\<close> does.\<close>

definition fsum :: "rounding \<Rightarrow> real list \<Rightarrow> real" where
  "fsum rnd xs = foldl (fadd rnd) 0 xs"

text \<open>Integer to float conversion (\<open>as f32\<close>) and decimal literals are rounded too.\<close>

definition of_int_f :: "rounding \<Rightarrow> int \<Rightarrow> real" where
  "of_int_f rnd i = rnd (real_of_int i)"

definition of_nat_f :: "rounding \<Rightarrow> nat \<Rightarrow> real" where
  "of_nat_f rnd n = rnd (real n)"

section \<open>The contract of a rounding\<close>

locale float_rounding =
  fixes rnd :: rounding
  assumes rnd_mono: "x \<le> y \<Longrightarrow> rnd x \<le> rnd y"
    and rnd_zero [simp]: "rnd 0 = 0"
    and rnd_one [simp]: "rnd 1 = 1"
begin

lemma rnd_nonneg: "0 \<le> x \<Longrightarrow> 0 \<le> rnd x"
  using rnd_mono [of 0 x] by simp

lemma rnd_le_one: "x \<le> 1 \<Longrightarrow> rnd x \<le> 1"
  using rnd_mono [of x 1] by simp

lemma rnd_unit: "0 \<le> x \<Longrightarrow> x \<le> 1 \<Longrightarrow> 0 \<le> rnd x \<and> rnd x \<le> 1"
  by (simp add: rnd_nonneg rnd_le_one)

lemma fadd_nonneg: "0 \<le> a \<Longrightarrow> 0 \<le> b \<Longrightarrow> 0 \<le> fadd rnd a b"
  by (simp add: fadd_def rnd_nonneg)

lemma fmul_nonneg: "0 \<le> a \<Longrightarrow> 0 \<le> b \<Longrightarrow> 0 \<le> fmul rnd a b"
  by (simp add: fmul_def rnd_nonneg)

lemma fdiv_nonneg: "0 \<le> a \<Longrightarrow> 0 \<le> b \<Longrightarrow> 0 \<le> fdiv rnd a b"
  by (simp add: fdiv_def rnd_nonneg)

lemma fdiv_le_one: "0 \<le> a \<Longrightarrow> a \<le> b \<Longrightarrow> fdiv rnd a b \<le> 1"
  by (cases "b = 0") (auto simp: fdiv_def intro!: rnd_le_one)

lemma fadd_mono: "a \<le> a' \<Longrightarrow> b \<le> b' \<Longrightarrow> fadd rnd a b \<le> fadd rnd a' b'"
  by (simp add: fadd_def rnd_mono)

lemma foldl_fadd_nonneg: "0 \<le> a \<Longrightarrow> \<forall>x \<in> set xs. 0 \<le> x \<Longrightarrow> 0 \<le> foldl (fadd rnd) a xs"
  by (induction xs arbitrary: a) (simp_all add: fadd_nonneg)

lemma fsum_nonneg: "\<forall>x \<in> set xs. 0 \<le> x \<Longrightarrow> 0 \<le> fsum rnd xs"
  by (simp add: fsum_def foldl_fadd_nonneg)

lemma of_nat_f_mono: "m \<le> n \<Longrightarrow> of_nat_f rnd m \<le> of_nat_f rnd n"
  by (simp add: of_nat_f_def rnd_mono)

lemma of_nat_f_nonneg: "0 \<le> of_nat_f rnd n"
  by (simp add: of_nat_f_def rnd_nonneg)

lemma of_int_f_mono: "i \<le> j \<Longrightarrow> of_int_f rnd i \<le> of_int_f rnd j"
  by (simp add: of_int_f_def rnd_mono)

lemma of_int_f_nonneg: "0 \<le> i \<Longrightarrow> 0 \<le> of_int_f rnd i"
  by (simp add: of_int_f_def rnd_nonneg)

end

section \<open>Rounding to binary32\<close>

definition round_half_even :: "real \<Rightarrow> int" where
  "round_half_even z =
     (let f = \<lfloor>z\<rfloor>; d = z - real_of_int f
      in if d < 1 / 2 then f else if 1 / 2 < d then f + 1 else if even f then f else f + 1)"

lemma round_half_even_bounds: "\<lfloor>z\<rfloor> \<le> round_half_even z \<and> round_half_even z \<le> \<lfloor>z\<rfloor> + 1"
  by (simp add: round_half_even_def Let_def)

lemma round_half_even_int [simp]: "round_half_even (real_of_int i) = i"
  by (simp add: round_half_even_def)

lemma round_half_even_mono:
  assumes "z \<le> w"
  shows "round_half_even z \<le> round_half_even w"
proof (cases "\<lfloor>z\<rfloor> = \<lfloor>w\<rfloor>")
  case True
  then show ?thesis using assms by (auto simp: round_half_even_def Let_def)
next
  case False
  then have "\<lfloor>z\<rfloor> + 1 \<le> \<lfloor>w\<rfloor>" using floor_mono [OF assms] by simp
  then show ?thesis
    using round_half_even_bounds [of z] round_half_even_bounds [of w] by linarith
qed

lemma round_half_even_le_int: "z \<le> real_of_int i \<Longrightarrow> round_half_even z \<le> i"
  using round_half_even_mono [of z "real_of_int i"] by simp

lemma round_half_even_ge_int: "real_of_int i \<le> z \<Longrightarrow> i \<le> round_half_even z"
  using round_half_even_mono [of "real_of_int i" z] by simp

text \<open>The exponent of the unit in the last place of a positive number.\<close>

definition f32_exp :: "real \<Rightarrow> int" where
  "f32_exp x = max (\<lfloor>log 2 x\<rfloor> - 23) (- 149)"

definition round_pos :: "real \<Rightarrow> real" where
  "round_pos x = real_of_int (round_half_even (x / 2 powi f32_exp x)) * 2 powi f32_exp x"

definition round_f32 :: rounding where
  "round_f32 x = (if x = 0 then 0 else if 0 < x then round_pos x else - round_pos (- x))"

lemma f32_exp_mono: "0 < x \<Longrightarrow> x \<le> y \<Longrightarrow> f32_exp x \<le> f32_exp y"
  using floor_mono [of "log 2 x" "log 2 y"] by (auto simp: f32_exp_def)

lemma f32_exp_upper:
  assumes "0 < x"
  shows "x \<le> 2 powi (f32_exp x + 24)"
proof -
  have "log 2 x < real_of_int (\<lfloor>log 2 x\<rfloor> + 1)" by linarith
  also have "\<dots> \<le> real_of_int (f32_exp x + 24)" by (simp add: f32_exp_def)
  finally have "x < 2 powr real_of_int (f32_exp x + 24)"
    using assms by (simp add: log_less_iff)
  then show ?thesis using powr_real_of_int' [of 2 "f32_exp x + 24"] by simp
qed

lemma f32_exp_lower:
  assumes "0 < x" "- 149 < f32_exp x"
  shows "2 powi (f32_exp x + 23) \<le> x"
proof -
  have "real_of_int (f32_exp x + 23) \<le> log 2 x" using assms(2) by (simp add: f32_exp_def)
  then have "2 powr real_of_int (f32_exp x + 23) \<le> x"
    using assms(1) by (simp add: le_log_iff)
  then show ?thesis using powr_real_of_int' [of 2 "f32_exp x + 23"] by simp
qed

lemma round_pos_le_power:
  assumes "0 < x"
  shows "round_pos x \<le> 2 powi (f32_exp x + 24)"
proof -
  have "x / 2 powi f32_exp x \<le> real_of_int (2 ^ 24)"
    using f32_exp_upper [OF assms] by (simp add: power_int_add divide_le_eq mult.commute)
  then have "round_half_even (x / 2 powi f32_exp x) \<le> 2 ^ 24"
    by (rule round_half_even_le_int)
  then have "real_of_int (round_half_even (x / 2 powi f32_exp x)) \<le> 2 ^ 24"
    by (metis of_int_le_iff of_int_numeral of_int_power)
  then have "round_pos x \<le> 2 ^ 24 * 2 powi f32_exp x"
    unfolding round_pos_def by (rule mult_right_mono) simp
  then show ?thesis by (simp add: power_int_add mult.commute)
qed

lemma round_pos_ge_power:
  assumes "0 < x" "- 149 < f32_exp x"
  shows "2 powi (f32_exp x + 23) \<le> round_pos x"
proof -
  have "real_of_int (2 ^ 23) \<le> x / 2 powi f32_exp x"
    using f32_exp_lower [OF assms] by (simp add: power_int_add le_divide_eq mult.commute)
  then have "2 ^ 23 \<le> round_half_even (x / 2 powi f32_exp x)"
    by (rule round_half_even_ge_int)
  then have "2 ^ 23 \<le> real_of_int (round_half_even (x / 2 powi f32_exp x))"
    by (metis of_int_le_iff of_int_numeral of_int_power)
  then have "2 ^ 23 * 2 powi f32_exp x \<le> round_pos x"
    unfolding round_pos_def by (rule mult_right_mono) simp
  then show ?thesis by (simp add: power_int_add mult.commute)
qed

lemma round_pos_nonneg: "0 < x \<Longrightarrow> 0 \<le> round_pos x"
  using round_half_even_ge_int [of 0 "x / 2 powi f32_exp x"] by (simp add: round_pos_def)

lemma round_pos_mono:
  assumes "0 < x" "x \<le> y"
  shows "round_pos x \<le> round_pos y"
proof (cases "f32_exp x = f32_exp y")
  case True
  have "x / 2 powi f32_exp y \<le> y / 2 powi f32_exp y"
    using assms(2) by (simp add: divide_right_mono)
  then show ?thesis unfolding round_pos_def True
    by (intro mult_right_mono) (simp_all add: round_half_even_mono)
next
  case False
  then have lt: "f32_exp x + 24 \<le> f32_exp y + 23" using f32_exp_mono [OF assms] by linarith
  have "- 149 \<le> f32_exp x" by (simp add: f32_exp_def)
  then have ge: "- 149 < f32_exp y" using lt by linarith
  have "round_pos x \<le> 2 powi (f32_exp x + 24)" using assms(1) by (rule round_pos_le_power)
  also have "\<dots> \<le> 2 powi (f32_exp y + 23)" using lt by (simp add: power_int_increasing)
  also have "\<dots> \<le> round_pos y" using assms ge by (intro round_pos_ge_power) auto
  finally show ?thesis .
qed

lemma round_f32_mono:
  assumes "x \<le> y"
  shows "round_f32 x \<le> round_f32 y"
proof -
  consider "0 < x" | "x \<le> 0" "0 \<le> y" | "y < 0" using assms by linarith
  then show ?thesis
  proof cases
    case 1
    then show ?thesis using assms round_pos_mono by (simp add: round_f32_def)
  next
    case 2
    have "round_f32 x \<le> 0" using 2(1) round_pos_nonneg [of "- x"] by (simp add: round_f32_def)
    also have "0 \<le> round_f32 y" using 2(2) round_pos_nonneg [of y] by (simp add: round_f32_def)
    finally show ?thesis .
  next
    case 3
    then show ?thesis using assms round_pos_mono [of "- y" "- x"] by (simp add: round_f32_def)
  qed
qed

lemma f32_exp_one: "f32_exp 1 = - 23"
  by (simp add: f32_exp_def)

lemma round_f32_one: "round_f32 1 = 1"
proof -
  have "(1::real) / 2 powi f32_exp 1 = real_of_int (2 ^ 23)"
    by (simp add: f32_exp_one power_int_minus)
  then show ?thesis
    by (simp only: round_f32_def round_pos_def round_half_even_int)
       (simp add: f32_exp_one power_int_minus)
qed

lemma f32_exp_quarter: "f32_exp (1 / 4) = - 25"
proof -
  have "log 2 (2 powr (- 2)) = (- 2 :: real)" by (rule log_powr_cancel) simp_all
  moreover have "2 powr (- 2) = (1 / 4 :: real)" by (simp add: powr_minus)
  ultimately have "log 2 (1 / 4 :: real) = - 2" by metis
  then show ?thesis by (simp add: f32_exp_def)
qed

lemma round_f32_quarter: "round_f32 (1 / 4) = 1 / 4"
proof -
  have "(1 / 4 :: real) / 2 powi f32_exp (1 / 4) = real_of_int (2 ^ 23)"
    by (simp add: f32_exp_quarter power_int_minus)
  then show ?thesis
    by (simp only: round_f32_def round_pos_def round_half_even_int)
       (simp add: f32_exp_quarter power_int_minus)
qed

lemma f32_decimal_positive: "1 / 4 \<le> x \<Longrightarrow> 0 < round_f32 x"
  using round_f32_mono [of "1 / 4" x] by (simp add: round_f32_quarter)

text \<open>Fractions with a small numerator and a power of two below are exact.\<close>

lemma round_pos_exact:
  assumes "x / 2 powi f32_exp x = real_of_int i"
  shows "round_pos x = x"
proof -
  have "round_pos x = x / 2 powi f32_exp x * 2 powi f32_exp x"
    unfolding round_pos_def by (simp only: assms round_half_even_int)
  then show ?thesis by simp
qed

lemma round_f32_dyadic:
  assumes "n \<le> 2 ^ 24" "k \<le> 149"
  shows "round_f32 (real n / 2 ^ k) = real n / 2 ^ k"
proof (cases "n = 0")
  case True
  then show ?thesis by (simp add: round_f32_def)
next
  case False
  let ?x = "real n / 2 ^ k"
  have pos: "0 < ?x" using False by simp
  let ?e = "f32_exp ?x"
  have x: "?x / 2 powi ?e = real n * 2 powi (- int k - ?e)"
    by (simp add: power_int_diff power_int_minus field_simps)
  have "\<exists>i. ?x / 2 powi ?e = real_of_int i"
  proof (cases "?e \<le> - int k")
    case True
    then have "?x / 2 powi ?e = real_of_int (int n * 2 ^ nat (- int k - ?e))"
      unfolding x by (simp add: power_int_def)
    then show ?thesis by blast
  next
    case ek: False
    then have "- 149 < ?e" using assms(2) by linarith
    from f32_exp_lower [OF pos this] have "2 powi (?e + 23) * 2 ^ k \<le> real n" by (simp add: field_simps)
    moreover have "2 powi (?e + 23) * 2 ^ k = (2::real) powi (?e + 23 + int k)"
      by (simp add: power_int_add)
    ultimately have le: "2 powi (?e + 23 + int k) \<le> real n" by simp
    have "?e + 23 + int k \<le> 24"
    proof (rule ccontr)
      assume "\<not> ?e + 23 + int k \<le> 24"
      then have "(2::real) powi 25 \<le> 2 powi (?e + 23 + int k)" by (intro power_int_increasing) simp_all
      then have "(2::real) ^ 25 \<le> real n" using le by simp
      moreover have "real n \<le> 2 ^ 24" using assms(1) by (metis of_nat_le_iff of_nat_numeral of_nat_power)
      ultimately show False by simp
    qed
    then have e1: "?e + int k = 1" using ek by linarith
    then have e24: "?e + 23 + int k = 24" by linarith
    have "(2::real) ^ 24 \<le> real n" using le unfolding e24 by simp
    then have "n = 2 ^ 24" using assms(1) by (simp add: le_antisym numeral_power_le_of_nat_cancel_iff)
    moreover have "- int k - ?e = - 1" using e1 by linarith
    ultimately have "?x / 2 powi ?e = real_of_int (2 ^ 23)" unfolding x by (simp add: power_int_minus)
    then show ?thesis by blast
  qed
  then obtain i where "?x / 2 powi ?e = real_of_int i" ..
  then have "round_pos ?x = ?x" by (rule round_pos_exact)
  then show ?thesis using pos by (simp add: round_f32_def)
qed

lemma f32_exp_at:
  assumes "2 powi k \<le> x" "x < 2 powi (k + 1)" "- 126 \<le> k"
  shows "f32_exp x = k - 23"
proof -
  have pos: "0 < x" using assms(1) by (smt (verit) zero_less_power_int)
  have p: "2 powr real_of_int j = (2::real) powi j" for j using powr_real_of_int' [of 2 j] by simp
  have "real_of_int k \<le> log 2 x" using assms(1) pos by (simp add: le_log_iff p)
  moreover have "log 2 x < real_of_int (k + 1)" using assms(2) pos p [of "k + 1"] by (simp add: log_less_iff)
  ultimately have "\<lfloor>log 2 x\<rfloor> = k" by (simp add: floor_eq_iff)
  then show ?thesis using assms(3) by (simp add: f32_exp_def)
qed

text \<open>The value of a decimal literal: the nearest multiple of the unit in the last place.\<close>

lemma round_f32_near:
  assumes "2 powi k \<le> x" "x < 2 powi (k + 1)" "- 126 \<le> k" "\<bar>x * 2 powi (23 - k) - real_of_int i\<bar> < 1 / 2"
  shows "round_f32 x = real_of_int i / 2 powi (23 - k)"
proof -
  have pos: "0 < x" using assms(1) by (smt (verit) zero_less_power_int)
  have e: "f32_exp x = k - 23" using assms(1-3) by (rule f32_exp_at)
  have "x / 2 powi f32_exp x = x * 2 powi (23 - k)"
    unfolding e by (metis minus_diff_eq power_int_minus divide_inverse)
  moreover have "round_half_even (x * 2 powi (23 - k)) = i"
  proof -
    let ?z = "x * 2 powi (23 - k)"
    have "\<lfloor>?z\<rfloor> = i \<or> \<lfloor>?z\<rfloor> = i - 1" using assms(4) by linarith
    then show ?thesis using assms(4) by (auto simp: round_half_even_def Let_def) 
  qed
  ultimately have "round_pos x = real_of_int i * 2 powi (k - 23)" by (simp add: round_pos_def e)
  also have "\<dots> = real_of_int i / 2 powi (23 - k)"
    by (metis minus_diff_eq power_int_minus divide_inverse)
  finally show ?thesis using pos by (simp add: round_f32_def)
qed

interpretation f32: float_rounding round_f32
proof unfold_locales
  show "\<And>x y. x \<le> y \<Longrightarrow> round_f32 x \<le> round_f32 y" by (rule round_f32_mono)
  show "round_f32 0 = 0" by (simp add: round_f32_def)
  show "round_f32 1 = 1" by (rule round_f32_one)
qed

end
