(* ===== verification/Context.thy ===== *)
theory Context
  imports Floats
begin

text \<open>
  The context window (\<open>palaces/xun_context\<close>) and the conversation types (\<open>types.rs\<close>): counting tokens,
  dropping the oldest messages until a conversation fits, truncating tool output to a token budget,
  choosing the user messages that survive a compaction, and the guards against compacting too often.
  The tokenizer is a parameter (\<open>enc\<close>, and \<open>dec\<close> for decoding); so is the rounding of \<open>f64\<close>.
\<close>

section \<open>Messages and history\<close>

datatype role = System | User | Assistant

record image_content =
  img_data :: string
  img_media_type :: string

record message =
  role :: role
  content :: string
  images :: "image_content list"

definition text_message :: "role \<Rightarrow> string \<Rightarrow> message" where
  "text_message r c = \<lparr>role = r, content = c, images = []\<rparr>"

fun to_api_str :: "role \<Rightarrow> string" where
  "to_api_str System = ''system''"
| "to_api_str User = ''user''"
| "to_api_str Assistant = ''assistant''"

datatype tool_status = StRunning | StSuccess | StError

record tool_card =
  card_id :: string
  card_tool :: string
  card_input :: json
  card_status :: tool_status
  card_output :: string
  card_error :: "string option"
  card_geju :: "string option"
  card_mode :: "string option"

datatype history_entry =
  HUser string "image_content list"
| HAssistant string
| HSystem string
| HToolCall tool_card

fun is_message :: "history_entry \<Rightarrow> bool" where
  "is_message (HToolCall _) = False"
| "is_message _ = True"

fun to_llm_message :: "history_entry \<Rightarrow> message option" where
  "to_llm_message (HUser c is) = Some \<lparr>role = User, content = c, images = is\<rparr>"
| "to_llm_message (HAssistant c) = Some (text_message Assistant c)"
| "to_llm_message (HSystem c) = Some (text_message System c)"
| "to_llm_message (HToolCall t) =
     Some (text_message User
       (case card_error t of
          Some err \<Rightarrow> ''Tool '' @ card_tool t @ '' error: '' @ err
        | None \<Rightarrow> ''Tool '' @ card_tool t @ '' result: '' @ card_output t))"

definition to_llm_messages :: "history_entry list \<Rightarrow> message list" where
  "to_llm_messages es = List.map_filter to_llm_message es"

section \<open>Fitting a conversation\<close>

record context_window =
  max_tokens :: nat
  compaction_threshold :: real

definition count_tokens :: "(string \<Rightarrow> nat list) \<Rightarrow> message list \<Rightarrow> nat" where
  "count_tokens enc ms = sum_list (map (\<lambda>m. length (enc (content m))) ms)"

definition total_with :: "(string \<Rightarrow> nat list) \<Rightarrow> message list \<Rightarrow> nat \<Rightarrow> nat" where
  "total_with enc ms extra_chars = count_tokens enc ms + length (enc (replicate extra_chars CHR '' ''))"

text \<open>\<open>(max_tokens as f64 * threshold) as usize\<close>: truncation towards zero, saturating.\<close>

definition token_limit :: "rounding \<Rightarrow> context_window \<Rightarrow> nat" where
  "token_limit rnd w =
     min u64_max (nat \<lfloor>fmul rnd (of_nat_f rnd (max_tokens w)) (compaction_threshold w)\<rfloor>)"

definition starts_with_system :: "message list \<Rightarrow> bool" where
  "starts_with_system ms = (ms \<noteq> [] \<and> role (ms ! 0) = System)"

text \<open>\<open>remove_start\<close>; \<open>min_len\<close> is one more.\<close>

definition remove_start :: "message list \<Rightarrow> nat" where
  "remove_start ms = (if starts_with_system ms then 1 else 0)"

text \<open>\<open>Vec::remove\<close>, in range.\<close>

definition remove_nth :: "nat \<Rightarrow> 'a list \<Rightarrow> 'a list" where
  "remove_nth i xs = take i xs @ drop (Suc i) xs"

lemma length_remove_nth: "i < length xs \<Longrightarrow> length (remove_nth i xs) = length xs - 1"
  by (simp add: remove_nth_def)

function fit_loop ::
  "nat \<Rightarrow> nat \<Rightarrow> message list \<Rightarrow> nat list \<Rightarrow> nat \<Rightarrow> nat \<Rightarrow> message list \<times> nat \<times> nat" where
  "fit_loop limit start ms toks tot dropped =
     (if length ms > Suc start \<and> tot > limit
      then fit_loop limit start (remove_nth start ms) (remove_nth start toks)
             (saturating_sub tot (toks ! start)) (Suc dropped)
      else (ms, dropped, tot))"
  by pat_completeness auto

termination
  by (relation "measure (\<lambda>(limit, start, ms, _). length ms)") (auto simp: length_remove_nth)

declare fit_loop.simps [simp del]

definition fit ::
  "(string \<Rightarrow> nat list) \<Rightarrow> rounding \<Rightarrow> context_window \<Rightarrow> message list \<Rightarrow> message list \<times> nat \<times> nat" where
  "fit enc rnd w ms =
     fit_loop (token_limit rnd w) (remove_start ms) ms (map (\<lambda>m. length (enc (content m))) ms)
       (count_tokens enc ms) 0"

text \<open>\<open>rposition\<close> of the last user message.\<close>

definition last_user_idx :: "message list \<Rightarrow> nat option" where
  "last_user_idx ms =
     (case filter (\<lambda>i. role (ms ! i) = User) [0..<length ms] of [] \<Rightarrow> None | is \<Rightarrow> Some (last is))"

function victim_loop ::
  "nat \<Rightarrow> nat \<Rightarrow> nat option \<Rightarrow> nat list \<Rightarrow> nat \<Rightarrow> nat \<Rightarrow> nat \<Rightarrow> nat" where
  "victim_loop limit min_len lui toks idx tot count =
     (if length toks - count > min_len \<and> tot > limit then
        (if idx \<ge> length toks then count
         else if (case lui of Some u \<Rightarrow> idx \<ge> u | None \<Rightarrow> False) then count
         else victim_loop limit min_len lui toks (Suc idx) (saturating_sub tot (toks ! idx)) (Suc count))
      else count)"
  by pat_completeness auto

termination
  by (relation "measure (\<lambda>(limit, min_len, lui, toks, idx, _, _). length toks - idx)") auto

declare victim_loop.simps [simp del]

definition victim_range ::
  "(string \<Rightarrow> nat list) \<Rightarrow> rounding \<Rightarrow> context_window \<Rightarrow> message list \<Rightarrow> nat \<times> nat" where
  "victim_range enc rnd w ms =
     (if length ms \<le> Suc (remove_start ms) then (0, 0)
      else (remove_start ms,
            victim_loop (token_limit rnd w) (Suc (remove_start ms)) (last_user_idx ms)
              (map (\<lambda>m. length (enc (content m))) ms) (remove_start ms) (count_tokens enc ms) 0))"

definition would_exceed ::
  "(string \<Rightarrow> nat list) \<Rightarrow> rounding \<Rightarrow> context_window \<Rightarrow> message list \<Rightarrow> nat \<Rightarrow> bool" where
  "would_exceed enc rnd w ms extra_chars = (total_with enc ms extra_chars > token_limit rnd w)"

subsection \<open>What fitting leaves\<close>

text \<open>The conversation with \<open>k\<close> messages dropped after the first \<open>s\<close>.\<close>

definition dropping :: "nat \<Rightarrow> nat \<Rightarrow> 'a list \<Rightarrow> 'a list" where
  "dropping s k ms = take s ms @ drop (s + k) ms"

lemma dropping_0 [simp]: "dropping s 0 ms = ms"
  by (simp add: dropping_def)

lemma length_dropping: "s + k \<le> length ms \<Longrightarrow> length (dropping s k ms) = length ms - k"
  by (simp add: dropping_def)

lemma dropping_Suc: "s + k < length ms \<Longrightarrow> remove_nth s (dropping s k ms) = dropping s (Suc k) ms"
  by (simp add: dropping_def remove_nth_def)

lemma dropping_nth: "s + k < length ms \<Longrightarrow> dropping s k ms ! s = ms ! (s + k)"
  by (simp add: dropping_def nth_append)

lemma sum_dropping_Suc:
  fixes ts :: "nat list"
  assumes "s + k < length ts"
  shows "sum_list (dropping s k ts) = sum_list (dropping s (Suc k) ts) + ts ! (s + k)"
  using Cons_nth_drop_Suc [OF assms] by (simp add: dropping_def) (metis add.commute sum_list.Cons)

lemma map_dropping: "map f (dropping s k ms) = dropping s k (map f ms)"
  by (simp add: dropping_def take_map drop_map)

lemma fit_loop_spec:
  fixes ms :: "message list" and ts :: "nat list"
  assumes "length ts = length ms" "s + k < length ms \<or> k = 0"
  shows "\<exists>d \<ge> k. fit_loop limit s (dropping s k ms) (dropping s k ts) (sum_list (dropping s k ts)) k =
       (dropping s d ms, d, sum_list (dropping s d ts)) \<and>
     (s + d < length ms \<or> d = 0) \<and>
     (sum_list (dropping s d ts) \<le> limit \<or> length ms - d \<le> Suc s) \<and>
     (\<forall>j. k \<le> j \<and> j < d \<longrightarrow> limit < sum_list (dropping s j ts))"
  using assms
proof (induction "length ms - k" arbitrary: k rule: less_induct)
  case less
  have len: "length (dropping s k ms) = length ms - k"
    using less.prems(2) by (auto simp: length_dropping)
  show ?case
  proof (cases "length ms - k > Suc s \<and> sum_list (dropping s k ts) > limit")
    case False
    then show ?thesis using less.prems len
      by (intro exI [of _ k]) (auto simp: fit_loop.simps [of limit s "dropping s k ms"])
  next
    case True
    then have lt: "s + k < length ms" "s + Suc k < length ms" by auto
    have step: "fit_loop limit s (dropping s k ms) (dropping s k ts) (sum_list (dropping s k ts)) k =
        fit_loop limit s (dropping s (Suc k) ms) (dropping s (Suc k) ts)
          (sum_list (dropping s (Suc k) ts)) (Suc k)"
      using True lt less.prems(1) len
      by (subst fit_loop.simps)
         (simp add: dropping_Suc dropping_nth sum_dropping_Suc saturating_sub_def)
    have "length ms - Suc k < length ms - k" "s + Suc k < length ms \<or> Suc k = 0" using lt by auto
    from less.hyps [OF this(1) less.prems(1) this(2)] obtain d where
      d: "Suc k \<le> d"
        "fit_loop limit s (dropping s (Suc k) ms) (dropping s (Suc k) ts)
          (sum_list (dropping s (Suc k) ts)) (Suc k) = (dropping s d ms, d, sum_list (dropping s d ts))"
        "s + d < length ms \<or> d = 0"
        "sum_list (dropping s d ts) \<le> limit \<or> length ms - d \<le> Suc s"
        "\<forall>j. Suc k \<le> j \<and> j < d \<longrightarrow> limit < sum_list (dropping s j ts)" by blast
    have "limit < sum_list (dropping s j ts)" if "k \<le> j" "j < d" for j
      using that d(5) True by (cases "j = k") auto
    then show ?thesis using d step by (intro exI [of _ d]) auto
  qed
qed

text \<open>What both loops look for: the number of messages to drop.\<close>

definition fits_after :: "nat \<Rightarrow> nat \<Rightarrow> nat list \<Rightarrow> nat \<Rightarrow> bool" where
  "fits_after limit s ts k = (sum_list (dropping s k ts) \<le> limit \<or> length ts - k \<le> Suc s)"

lemma fit_result:
  fixes enc rnd w ms
  defines "s \<equiv> remove_start ms"
    and "ts \<equiv> map (\<lambda>m. length (enc (content m))) ms"
    and "limit \<equiv> token_limit rnd w"
  obtains d where "fit enc rnd w ms = (dropping s d ms, d, count_tokens enc (dropping s d ms))"
    "s + d < length ms \<or> d = 0" "fits_after limit s ts d" "\<And>j. j < d \<Longrightarrow> \<not> fits_after limit s ts j"
proof -
  have len: "length ts = length ms" by (simp add: ts_def)
  have ct: "count_tokens enc (dropping s k ms) = sum_list (dropping s k ts)" for k
    by (simp add: count_tokens_def ts_def map_dropping)
  from fit_loop_spec [OF len, of s 0 limit] obtain d where
    d: "fit_loop limit s ms ts (sum_list ts) 0 = (dropping s d ms, d, sum_list (dropping s d ts))"
      "s + d < length ms \<or> d = 0" "sum_list (dropping s d ts) \<le> limit \<or> length ms - d \<le> Suc s"
      "\<forall>j. j < d \<longrightarrow> limit < sum_list (dropping s j ts)" by auto
  have "fit enc rnd w ms = fit_loop limit s ms ts (sum_list ts) 0"
    by (simp add: fit_def s_def ts_def limit_def count_tokens_def)
  moreover have "\<not> fits_after limit s ts j" if "j < d" for j
  proof -
    have "s + d < length ms" using d(2) that by auto
    then have "\<not> length ts - j \<le> Suc s" using that len by linarith
    then show ?thesis using d(4) that by (simp add: fits_after_def not_le)
  qed
  ultimately show thesis using that [of d] d len ct by (simp add: fits_after_def)
qed

lemma victim_loop_spec:
  assumes "s + k < length ts \<or> k = 0"
  shows "\<exists>c \<ge> k. victim_loop limit (Suc s) lui ts (s + k) (sum_list (dropping s k ts)) k = c \<and>
     (fits_after limit s ts c \<or> (\<exists>u. lui = Some u \<and> u \<le> s + c)) \<and>
     (\<forall>j. k \<le> j \<and> j < c \<longrightarrow> \<not> fits_after limit s ts j \<and> (\<forall>u. lui = Some u \<longrightarrow> s + j < u))"
  using assms
proof (induction "length ts - k" arbitrary: k rule: less_induct)
  case less
  let ?stop = "case lui of Some u \<Rightarrow> u \<le> s + k | None \<Rightarrow> False"
  show ?case
  proof (cases "fits_after limit s ts k \<or> ?stop")
    case True
    then show ?thesis
      by (intro exI [of _ k], subst victim_loop.simps) (auto simp: fits_after_def split: option.splits)
  next
    case False
    then have lt: "s + k < length ts" "s + Suc k < length ts" by (auto simp: fits_after_def)
    have step: "victim_loop limit (Suc s) lui ts (s + k) (sum_list (dropping s k ts)) k =
        victim_loop limit (Suc s) lui ts (s + Suc k) (sum_list (dropping s (Suc k) ts)) (Suc k)"
      using False lt
      by (subst victim_loop.simps)
         (auto simp: fits_after_def sum_dropping_Suc saturating_sub_def split: option.splits)
    have "length ts - Suc k < length ts - k" "s + Suc k < length ts \<or> Suc k = 0" using lt by auto
    from less.hyps [OF this] obtain c where
      c: "Suc k \<le> c"
        "victim_loop limit (Suc s) lui ts (s + Suc k) (sum_list (dropping s (Suc k) ts)) (Suc k) = c"
        "fits_after limit s ts c \<or> (\<exists>u. lui = Some u \<and> u \<le> s + c)"
        "\<forall>j. Suc k \<le> j \<and> j < c \<longrightarrow>
           \<not> fits_after limit s ts j \<and> (\<forall>u. lui = Some u \<longrightarrow> s + j < u)" by blast
    have "\<not> fits_after limit s ts j \<and> (\<forall>u. lui = Some u \<longrightarrow> s + j < u)" if "k \<le> j" "j < c" for j
      using that c(4) False by (cases "j = k") (auto split: option.splits)
    then show ?thesis using c step by (intro exI [of _ c]) auto
  qed
qed

text \<open>Fitting drops exactly what it must. The result keeps a leading system message, drops the
  oldest messages after it as one block, reports their number and the tokens that remain, and
  either fits the limit or is down to the minimum; dropping any smaller number would not do. So
  the loop always terminates with at least one message left of a non-empty conversation.\<close>

theorem fit_minimal:
  "\<exists>d. fit enc rnd w ms =
      (dropping (remove_start ms) d ms, d, count_tokens enc (dropping (remove_start ms) d ms)) \<and>
     (remove_start ms + d < length ms \<or> d = 0) \<and>
     fits_after (token_limit rnd w) (remove_start ms) (map (\<lambda>m. length (enc (content m))) ms) d \<and>
     list_all (\<lambda>j. \<not> fits_after (token_limit rnd w) (remove_start ms)
                     (map (\<lambda>m. length (enc (content m))) ms) j) [0..<d]"
proof -
  from fit_result [of enc rnd w ms] obtain d where
    "fit enc rnd w ms =
      (dropping (remove_start ms) d ms, d, count_tokens enc (dropping (remove_start ms) d ms))"
    "remove_start ms + d < length ms \<or> d = 0"
    "fits_after (token_limit rnd w) (remove_start ms) (map (\<lambda>m. length (enc (content m))) ms) d"
    "\<And>j. j < d \<Longrightarrow>
      \<not> fits_after (token_limit rnd w) (remove_start ms) (map (\<lambda>m. length (enc (content m))) ms) j"
    by metis
  then show ?thesis by (intro exI [of _ d]) (simp add: list_all_iff)
qed

text \<open>The range to summarise is what fitting would drop, cut off at the last user message. It
  never contains that message, and without a user message in the dropped block the two agree.\<close>

theorem victim_range_protects_last_user:
  assumes "Suc (remove_start ms) < length ms" "fit enc rnd w ms = (ms', d, n)"
  shows "victim_range enc rnd w ms =
    (remove_start ms,
     case last_user_idx ms of None \<Rightarrow> d | Some u \<Rightarrow> min d (u - remove_start ms))"
proof -
  let ?s = "remove_start ms" and ?ts = "map (\<lambda>m. length (enc (content m))) ms"
  let ?fits = "fits_after (token_limit rnd w) ?s ?ts"
  from fit_result [of enc rnd w ms] assms(2) have
    d: "?fits d" "\<And>j. j < d \<Longrightarrow> \<not> ?fits j" by (metis prod.inject)+
  from victim_loop_spec [of ?s 0 ?ts "token_limit rnd w" "last_user_idx ms"] obtain c where
    c: "victim_loop (token_limit rnd w) (Suc ?s) (last_user_idx ms) ?ts ?s (sum_list ?ts) 0 = c"
      "?fits c \<or> (\<exists>u. last_user_idx ms = Some u \<and> u \<le> ?s + c)"
      "\<And>j. j < c \<Longrightarrow> \<not> ?fits j \<and> (\<forall>u. last_user_idx ms = Some u \<longrightarrow> ?s + j < u)" by auto
  have le: "c \<le> d" using c(3) [of d] d(1) by (meson not_le)
  have "c = (case last_user_idx ms of None \<Rightarrow> d | Some u \<Rightarrow> min d (u - ?s))"
  proof (cases "last_user_idx ms")
    case None
    then show ?thesis using c(2) d(2) [of c] le by fastforce
  next
    case (Some u)
    have "c \<le> u - ?s" using c(3) [of "c - 1"] Some by (cases c) auto
    moreover have "c = d \<or> u - ?s \<le> c" using c(2) d(2) [of c] le Some by (cases "c = d") auto
    ultimately show ?thesis using Some le by auto
  qed
  then show ?thesis using assms(1) c(1) by (simp add: victim_range_def count_tokens_def)
qed

definition sample_conversation :: "message list" where
  "sample_conversation =
     [text_message User ''aaaa'', text_message Assistant ''bb'', text_message User ''c'']"

theorem victim_range_protects_last_user_witness:
  "victim_range (\<lambda>s. map (\<lambda>_. 0) s) (\<lambda>x. x) \<lparr>max_tokens = 0, compaction_threshold = 1\<rparr>
     sample_conversation = (0, 2)"
proof -
  have "\<exists>ms' n. fit (\<lambda>s. map (\<lambda>_. 0) s) (\<lambda>x. x) \<lparr>max_tokens = 0, compaction_threshold = 1\<rparr>
      sample_conversation = (ms', 2, n)"
    by (simp add: fit_def fit_loop.simps sample_conversation_def text_message_def remove_start_def
        starts_with_system_def token_limit_def fmul_def of_nat_f_def count_tokens_def remove_nth_def
        saturating_sub_def numeral_2_eq_2)
  then obtain ms' n where "fit (\<lambda>s. map (\<lambda>_. 0) s) (\<lambda>x. x)
      \<lparr>max_tokens = 0, compaction_threshold = 1\<rparr> sample_conversation = (ms', 2, n)" by blast
  from victim_range_protects_last_user [OF _ this] show ?thesis
    by (simp add: sample_conversation_def text_message_def remove_start_def starts_with_system_def
        last_user_idx_def numeral_3_eq_3)
qed

section \<open>Tool output budget\<close>

record tool_output_budget =
  default_budget :: nat
  tool_budgets :: "string \<rightharpoonup> nat"
  char_fast_path_multiplier :: nat

definition budget_for :: "tool_output_budget \<Rightarrow> string \<Rightarrow> nat" where
  "budget_for b tool = (case tool_budgets b tool of Some n \<Rightarrow> n | None \<Rightarrow> default_budget b)"

text \<open>The omission marker; guidance is attached when the budget can afford it. Text outside ASCII is
  written as its UTF-8 bytes.\<close>

definition base_marker :: "nat \<Rightarrow> nat \<Rightarrow> string" where
  "base_marker len ntokens =
     [CHR 0x0A] @ ''... [truncated ~'' @ nat_to_string len @ '' chars / '' @ nat_to_string ntokens @
     '' total tokens] ...'' @ [CHR 0x0A]"

definition guidance :: string where
  "guidance =
     ''[the omitted middle is not in this preview; do not repeat the same call '' @
     [CHR 0xE2, CHR 0x80, CHR 0x94] @
     '' narrow it instead (grep/head/tail filters, smaller max_lines). If a '' @ [CHR 0x22] @
     [CHR 0xE5, CHR 0xAE, CHR 0x8C, CHR 0xE6, CHR 0x95, CHR 0xB4, CHR 0xE8, CHR 0xBE, CHR 0x93,
      CHR 0xE5, CHR 0x87, CHR 0xBA, CHR 0xE5, CHR 0xB7, CHR 0xB2, CHR 0xE4, CHR 0xBF, CHR 0x9D,
      CHR 0xE5, CHR 0xAD, CHR 0x98] @ [CHR 0x22] @
     '' notice follows, page through the full output with retrieve_tool_result by tool_call_id. '' @
     ''For shell, run_in_background: true writes full output to a file '' @
     ''you can page through with read_file]'' @ [CHR 0x0A]"

definition truncation_marker :: "nat \<Rightarrow> nat \<Rightarrow> nat \<Rightarrow> string" where
  "truncation_marker budget len ntokens =
     (if budget \<ge> 200 then base_marker len ntokens @ guidance else base_marker len ntokens)"

text \<open>How many tokens of the budget go to the head and to the tail, and the cut itself.\<close>

definition head_tokens :: "nat \<Rightarrow> nat" where
  "head_tokens content_budget = max (content_budget div 2) 1"

definition tail_tokens :: "nat \<Rightarrow> nat" where
  "tail_tokens content_budget = max (saturating_sub content_budget (head_tokens content_budget)) 1"

definition cut_middle ::
  "(nat list \<Rightarrow> string option) \<Rightarrow> nat list \<Rightarrow> string \<Rightarrow> nat \<Rightarrow> nat \<Rightarrow> string" where
  "cut_middle dec tokens marker h t =
     (let head = (case dec (take (min h (length tokens)) tokens) of Some s \<Rightarrow> s | None \<Rightarrow> []);
          tail_start = saturating_sub (length tokens) t;
          tail = (if tail_start < length tokens
                  then (case dec (drop tail_start tokens) of Some s \<Rightarrow> s | None \<Rightarrow> [])
                  else [])
      in head @ marker @ tail)"

definition truncate_output ::
  "(string \<Rightarrow> nat list) \<Rightarrow> (nat list \<Rightarrow> string option) \<Rightarrow> tool_output_budget \<Rightarrow> string \<Rightarrow> string \<Rightarrow>
   string" where
  "truncate_output enc dec b outp tool =
     (let budget = budget_for b tool in
      if length outp < budget * char_fast_path_multiplier b then outp
      else (let tokens = enc outp in
        if length tokens \<le> budget then outp
        else (let marker = truncation_marker budget (length outp) (length tokens);
                  content_budget = saturating_sub budget (length (enc marker))
              in cut_middle dec tokens marker (head_tokens content_budget)
                   (tail_tokens content_budget))))"

lemma head_tail_bound: "head_tokens n + tail_tokens n \<le> max 2 n" "1 \<le> head_tokens n" "1 \<le> tail_tokens n"
  by (auto simp: head_tokens_def tail_tokens_def)

lemma cut_middle_in_range:
  "tokens \<noteq> [] \<Longrightarrow> 1 \<le> t \<Longrightarrow>
   cut_middle dec tokens marker h t =
     (case dec (take h tokens) of Some s \<Rightarrow> s | None \<Rightarrow> []) @ marker @
     (case dec (drop (length tokens - t) tokens) of Some s \<Rightarrow> s | None \<Rightarrow> [])"
  by (simp add: cut_middle_def Let_def min_def)

definition default_budgets :: "(string \<times> nat) list" where
  "default_budgets =
     [(''shell'', 1500), (''read_file'', 2500), (''grep'', 2000), (''git'', 2000), (''delegate'', 3000),
      (''web_fetch'', 4000), (''web_search'', 2500), (''namarupa'', 1500), (''skill'', 2000),
      (''task'', 1000), (''cron'', 1000), (''ask_user'', 1500), (''write_file'', 500),
      (''patch_file'', 500), (''web_execute_js'', 3000), (''browser_navigate'', 3000),
      (''browser_snapshot'', 2500), (''browser_click'', 2000), (''browser_type'', 2000),
      (''browser_press'', 2000), (''browser_screenshot'', 1500), (''browser_scroll'', 500),
      (''browser_console'', 2000), (''browser_dialog'', 500), (''computer_use'', 80000)]"

definition budget_default :: tool_output_budget where
  "budget_default =
     \<lparr>default_budget = 1500, tool_budgets = map_of default_budgets, char_fast_path_multiplier = 2\<rparr>"

text \<open>The truncation contract. Output within the token budget is returned as it is. Longer output
  either takes the character fast path and is returned whole although it exceeds the budget (it is
  then shorter than twice the budget in bytes), or becomes a decoded head, the marker and a decoded
  tail, where head and tail together keep at most the budget left by the marker (two tokens at
  least) and never overlap.\<close>

theorem truncate_output_contract:
  fixes enc :: "string \<Rightarrow> nat list" and outp b tool
  defines "tokens \<equiv> enc outp" and "budget \<equiv> budget_for b tool"
  assumes "char_fast_path_multiplier b = 2"
  shows "(length tokens \<le> budget \<longrightarrow> truncate_output enc dec b outp tool = outp) \<and>
    (length tokens > budget \<longrightarrow>
       (if length outp < 2 * budget then truncate_output enc dec b outp tool = outp
        else (\<exists>h t. truncate_output enc dec b outp tool =
                 (case dec (take h tokens) of Some s \<Rightarrow> s | None \<Rightarrow> []) @
                 truncation_marker budget (length outp) (length tokens) @
                 (case dec (drop (length tokens - t) tokens) of Some s \<Rightarrow> s | None \<Rightarrow> []) \<and>
               1 \<le> h \<and> 1 \<le> t \<and>
               h + t \<le> max 2 (budget - length (enc (truncation_marker budget
                                  (length outp) (length tokens)))) \<and>
               (2 \<le> length tokens \<longrightarrow> h + t \<le> length tokens))))"
proof (intro conjI impI)
  assume "length tokens \<le> budget"
  then show "truncate_output enc dec b outp tool = outp"
    by (simp add: truncate_output_def tokens_def budget_def Let_def)
next
  assume long: "length tokens > budget"
  show "if length outp < 2 * budget then truncate_output enc dec b outp tool = outp
        else (\<exists>h t. truncate_output enc dec b outp tool =
                 (case dec (take h tokens) of Some s \<Rightarrow> s | None \<Rightarrow> []) @
                 truncation_marker budget (length outp) (length tokens) @
                 (case dec (drop (length tokens - t) tokens) of Some s \<Rightarrow> s | None \<Rightarrow> []) \<and>
               1 \<le> h \<and> 1 \<le> t \<and>
               h + t \<le> max 2 (budget - length (enc (truncation_marker budget
                                  (length outp) (length tokens)))) \<and>
               (2 \<le> length tokens \<longrightarrow> h + t \<le> length tokens))"
  proof (cases "length outp < 2 * budget")
    case True
    then show ?thesis using assms(3) by (simp add: truncate_output_def budget_def mult.commute)
  next
    case False
    define cb where
      "cb = budget - length (enc (truncation_marker budget (length outp) (length tokens)))"
    have ne: "tokens \<noteq> []" using long by auto
    have eq: "truncate_output enc dec b outp tool =
        cut_middle dec tokens (truncation_marker budget (length outp) (length tokens))
          (head_tokens cb) (tail_tokens cb)"
      using False long assms(3)
      by (simp add: truncate_output_def Let_def mult.commute cb_def tokens_def budget_def)
    have "cb < length tokens" using long by (simp add: cb_def less_imp_diff_less)
    then have len: "head_tokens cb + tail_tokens cb \<le> length tokens" if "2 \<le> length tokens"
      using that head_tail_bound(1) [of cb] by linarith
    have "\<exists>h t. truncate_output enc dec b outp tool =
                 (case dec (take h tokens) of Some s \<Rightarrow> s | None \<Rightarrow> []) @
                 truncation_marker budget (length outp) (length tokens) @
                 (case dec (drop (length tokens - t) tokens) of Some s \<Rightarrow> s | None \<Rightarrow> []) \<and>
               1 \<le> h \<and> 1 \<le> t \<and> h + t \<le> max 2 cb \<and> (2 \<le> length tokens \<longrightarrow> h + t \<le> length tokens)"
      using eq [unfolded cut_middle_in_range [OF ne head_tail_bound(3)]] head_tail_bound len by blast
    then show ?thesis using False unfolding cb_def by simp
  qed
qed

theorem truncate_output_contract_witness:
  "truncate_output (\<lambda>s. map (\<lambda>_. 0) s) (\<lambda>_. None)
     \<lparr>default_budget = 2, tool_budgets = Map.empty, char_fast_path_multiplier = 2\<rparr> ''abc'' ''x'' = ''abc''"
  using truncate_output_contract [of
      "\<lparr>default_budget = 2, tool_budgets = Map.empty, char_fast_path_multiplier = 2\<rparr>"
      "\<lambda>s. map (\<lambda>_. 0) s" "''abc''" "''x''" "\<lambda>_. None"]
  by (simp add: budget_for_def)

section \<open>Resetting\<close>

record context_reset =
  cooldown_turns :: nat
  last_reset_at :: nat
  last_compaction_at :: nat

record handoff_artifact =
  goals :: string
  done_items :: "string list"
  todo_items :: "string list"
  key_decisions :: "string list"
  obstacles :: "string list"

definition context_reset_new :: "nat \<Rightarrow> context_reset" where
  "context_reset_new n = \<lparr>cooldown_turns = n, last_reset_at = 0, last_compaction_at = 0\<rparr>"

definition should_reset :: "rounding \<Rightarrow> context_reset \<Rightarrow> nat \<Rightarrow> nat \<Rightarrow> nat \<Rightarrow> bool" where
  "should_reset rnd r tokens_used maxt turn =
     (if saturating_sub turn (last_reset_at r) < cooldown_turns r then False
      else if saturating_sub turn (last_compaction_at r) < 3 then False
      else tokens_used > min u64_max (nat \<lfloor>fmul rnd (of_nat_f rnd maxt) (rnd 0.85)\<rfloor>))"

definition generate_handoff_stub :: "nat \<Rightarrow> string \<Rightarrow> handoff_artifact" where
  "generate_handoff_stub turn_count task =
     \<lparr>goals = task, done_items = [''Completed '' @ nat_to_string turn_count @ '' turns of work''],
      todo_items = [''Continue from handoff''], key_decisions = [], obstacles = []\<rparr>"

definition mark_reset :: "context_reset \<Rightarrow> nat \<Rightarrow> context_reset" where
  "mark_reset r turn = r\<lparr>last_reset_at := turn\<rparr>"

definition mark_compaction :: "context_reset \<Rightarrow> nat \<Rightarrow> context_reset" where
  "mark_compaction r turn = r\<lparr>last_compaction_at := turn\<rparr>"

lemma cooldown_after_reset:
  "t0 \<le> turn \<Longrightarrow> turn < t0 + cooldown_turns r \<Longrightarrow> \<not> should_reset rnd (mark_reset r t0) used maxt turn"
  by (auto simp: should_reset_def mark_reset_def)

lemma cooldown_after_compaction:
  "turn < t0 + 3 \<Longrightarrow> \<not> should_reset rnd (mark_compaction r t0) used maxt turn"
  by (auto simp: should_reset_def mark_compaction_def)

end
