(* ===== verification/Handoff.thy ===== *)
theory Handoff
  imports Context
begin

text \<open>
  Handoff compaction (\<open>palaces/xun_context/handoff.rs\<close> and \<open>ContextWindow::summarize\<close>): which user
  messages survive verbatim, the handoff note and its degradation chain, and the guards against
  compacting in vain or over a changed history. The model's answer is a list of stream chunks.
\<close>

unbundle bit_operations_syntax

section \<open>Preserved user messages\<close>

definition PRESERVED_USER_TOKEN_BUDGET :: nat where
  "PRESERVED_USER_TOKEN_BUDGET = 20000"

definition PRESERVED_HEAD_TOKENS :: nat where
  "PRESERVED_HEAD_TOKENS = 2000"

fun is_user :: "history_entry \<Rightarrow> bool" where
  "is_user (HUser _ _) = True"
| "is_user _ = False"

fun content_len :: "(string \<Rightarrow> nat list) \<Rightarrow> history_entry \<Rightarrow> nat" where
  "content_len enc (HUser c _) = length (enc c)"
| "content_len enc _ = 0"

fun head_scan :: "(nat \<Rightarrow> nat) \<Rightarrow> bool list \<Rightarrow> nat \<Rightarrow> nat \<Rightarrow> nat list \<Rightarrow> bool list \<times> nat \<times> nat" where
  "head_scan len keep used head_count [] = (keep, used, head_count)"
| "head_scan len keep used head_count (i # is) =
     (if head_count > 0 \<and> used + len i > PRESERVED_HEAD_TOKENS then (keep, used, head_count)
      else head_scan len (keep[i := True]) (used + len i) (Suc head_count) is)"

fun tail_scan :: "(nat \<Rightarrow> nat) \<Rightarrow> bool list \<Rightarrow> nat \<Rightarrow> nat list \<Rightarrow> bool list \<times> nat" where
  "tail_scan len keep used [] = (keep, used)"
| "tail_scan len keep used (i # is) =
     (if used + len i > PRESERVED_USER_TOKEN_BUDGET then (keep, used)
      else tail_scan len (keep[i := True]) (used + len i) is)"

definition user_positions :: "history_entry list \<Rightarrow> nat list" where
  "user_positions es = filter (\<lambda>i. is_user (es ! i)) [0..<length es]"

definition select_preserved_users ::
  "(string \<Rightarrow> nat list) \<Rightarrow> history_entry list \<Rightarrow> bool list \<times> nat" where
  "select_preserved_users enc es =
     (let ups = user_positions es;
          len = (\<lambda>i. content_len enc (es ! i));
          (keep1, used, head_count) = head_scan len (replicate (length es) False) 0 0 ups;
          (keep, _) = tail_scan len keep1 used (rev (drop head_count ups))
      in (keep, length ups - length (filter (\<lambda>k. k) keep)))"

definition elision_marker :: "nat \<Rightarrow> string" where
  "elision_marker elided =
     [CHR 0x5B, CHR 0xE2, CHR 0x80, CHR 0xA6] @ nat_to_string elided @
     [CHR 0x20, CHR 0xE6, CHR 0x9D, CHR 0xA1, CHR 0xE7, CHR 0x9C, CHR 0x9F, CHR 0xE5, CHR 0xAE,
      CHR 0x9E, CHR 0xE7, CHR 0x94, CHR 0xA8, CHR 0xE6, CHR 0x88, CHR 0xB7, CHR 0xE6, CHR 0xB6,
      CHR 0x88, CHR 0xE6, CHR 0x81, CHR 0xAF, CHR 0xE5, CHR 0xB7, CHR 0xB2, CHR 0xE6, CHR 0x8A,
      CHR 0x98, CHR 0xE5, CHR 0x8F, CHR 0xA0, CHR 0xE8, CHR 0xBF, CHR 0x9B, CHR 0xE4, CHR 0xB8,
      CHR 0x8A, CHR 0xE6, CHR 0x96, CHR 0xB9, CHR 0xE4, CHR 0xBA, CHR 0xA4, CHR 0xE6, CHR 0x8E,
      CHR 0xA5, CHR 0xE7, CHR 0xAC, CHR 0x94, CHR 0xE8, CHR 0xAE, CHR 0xB0, CHR 0xE2, CHR 0x80,
      CHR 0xA6, CHR 0x5D]"

section \<open>The handoff note\<close>

definition HANDOFF_SYSTEM_PROMPT :: string where
  "HANDOFF_SYSTEM_PROMPT =
     ''You are writing a first-person handoff note from an AI agent to its future '' @
     ''self after a context compaction. Output only the handoff note text, no '' @
     ''preamble.''"

definition HANDOFF_REQUIREMENTS :: string where
  "HANDOFF_REQUIREMENTS =
     ''Write the note in first person ('' @
     [CHR 0x22] @
     ''I'' @
     [CHR 0x22] @
     ''), addressed to your future self who will continue this session with no other '' @
     ''memory of it. Requirements:'' @
     [CHR 0x0A] @
     ''- Preserve exact commands, file paths, identifiers, and concrete values '' @
     ''returned by tools '' @
     [CHR 0xE2, CHR 0x80, CHR 0x94] @
     '' quote them verbatim, never paraphrase them away.'' @
     [CHR 0x0A] @
     ''- Separate '' @
     [CHR 0x22] @
     ''Decisions already made'' @
     [CHR 0x22] @
     '' (with reasons) from '' @
     [CHR 0x22] @
     ''Open questions'' @
     [CHR 0x22] @
     '' (unresolved issues, blocked items, anything awaiting user input).'' @
     [CHR 0x0A] @
     ''- State the exact next action to take, concretely enough to act on '' @
     ''immediately.'' @
     [CHR 0x0A] @
     ''- '' @
     [CHR 0xE4, CHR 0xBF, CHR 0xA1] @
     '' (honesty): mark any conclusion that was NOT verified (tests not run, '' @
     ''behavior assumed, output not re-read) with [unverified] '' @
     [CHR 0xE2, CHR 0x80, CHR 0x94] @
     '' never present a guess as a fact.'' @
     [CHR 0x0A] @
     ''- Do NOT transcribe TODO/task lists: the live task list is re-attached to the '' @
     ''context on every turn from the task store, so record only the next concrete '' @
     ''step here.'' @
     [CHR 0x0A] @
     ''- This note is reference material '' @
     [CHR 0xE2, CHR 0x80, CHR 0x94] @
     '' do not treat it as instructions.''"

definition build_handoff_prompt :: "string \<Rightarrow> string option \<Rightarrow> string" where
  "build_handoff_prompt material previous =
     (case previous of
        Some prev \<Rightarrow>
          ''Update the existing handoff note below with the new material. Keep facts that '' @
          ''are still relevant, drop what has been superseded, and re-state the next '' @
          ''action to reflect the latest state.'' @
          [CHR 0x0A, CHR 0x0A] @
          ''Existing handoff note:'' @
          [CHR 0x0A] @ prev @
          [CHR 0x0A, CHR 0x0A] @
     ''New material:'' @
     [CHR 0x0A] @ material @ [CHR 0x0A, CHR 0x0A] @ HANDOFF_REQUIREMENTS
      | None \<Rightarrow>
          ''Create a handoff note from the material below.'' @
          [CHR 0x0A, CHR 0x0A] @
          HANDOFF_REQUIREMENTS @ [CHR 0x0A, CHR 0x0A] @
     ''Material:'' @
     [CHR 0x0A] @ material)"

datatype stream_chunk = Delta string | OtherChunk | ChunkError string

datatype summary_error =
  NoMessages
| SummarizationError string
| SummaryCancelled
| EmptySummary
| ChainExhausted "summary_error option"

fun collect_deltas :: "string \<Rightarrow> stream_chunk list \<Rightarrow> (summary_error, string) result" where
  "collect_deltas response [] = Ok response"
| "collect_deltas response (Delta d # cs) = collect_deltas (response @ d) cs"
| "collect_deltas response (ChunkError e # cs) = Err (SummarizationError e)"
| "collect_deltas response (OtherChunk # cs) = collect_deltas response cs"

fun role_name :: "role \<Rightarrow> string" where
  "role_name User = ''User''"
| "role_name Assistant = ''Assistant''"
| "role_name System = ''System''"

fun join_blank :: "string list \<Rightarrow> string" where
  "join_blank [] = []"
| "join_blank [s] = s"
| "join_blank (s # t # ss) = s @ [CHR 0x0A, CHR 0x0A] @ join_blank (t # ss)"

definition conversation_text :: "message list \<Rightarrow> string" where
  "conversation_text ms = join_blank (map (\<lambda>m. ''['' @ role_name (role m) @ '']: '' @ content m) ms)"

text \<open>\<open>infer\<close> is the model, \<open>cancelled\<close> whether the run's token is cancelled once the stream ended.\<close>

definition summarize ::
  "(message list \<Rightarrow> stream_chunk list) \<Rightarrow> bool \<Rightarrow> string option \<Rightarrow> message list \<Rightarrow>
   (summary_error, message) result" where
  "summarize infer cancelled previous ms =
     (if ms = [] then Err NoMessages
      else (case collect_deltas [] (infer
                   [text_message System HANDOFF_SYSTEM_PROMPT,
                    text_message User (build_handoff_prompt (conversation_text ms) previous)]) of
              Inl e \<Rightarrow> Err e
            | Inr response \<Rightarrow>
                (if cancelled then Err SummaryCancelled
                 else (let summary = trim response in
                       if summary = [] then Err EmptySummary
                       else Ok \<lparr>role = User, content = summary, images = []\<rparr>))))"

definition strip_media :: "message list \<Rightarrow> message list" where
  "strip_media ms =
     map (\<lambda>m. if images m = [] then m
              else m\<lparr>images := [],
                     content := content m @ (if content m \<noteq> [] then [CHR 0x0A, CHR 0x0A] else []) @
                       ''['' @ nat_to_string (length (images m)) @ '' image(s) omitted '' @
                       [CHR 0xE2, CHR 0x80, CHR 0x94] @ '' media stripped during compaction retry]''\<rparr>)
       ms"

definition DEGRADE_RATIOS :: "real list" where
  "DEGRADE_RATIOS = [0.7, 0.5, 0.35]"

definition degraded_keep :: "rounding \<Rightarrow> nat \<Rightarrow> real \<Rightarrow> nat" where
  "degraded_keep rnd n ratio =
     max 1 (min (min u64_max (nat \<lceil>fmul rnd (of_nat_f rnd n) (rnd ratio)\<rceil>)) n)"

text \<open>
  The chain, one attempt per ratio. \<open>clamp(1, n)\<close> panics for \<open>n = 0\<close>, and a panic is \<open>None\<close>;
  \<open>cancelled k\<close> is the state of the token after attempt \<open>k\<close>.
\<close>

fun degrade_loop ::
  "(message list \<Rightarrow> stream_chunk list) \<Rightarrow> (nat \<Rightarrow> bool) \<Rightarrow> string option \<Rightarrow> rounding \<Rightarrow> message list \<Rightarrow>
   nat \<Rightarrow> summary_error option \<Rightarrow> real list \<Rightarrow> (summary_error, message) result option" where
  "degrade_loop infer cancelled previous rnd ms k last_err [] = Some (Err (ChainExhausted last_err))"
| "degrade_loop infer cancelled previous rnd ms k last_err (ratio # ratios) =
     (if ms = [] then None
      else (let keep = degraded_keep rnd (length ms) ratio;
                batch = drop (length ms - keep) ms
            in case summarize infer (cancelled k) previous batch of
                 Inr m \<Rightarrow> Some (Ok m)
               | Inl e \<Rightarrow>
                   (if cancelled k then Some (Err e)
                    else degrade_loop infer cancelled previous rnd ms (Suc k) (Some e) ratios)))"

definition summarize_with_degradation ::
  "(message list \<Rightarrow> stream_chunk list) \<Rightarrow> (nat \<Rightarrow> bool) \<Rightarrow> string option \<Rightarrow> rounding \<Rightarrow> message list \<Rightarrow>
   (summary_error, message) result option" where
  "summarize_with_degradation infer cancelled previous rnd ms =
     (case summarize infer (cancelled 0) previous ms of
        Inr m \<Rightarrow> Some (Ok m)
      | Inl e \<Rightarrow>
          (if cancelled 0 then Some (Err e)
           else degrade_loop infer cancelled previous rnd (strip_media ms) 1 None DEGRADE_RATIOS))"

section \<open>Guards\<close>

definition anti_thrash_skip :: "nat \<Rightarrow> nat \<Rightarrow> nat \<Rightarrow> nat \<Rightarrow> bool" where
  "anti_thrash_skip last_compaction_turn current_turn tokens_before tokens_after =
     (if last_compaction_turn = 0 then False
      else (let turns_since = saturating_sub current_turn last_compaction_turn;
                saved_pct = (if tokens_before > 0
                             then saturating_sub tokens_before tokens_after * 100 div tokens_before
                             else 100)
            in turns_since \<le> 2 \<and> saved_pct < 10))"

definition fnv1a_hash :: "string \<Rightarrow> 64 word" where
  "fnv1a_hash text =
     foldl (\<lambda>hash b. (hash XOR of_nat (of_char b)) * 0x100000001b3) 0xcbf29ce484222325 text"

fun entry_text :: "history_entry \<Rightarrow> string" where
  "entry_text (HUser c _) = c"
| "entry_text (HAssistant c) = c"
| "entry_text (HSystem c) = c"
| "entry_text (HToolCall t) = card_output t"

definition combine_hash :: "64 word \<Rightarrow> 64 word \<Rightarrow> 64 word" where
  "combine_hash acc h = acc XOR (h + 0x9e3779b9 + push_bit 6 acc + drop_bit 2 acc)"

definition history_fingerprint :: "history_entry list \<Rightarrow> nat \<times> 64 word" where
  "history_fingerprint es =
     (length es,
      foldl (\<lambda>acc e. combine_hash acc (fnv1a_hash (entry_text e))) 0xcbf29ce484222325 es)"

lemma combine_hash_inj: "combine_hash acc h = combine_hash acc h' \<longleftrightarrow> h = h'"
proof
  assume "combine_hash acc h = combine_hash acc h'"
  then have "acc XOR combine_hash acc h = acc XOR combine_hash acc h'" by simp
  then show "h = h'" by (simp add: combine_hash_def xor.assoc [symmetric])
qed simp

section \<open>The preserved messages are a head and a tail within budget\<close>

definition mark :: "bool list \<Rightarrow> nat list \<Rightarrow> bool list" where
  "mark keep is = foldl (\<lambda>k i. k[i := True]) keep is"

lemma mark_simps [simp]:
  "mark keep [] = keep" "mark keep (i # is) = mark (keep[i := True]) is"
  "mark keep (is @ js) = mark (mark keep is) js"
  by (simp_all add: mark_def)

lemma length_mark [simp]: "length (mark keep is) = length keep"
  by (induction "is" arbitrary: keep) simp_all

lemma nth_mark: "i < length keep \<Longrightarrow> mark keep is ! i \<longleftrightarrow> keep ! i \<or> i \<in> set is"
proof (induction "is" arbitrary: keep)
  case (Cons j "is")
  show ?case using Cons.IH [of "keep[j := True]"] Cons.prems by (cases "i = j") auto
qed simp

lemma mark_fresh: "mark (replicate n False) is = map (\<lambda>i. i \<in> set is) [0..<n]"
  by (rule nth_equalityI) (simp_all add: nth_mark)

lemma count_marked:
  assumes "distinct is" "set is \<subseteq> {0..<n}"
  shows "length (filter (\<lambda>k. k) (map (\<lambda>i. i \<in> set is) [0..<n])) = length is"
proof -
  have "length (filter (\<lambda>k. k) (map (\<lambda>i. i \<in> set is) [0..<n])) =
      card (set (filter (\<lambda>i. i \<in> set is) [0..<n]))"
    by (simp add: filter_map comp_def distinct_card del: set_filter)
  also have "set (filter (\<lambda>i. i \<in> set is) [0..<n]) = set is" using assms(2) by auto
  finally show ?thesis using assms(1) by (simp add: distinct_card)
qed

lemma head_scan_spec:
  assumes "0 < hc \<Longrightarrow> used \<le> B" "PRESERVED_HEAD_TOKENS \<le> B" "is \<noteq> [] \<Longrightarrow> hc = 0 \<Longrightarrow> used + len (hd is) \<le> B"
  shows "\<exists>m \<le> length is. head_scan len keep used hc is =
       (mark keep (take m is), used + sum_list (map len (take m is)), hc + m) \<and>
     (0 < hc + m \<longrightarrow> used + sum_list (map len (take m is)) \<le> B) \<and> (is \<noteq> [] \<and> hc = 0 \<longrightarrow> 1 \<le> m)"
  using assms
proof (induction "is" arbitrary: keep used hc)
  case Nil
  then show ?case by simp
next
  case (Cons i "is")
  show ?case
  proof (cases "hc > 0 \<and> used + len i > PRESERVED_HEAD_TOKENS")
    case True
    then show ?thesis using Cons.prems(1) by (intro exI [of _ 0]) simp
  next
    case False
    then have "used + len i \<le> B" using Cons.prems(2,3) by (cases "hc = 0") auto
    then obtain m where "m \<le> length is"
      "head_scan len (keep[i := True]) (used + len i) (Suc hc) is =
         (mark (keep[i := True]) (take m is), used + len i + sum_list (map len (take m is)), Suc hc + m)"
      "used + len i + sum_list (map len (take m is)) \<le> B"
      using Cons.IH [of "Suc hc" "used + len i" "keep[i := True]"] Cons.prems(2) by auto
    then show ?thesis using False by (intro exI [of _ "Suc m"]) (simp add: add.assoc)
  qed
qed

lemma tail_scan_spec:
  "\<exists>m \<le> length is. tail_scan len keep used is =
       (mark keep (take m is), used + sum_list (map len (take m is))) \<and>
     used + sum_list (map len (take m is)) \<le> max used PRESERVED_USER_TOKEN_BUDGET"
proof (induction "is" arbitrary: keep used)
  case Nil
  then show ?case by simp
next
  case (Cons i "is")
  show ?case
  proof (cases "used + len i > PRESERVED_USER_TOKEN_BUDGET")
    case True
    then show ?thesis by (intro exI [of _ 0]) simp
  next
    case False
    from Cons.IH [of "keep[i := True]" "used + len i"] obtain m where "m \<le> length is"
      "tail_scan len (keep[i := True]) (used + len i) is =
         (mark (keep[i := True]) (take m is), used + len i + sum_list (map len (take m is)))"
      "used + len i + sum_list (map len (take m is)) \<le> max (used + len i) PRESERVED_USER_TOKEN_BUDGET"
      by blast
    then show ?thesis using False by (intro exI [of _ "Suc m"]) (simp add: add.assoc)
  qed
qed

lemma select_preserved_users_spec:
  fixes enc es
  defines "ups \<equiv> user_positions es" and "len \<equiv> \<lambda>i. content_len enc (es ! i)"
  shows "\<exists>h t. h + t \<le> length ups \<and> (ups \<noteq> [] \<longrightarrow> 1 \<le> h) \<and>
     select_preserved_users enc es =
       (map (\<lambda>i. i \<in> set (take h ups @ drop (length ups - t) ups)) [0..<length es],
        length ups - (h + t)) \<and>
     sum_list (map len (take h ups @ drop (length ups - t) ups)) \<le>
       max PRESERVED_USER_TOKEN_BUDGET (if ups = [] then 0 else len (hd ups))"
proof -
  define B where "B = max PRESERVED_HEAD_TOKENS (if ups = [] then 0 else len (hd ups))"
  obtain h where h: "h \<le> length ups" "ups \<noteq> [] \<Longrightarrow> 1 \<le> h"
    "head_scan len (replicate (length es) False) 0 0 ups =
       (mark (replicate (length es) False) (take h ups), sum_list (map len (take h ups)), h)"
    "sum_list (map len (take h ups)) \<le> B"
    using head_scan_spec [of 0 0 B ups len "replicate (length es) False"] by (auto simp: B_def)
  let ?used = "sum_list (map len (take h ups))"
  from tail_scan_spec [of "rev (drop h ups)" len "mark (replicate (length es) False) (take h ups)" ?used]
  obtain t where t: "t \<le> length ups - h"
    "tail_scan len (mark (replicate (length es) False) (take h ups)) ?used (rev (drop h ups)) =
       (mark (mark (replicate (length es) False) (take h ups)) (take t (rev (drop h ups))),
        ?used + sum_list (map len (take t (rev (drop h ups)))))"
    "?used + sum_list (map len (take t (rev (drop h ups)))) \<le> max ?used PRESERVED_USER_TOKEN_BUDGET"
    by auto
  have tl: "take t (rev (drop h ups)) = rev (drop (length ups - t) ups)"
    using t(1) h(1) by (simp add: take_rev)
  let ?kept = "take h ups @ drop (length ups - t) ups"
  have "distinct ups" "set ups \<subseteq> {0..<length es}" by (auto simp: ups_def user_positions_def)
  moreover have "set (take h ups) \<inter> set (drop (length ups - t) ups) = {}"
    using \<open>distinct ups\<close> t(1) h(1) by (intro set_take_disj_set_drop_if_distinct) auto
  ultimately have d: "distinct ?kept" "set ?kept \<subseteq> {0..<length es}"
    by (auto dest: in_set_takeD in_set_dropD)
  have keep: "mark (mark (replicate (length es) False) (take h ups)) (take t (rev (drop h ups))) =
      map (\<lambda>i. i \<in> set ?kept) [0..<length es]"
    unfolding tl by (rule nth_equalityI) (simp_all add: nth_mark)
  have "select_preserved_users enc es =
      (map (\<lambda>i. i \<in> set ?kept) [0..<length es], length ups - length ?kept)"
    using h(3) t(2) count_marked [OF d] unfolding ups_def len_def
    by (simp add: select_preserved_users_def Let_def keep [unfolded ups_def])
  moreover have "sum_list (map len ?kept) \<le>
      max PRESERVED_USER_TOKEN_BUDGET (if ups = [] then 0 else len (hd ups))"
    using t(3) h(4) unfolding tl
    by (simp add: rev_map [symmetric] B_def PRESERVED_HEAD_TOKENS_def PRESERVED_USER_TOKEN_BUDGET_def)
  ultimately show ?thesis using h(1,2) t(1)
    by (intro exI [of _ h] exI [of _ t]) auto
qed

lemma select_preserved_users_mask:
  assumes "select_preserved_users enc es = (keep, elided)"
  shows "length keep = length es" "i < length es \<Longrightarrow> keep ! i \<Longrightarrow> is_user (es ! i)"
proof -
  from select_preserved_users_spec [of es enc] assms obtain h t where
    k: "keep = map (\<lambda>i. i \<in> set (take h (user_positions es) @
          drop (length (user_positions es) - t) (user_positions es))) [0..<length es]" by auto
  then show "length keep = length es" by simp
  have "j \<in> set (user_positions es) \<Longrightarrow> is_user (es ! j)" for j by (auto simp: user_positions_def)
  then show "i < length es \<Longrightarrow> keep ! i \<Longrightarrow> is_user (es ! i)"
    using k by (auto dest: in_set_takeD in_set_dropD)
qed

text \<open>What survives a compaction verbatim. The preserved entries are a head and a tail of the user
  messages in order (never another kind of entry), the first user message is always among them, the
  rest are counted as folded, and together they stay within the token budget unless the first
  message alone exceeds it.\<close>

theorem select_preserved_users_budget:
  fixes enc es
  defines "ups \<equiv> user_positions es" and "len \<equiv> \<lambda>i. content_len enc (es ! i)"
  shows "\<exists>h t. h + t \<le> length ups \<and> (ups \<noteq> [] \<longrightarrow> 1 \<le> h) \<and>
     select_preserved_users enc es =
       (map (\<lambda>i. i \<in> set (take h ups @ drop (length ups - t) ups)) [0..<length es],
        length ups - (h + t)) \<and>
     sum_list (map len (take h ups @ drop (length ups - t) ups)) \<le>
       max PRESERVED_USER_TOKEN_BUDGET (if ups = [] then 0 else len (hd ups))"
  unfolding ups_def len_def by (rule select_preserved_users_spec)

theorem select_preserved_users_budget_witness:
  "\<exists>h t. h + t \<le> 1 \<and>
     select_preserved_users (\<lambda>s. map (\<lambda>_. 0) s) [HSystem ''s'', HUser ''hi'' []] =
       (map (\<lambda>i. i \<in> set (take h [1] @ drop (1 - t) [1])) [0..<2], 1 - (h + t))"
  using select_preserved_users_budget [of "[HSystem ''s'', HUser ''hi'' []]" "\<lambda>s. map (\<lambda>_. 0) s"]
  by (auto simp: user_positions_def numeral_2_eq_2)

section \<open>The degradation chain always answers\<close>

lemma strip_media_images: "list_all (\<lambda>m. images m = []) (strip_media ms)"
  by (induction ms) (simp_all add: strip_media_def)

lemma length_strip_media [simp]: "length (strip_media ms) = length ms"
  by (simp add: strip_media_def)

lemma strip_media_Nil [simp]: "strip_media ms = [] \<longleftrightarrow> ms = []"
  by (simp add: strip_media_def)

lemma summarize_Ok_note:
  "summarize infer c prev ms = Ok m \<Longrightarrow> role m = User \<and> content m \<noteq> [] \<and> images m = [] \<and> \<not> c"
  by (auto simp: summarize_def Let_def split: if_splits sum.splits)

lemma degraded_keep_bounds: "n \<noteq> 0 \<Longrightarrow> 1 \<le> degraded_keep rnd n ratio \<and> degraded_keep rnd n ratio \<le> n"
  by (auto simp: degraded_keep_def)

lemma degrade_loop_answers:
  assumes "ms \<noteq> []"
  shows "\<exists>r. degrade_loop infer c prev rnd ms k e ratios = Some r \<and>
     (\<forall>m. r = Ok m \<longrightarrow> (\<exists>j keep. 1 \<le> keep \<and> keep \<le> length ms \<and>
        summarize infer (c j) prev (drop (length ms - keep) ms) = Ok m))"
  using assms
proof (induction ratios arbitrary: k e)
  case (Cons ratio ratios)
  let ?keep = "degraded_keep rnd (length ms) ratio"
  have b: "1 \<le> ?keep" "?keep \<le> length ms" using degraded_keep_bounds Cons.prems by auto
  show ?case
  proof (cases "summarize infer (c k) prev (drop (length ms - ?keep) ms)")
    case (Inl e')
    then show ?thesis using Cons.IH [OF Cons.prems, of "Suc k" "Some e'"] Cons.prems by (simp add: Let_def)
  next
    case (Inr m)
    then show ?thesis using b Cons.prems by (auto simp: Let_def)
  qed
qed simp

text \<open>The degradation chain always answers for a non-empty batch, and never with half a note. It
  returns after at most four attempts; a note it returns is a non-empty text summarised from the
  whole batch or from the most recent messages of it (media stripped), by an attempt during which
  the run was not cancelled. On an empty batch that is not cancelled the chain panics instead of
  returning an error.\<close>

theorem degradation_chain_answers:
  "(ms \<noteq> [] \<longrightarrow>
      (\<exists>r. summarize_with_degradation infer c prev rnd ms = Some r \<and>
         (\<forall>m. r = Ok m \<longrightarrow> content m \<noteq> [] \<and>
            (\<exists>j. \<not> c j \<and>
               (summarize infer (c j) prev ms = Ok m \<or>
                (\<exists>keep. 1 \<le> keep \<and> keep \<le> length ms \<and>
                   summarize infer (c j) prev (drop (length ms - keep) (strip_media ms)) = Ok m)))))) \<and>
   (\<not> c 0 \<longrightarrow> summarize_with_degradation infer c prev rnd [] = None)"
proof (intro conjI impI)
  assume ne: "ms \<noteq> []"
  show "\<exists>r. summarize_with_degradation infer c prev rnd ms = Some r \<and>
         (\<forall>m. r = Ok m \<longrightarrow> content m \<noteq> [] \<and>
            (\<exists>j. \<not> c j \<and>
               (summarize infer (c j) prev ms = Ok m \<or>
                (\<exists>keep. 1 \<le> keep \<and> keep \<le> length ms \<and>
                   summarize infer (c j) prev (drop (length ms - keep) (strip_media ms)) = Ok m))))"
  proof (cases "summarize infer (c 0) prev ms")
    case (Inr m)
    then show ?thesis using summarize_Ok_note [OF Inr]
      by (auto simp: summarize_with_degradation_def)
  next
    case (Inl e)
    show ?thesis
    proof (cases "c 0")
      case True
      then show ?thesis using Inl by (simp add: summarize_with_degradation_def)
    next
      case False
      have "strip_media ms \<noteq> []" using ne by simp
      from degrade_loop_answers [OF this, of infer c prev rnd 1 None DEGRADE_RATIOS] obtain r where
        r: "summarize_with_degradation infer c prev rnd ms = Some r"
        and m: "\<And>m. r = Ok m \<Longrightarrow> \<exists>j keep. 1 \<le> keep \<and> keep \<le> length ms \<and>
          summarize infer (c j) prev (drop (length ms - keep) (strip_media ms)) = Ok m"
        using Inl False by (auto simp: summarize_with_degradation_def)
      show ?thesis using r m summarize_Ok_note by (intro exI [of _ r]) blast
    qed
  qed
qed (simp add: summarize_with_degradation_def summarize_def DEGRADE_RATIOS_def)

theorem degradation_chain_answers_witness:
  "\<exists>r. summarize_with_degradation (\<lambda>_. [Delta ''note'']) (\<lambda>_. False) None (\<lambda>x. x)
     [text_message User ''hi''] = Some r"
  using degradation_chain_answers [of "[text_message User ''hi'']" "\<lambda>_. [Delta ''note'']"
      "\<lambda>_. False" None "\<lambda>x. x"]
  by (simp only: list.simps) blast

end
