(* ===== verification/Compaction.thy ===== *)
theory Compaction
  imports Handoff
begin

text \<open>
  How the agent loop compacts its history (\<open>plates/tian_heaven/loop.rs\<close>, before each inference): choose
  the victims, summarise those that are not preserved, and splice the handoff note and the preserved
  user messages into the history; if no summary can be had, fall back to dropping messages.
\<close>

section \<open>Choosing victims\<close>

definition msg_indices :: "history_entry list \<Rightarrow> nat list" where
  "msg_indices history = filter (\<lambda>i. is_message (history ! i)) [0..<length history]"

fun role_tag :: "role \<Rightarrow> string" where
  "role_tag User = ''U''"
| "role_tag Assistant = ''A''"
| "role_tag System = ''S''"

definition duplicate_note :: string where
  "duplicate_note =
     ''[Duplicate '' @ [CHR 0xE2, CHR 0x80, CHR 0x94] @
     '' same content as an earlier message in this batch]''"

fun dedup_victims :: "64 word set \<Rightarrow> (message \<times> bool) list \<Rightarrow> message list" where
  "dedup_victims seen [] = []"
| "dedup_victims seen ((m, kept) # ms) =
     (if kept then dedup_victims seen ms
      else (let key = fnv1a_hash (role_tag (role m) @ '':'' @ content m) in
            if key \<in> seen then text_message (role m) duplicate_note # dedup_victims seen ms
            else m # dedup_victims (insert key seen) ms))"

record compaction_plan =
  hist_start :: nat
  hist_end :: nat
  victim_entries :: "history_entry list"
  keep_mask :: "bool list"
  elided_users :: nat
  victims :: "message list"

definition plan_compaction ::
  "(string \<Rightarrow> nat list) \<Rightarrow> rounding \<Rightarrow> context_window \<Rightarrow> history_entry list \<Rightarrow> compaction_plan option" where
  "plan_compaction enc rnd w history =
     (let compact_msgs = to_llm_messages history;
          idx = msg_indices history;
          (start, c) = victim_range enc rnd w compact_msgs;
          cnt = min c (saturating_sub (length idx) start)
      in if cnt > 0 then
           (let entries = map (\<lambda>i. history ! (idx ! (start + i))) [0..<cnt];
                (keepm, elided) = select_preserved_users enc entries;
                raw = take cnt (drop start compact_msgs)
            in Some \<lparr>hist_start = idx ! start, hist_end = idx ! (start + cnt - 1) + 1,
                     victim_entries = entries, keep_mask = keepm, elided_users = elided,
                     victims = dedup_victims {} (zip raw keepm)\<rparr>)
         else None)"

section \<open>Rewriting the history\<close>

definition compaction_note :: "message \<Rightarrow> history_entry" where
  "compaction_note m =
     HSystem (''[CONTEXT COMPACTION -- REFERENCE ONLY]'' @ [CHR 0x0A] @ content m)"

definition replacement :: "compaction_plan \<Rightarrow> message \<Rightarrow> history_entry list" where
  "replacement p m =
     (let head_len = length (takeWhile (\<lambda>k. k) (keep_mask p)) in
      [compaction_note m] @ take head_len (victim_entries p) @
      (if elided_users p > 0 then [HSystem (elision_marker (elided_users p))] else []) @
      map fst (filter snd (zip (drop head_len (victim_entries p)) (drop head_len (keep_mask p)))))"

definition apply_summary ::
  "compaction_plan \<Rightarrow> message \<Rightarrow> history_entry list \<Rightarrow> history_entry list" where
  "apply_summary p m history =
     take (hist_start p) history @ replacement p m @ drop (hist_end p) history"

text \<open>The fallback walks the history and takes one of the fitted messages per message entry.\<close>

fun keep_messages :: "message list \<Rightarrow> history_entry list \<Rightarrow> history_entry list" where
  "keep_messages ms [] = []"
| "keep_messages ms (e # es) =
     (if is_message e then
        (case ms of
           m # ms' \<Rightarrow> e # keep_messages ms' es
         | [] \<Rightarrow> keep_messages [] es)
      else e # keep_messages ms es)"

definition fit_fallback ::
  "(string \<Rightarrow> nat list) \<Rightarrow> rounding \<Rightarrow> context_window \<Rightarrow> history_entry list \<Rightarrow> history_entry list" where
  "fit_fallback enc rnd w history =
     keep_messages (fst (fit enc rnd w (to_llm_messages history))) history"

datatype compaction_outcome =
  NothingToCompact
| CompactionAborted
| CompactionPanicked
| Summarized "history_entry list"
| Fitted "history_entry list"

definition compact_history ::
  "(string \<Rightarrow> nat list) \<Rightarrow> rounding \<Rightarrow> context_window \<Rightarrow> (message list \<Rightarrow> stream_chunk list) \<Rightarrow>
   (nat \<Rightarrow> bool) \<Rightarrow> bool \<Rightarrow> string option \<Rightarrow> history_entry list \<Rightarrow> history_entry list \<Rightarrow>
   compaction_outcome" where
  "compact_history enc rnd w infer cancelled cancelled_after previous history history_after =
     (case plan_compaction enc rnd w history of
        None \<Rightarrow> NothingToCompact
      | Some p \<Rightarrow>
          (if victims p = [] then NothingToCompact
           else (case summarize_with_degradation infer cancelled previous rnd (victims p) of
                   None \<Rightarrow> CompactionPanicked
                 | Some (Inr m) \<Rightarrow>
                     (if history_fingerprint (take (hist_end p) history_after) \<noteq>
                         history_fingerprint (take (hist_end p) history)
                      then CompactionAborted
                      else Summarized (apply_summary p m history_after))
                 | Some (Inl e) \<Rightarrow>
                     (if cancelled_after then CompactionAborted
                      else Fitted (fit_fallback enc rnd w history_after)))))"

section \<open>Preserved messages survive in order\<close>

lemma takeWhile_kept:
  "length es = length ks \<Longrightarrow>
   take (length (takeWhile (\<lambda>k. k) ks)) es @
     map fst (filter snd (zip (drop (length (takeWhile (\<lambda>k. k) ks)) es)
                              (drop (length (takeWhile (\<lambda>k. k) ks)) ks))) =
   map fst (filter snd (zip es ks))"
  by (induction es ks rule: list_induct2) auto

lemma plan_entries:
  assumes "plan_compaction enc rnd w history = Some p"
  shows "select_preserved_users enc (victim_entries p) = (keep_mask p, elided_users p)"
  using assms by (auto simp: plan_compaction_def Let_def split: prod.splits if_splits)

lemma kept_satisfy:
  assumes "length es = length ks" "\<And>i. i < length es \<Longrightarrow> ks ! i \<Longrightarrow> P (es ! i)"
  shows "filter P (map fst (filter snd (zip es ks))) = map fst (filter snd (zip es ks))"
proof -
  have "list_all P (map fst (filter snd (zip es ks)))"
    using assms by (auto simp: list_all_iff in_set_zip)
  then show ?thesis by (simp add: list_all_iff)
qed


section \<open>The fallback drops the newest messages\<close>

lemma keep_messages_only:
  "list_all is_message es \<Longrightarrow> keep_messages ms es = take (length ms) es"
  by (induction es arbitrary: ms) (auto split: list.splits)

lemma keep_messages_all:
  "length (filter is_message es) \<le> length ms \<Longrightarrow> keep_messages ms es = es"
  by (induction es arbitrary: ms) (auto split: list.splits)

lemma to_llm_messages_length: "length (to_llm_messages es) = length es"
proof -
  have "to_llm_message e \<noteq> None" for e by (cases e) simp_all
  then show ?thesis
    by (induction es) (auto simp: to_llm_messages_def List.map_filter_simps split: option.splits)
qed

text \<open>The fallback is not the sliding window it is meant to be. \<open>fit\<close> drops the oldest messages,
  but the history is rebuilt by counting: without tool calls the fallback keeps the oldest entries
  and drops as many of the newest (the user's current request among them), and with at least as
  many tool calls as messages to drop it drops nothing at all.\<close>

theorem fit_fallback_drops_newest:
  assumes "fit enc rnd w (to_llm_messages history) = (ms, d, n)"
  shows "(list_all is_message history \<longrightarrow>
            fit_fallback enc rnd w history = take (length history - d) history) \<and>
         (d \<le> length (filter (\<lambda>e. \<not> is_message e) history) \<longrightarrow>
            fit_fallback enc rnd w history = history)"
proof -
  let ?s = "remove_start (to_llm_messages history)"
  from fit_result [of enc rnd w "to_llm_messages history"] assms have
    "ms = dropping ?s d (to_llm_messages history)" "?s + d < length (to_llm_messages history) \<or> d = 0"
    by (metis prod.inject)+
  then have len: "length ms = length history - d"
    by (auto simp: length_dropping to_llm_messages_length)
  have "length (filter is_message history) + length (filter (\<lambda>e. \<not> is_message e) history) = length history"
    by (rule sum_length_filter_compl)
  then have "length (filter is_message history) \<le> length ms"
    if "d \<le> length (filter (\<lambda>e. \<not> is_message e) history)" using that len by linarith
  then show ?thesis using assms len
    by (simp add: fit_fallback_def keep_messages_only keep_messages_all)
qed

definition char_tokens :: "string \<Rightarrow> nat list" where
  "char_tokens s = map (\<lambda>_. 0) s"

definition narrow_window :: context_window where
  "narrow_window = \<lparr>max_tokens = 2, compaction_threshold = 1\<rparr>"

theorem fit_fallback_drops_newest_witness:
  "fit_fallback char_tokens (\<lambda>x. x) narrow_window [HUser ''old'' [], HUser ''now'' []] = [HUser ''old'' []]"
proof -
  have "\<exists>ms n. fit char_tokens (\<lambda>x. x) narrow_window (to_llm_messages [HUser ''old'' [], HUser ''now'' []]) =
      (ms, 1, n)"
    by (simp add: to_llm_messages_def List.map_filter_simps fit_def fit_loop.simps char_tokens_def
        narrow_window_def remove_start_def starts_with_system_def token_limit_def fmul_def of_nat_f_def
        count_tokens_def remove_nth_def u64_max_def)
  then obtain ms n where
    "fit char_tokens (\<lambda>x. x) narrow_window (to_llm_messages [HUser ''old'' [], HUser ''now'' []]) =
      (ms, 1, n)" by blast
  from fit_fallback_drops_newest [OF this] show ?thesis by simp
qed

section \<open>Tool calls shift the victims\<close>

definition sample_card :: "string \<Rightarrow> tool_card" where
  "sample_card out =
     \<lparr>card_id = [], card_tool = ''t'', card_input = JNull, card_status = StSuccess, card_output = out,
      card_error = None, card_geju = None, card_mode = None\<rparr>"

definition lossy_history :: "history_entry list" where
  "lossy_history =
     [HUser ''aaaa'' [], HToolCall (sample_card ''x''), HToolCall (sample_card ''y''), HAssistant ''b'',
      HUser ''c'' []]"

lemma lossy_messages:
  "to_llm_messages lossy_history =
     [text_message User ''aaaa'', text_message User ''Tool t result: x'',
      text_message User ''Tool t result: y'', text_message Assistant ''b'', text_message User ''c'']"
  by (simp add: to_llm_messages_def List.map_filter_simps lossy_history_def sample_card_def text_message_def)

lemma lossy_indices: "msg_indices lossy_history = [0, 3, 4]"
  by (simp add: msg_indices_def lossy_history_def upt_conv_Cons)

lemma lossy_range:
  "victim_range char_tokens (\<lambda>x. x) \<lparr>max_tokens = 20, compaction_threshold = 1\<rparr>
     (to_llm_messages lossy_history) = (0, 2)"
  by (simp add: lossy_messages victim_range_def text_message_def remove_start_def starts_with_system_def
      token_limit_def fmul_def of_nat_f_def u64_max_def char_tokens_def last_user_idx_def count_tokens_def
      victim_loop.simps upt_conv_Cons)

lemma lossy_selection:
  "select_preserved_users char_tokens [HUser ''aaaa'' [], HAssistant ''b''] = ([True, False], 0)"
  by (simp add: select_preserved_users_def user_positions_def upt_conv_Cons char_tokens_def)

definition lossy_compaction :: compaction_plan where
  "lossy_compaction =
     \<lparr>hist_start = 0, hist_end = 4, victim_entries = [HUser ''aaaa'' [], HAssistant ''b''],
      keep_mask = [True, False], elided_users = 0,
      victims = [text_message User ''Tool t result: x'']\<rparr>"

lemma lossy_plan:
  "plan_compaction char_tokens (\<lambda>x. x) \<lparr>max_tokens = 20, compaction_threshold = 1\<rparr> lossy_history =
     Some lossy_compaction"
proof -
  have "lossy_history ! 0 = HUser ''aaaa'' []" "lossy_history ! 3 = HAssistant ''b''"
    by (simp_all add: lossy_history_def)
  then show ?thesis
    by (simp add: plan_compaction_def lossy_range [unfolded lossy_messages] lossy_indices lossy_selection
        lossy_messages lossy_compaction_def Let_def)
qed


text \<open>Tool calls make the summary path lose entries. The victim range counts every entry, the
  entries it is applied to count messages only, and the summariser is fed from the former. In this
  history the assistant's reply is removed although it is neither preserved nor summarised.\<close>

theorem compaction_loses_entries:
  "\<exists>p. plan_compaction char_tokens (\<lambda>x. x) \<lparr>max_tokens = 20, compaction_threshold = 1\<rparr> lossy_history = Some p \<and>
     HAssistant ''b'' \<in> set lossy_history \<and> victims p \<noteq> [] \<and>
     text_message Assistant ''b'' \<notin> set (victims p) \<and>
     HAssistant ''b'' \<notin> set (apply_summary p m lossy_history)"
  by (rule exI, rule conjI [OF lossy_plan])
     (simp add: lossy_compaction_def lossy_history_def text_message_def apply_summary_def
       replacement_def compaction_note_def)

end
