(* ===== verification/Provider.thy ===== *)
theory Provider
  imports Prelude
begin

text \<open>
  The provider layer (\<open>palaces/zhong_core\<close>): the circuit breaker of each provider, the router that
  fails over between providers, the retry backoff, and which provider errors are retried
  (\<open>error.rs\<close>). Instants are milliseconds on a monotonic clock; \<open>duration_since\<close> saturates at zero.
\<close>

section \<open>Provider errors\<close>

datatype provider_error =
  RateLimited string "nat option"
| AuthFailed nat
| ServerError nat string "nat option"
| ClientError nat string
| Network string
| StreamStalled
| Stream string
| ProviderFailed string
| Cancelled

fun is_retryable :: "provider_error \<Rightarrow> bool" where
  "is_retryable (RateLimited _ _) = True"
| "is_retryable (ServerError _ _ _) = True"
| "is_retryable (Network _) = True"
| "is_retryable StreamStalled = True"
| "is_retryable (AuthFailed _) = True"
| "is_retryable _ = False"

fun retry_after :: "provider_error \<Rightarrow> nat option" where
  "retry_after (RateLimited _ r) = r"
| "retry_after (ServerError _ _ r) = r"
| "retry_after _ = None"

section \<open>Circuit breaker\<close>

datatype breaker_state = Closed | Open | HalfOpen

record circuit_breaker =
  state :: breaker_state
  failure_count :: "32 word"
  last_failure :: "nat option"
  failure_threshold :: "32 word"
  cooldown :: nat

definition breaker_new :: "32 word \<Rightarrow> nat \<Rightarrow> circuit_breaker" where
  "breaker_new threshold cooldown_secs =
     \<lparr>state = Closed, failure_count = 0, last_failure = None, failure_threshold = threshold,
      cooldown = cooldown_secs * 1000\<rparr>"

text \<open>\<open>is_open\<close>: whether the request is rejected, and the breaker afterwards.\<close>

definition is_open :: "circuit_breaker \<Rightarrow> nat \<Rightarrow> bool \<times> circuit_breaker" where
  "is_open b now =
     (case state b of
        Closed \<Rightarrow> (False, b)
      | Open \<Rightarrow>
          (case last_failure b of
             Some l \<Rightarrow>
               (if saturating_sub now l \<ge> cooldown b then (False, b\<lparr>state := HalfOpen\<rparr>)
                else (True, b))
           | None \<Rightarrow> (True, b))
      | HalfOpen \<Rightarrow> (False, b))"

definition record_success :: "circuit_breaker \<Rightarrow> circuit_breaker" where
  "record_success b = b\<lparr>failure_count := 0, last_failure := None, state := Closed\<rparr>"

definition record_failure :: "circuit_breaker \<Rightarrow> nat \<Rightarrow> circuit_breaker" where
  "record_failure b now =
     (let b1 = b\<lparr>failure_count := failure_count b + 1, last_failure := Some now\<rparr> in
      if failure_threshold b1 \<le> failure_count b1 \<or> state b1 = HalfOpen
      then b1\<lparr>state := Open\<rparr> else b1)"

subsection \<open>As a state machine\<close>

datatype breaker_event = Check nat | Succeeded | Failed nat

inductive breaker_step :: "circuit_breaker \<Rightarrow> breaker_event \<Rightarrow> circuit_breaker \<Rightarrow> bool" where
  check: "breaker_step b (Check now) (snd (is_open b now))"
| succeed: "breaker_step b Succeeded (record_success b)"
| fail: "breaker_step b (Failed now) (record_failure b now)"

inductive_simps breaker_step_simps:
  "breaker_step b (Check now) b'" "breaker_step b Succeeded b'" "breaker_step b (Failed now) b'"

inductive breaker_run :: "circuit_breaker \<Rightarrow> breaker_event list \<Rightarrow> circuit_breaker \<Rightarrow> bool" where
  start: "breaker_run b [] b"
| step: "breaker_run b evs b' \<Longrightarrow> breaker_step b' ev b'' \<Longrightarrow> breaker_run b (evs @ [ev]) b''"

text \<open>Every sequence of events has exactly one run.\<close>

fun apply_event :: "circuit_breaker \<Rightarrow> breaker_event \<Rightarrow> circuit_breaker" where
  "apply_event b (Check now) = snd (is_open b now)"
| "apply_event b Succeeded = record_success b"
| "apply_event b (Failed now) = record_failure b now"

lemma breaker_step_iff: "breaker_step b ev b' \<longleftrightarrow> b' = apply_event b ev"
  by (cases ev) (auto simp: breaker_step_simps)

lemma breaker_run_foldl: "breaker_run b evs (foldl apply_event b evs)"
  by (induction evs rule: rev_induct) (auto intro: breaker_run.intros simp: breaker_step_iff)

text \<open>The specification: failures since the last success, and the instant of the last failure.\<close>

fun streak_from :: "nat \<Rightarrow> breaker_event list \<Rightarrow> nat" where
  "streak_from n [] = n"
| "streak_from n (Check _ # evs) = streak_from n evs"
| "streak_from n (Succeeded # evs) = streak_from 0 evs"
| "streak_from n (Failed _ # evs) = streak_from (Suc n) evs"

lemma streak_snoc:
  "streak_from n (evs @ [ev]) =
     (case ev of Check _ \<Rightarrow> streak_from n evs | Succeeded \<Rightarrow> 0 | Failed _ \<Rightarrow> Suc (streak_from n evs))"
  by (induction n evs rule: streak_from.induct) (auto split: breaker_event.splits)

text \<open>The invariant of a run: the counter is the streak, a breaker that is not closed has a failure on
  record, and it is closed exactly while the streak is below the threshold.\<close>

definition breaker_inv :: "32 word \<Rightarrow> nat \<Rightarrow> nat \<Rightarrow> circuit_breaker \<Rightarrow> bool" where
  "breaker_inv threshold cd n b =
     (failure_threshold b = threshold \<and> cooldown b = cd \<and>
      failure_count b = of_nat n \<and> (n = 0 \<longleftrightarrow> last_failure b = None) \<and>
      (state b = Closed \<longleftrightarrow> n < unat threshold))"

lemma is_open_inv: "breaker_inv thr cd n b \<Longrightarrow> breaker_inv thr cd n (snd (is_open b now))"
  by (auto simp: is_open_def breaker_inv_def split: breaker_state.splits option.splits)

lemma record_success_inv: "breaker_inv thr cd n b \<Longrightarrow> 0 < thr \<Longrightarrow> breaker_inv thr cd 0 (record_success b)"
  by (simp add: record_success_def breaker_inv_def unat_gt_0)

lemma record_failure_inv:
  assumes "breaker_inv thr cd n b" "Suc n < 2 ^ 32"
  shows "breaker_inv thr cd (Suc n) (record_failure b now)"
proof -
  have u: "unat (1 + of_nat n :: 32 word) = Suc n"
    using assms(2) take_bit_nat_eq_self [of "Suc n" 32] unsigned_of_nat [of "Suc n", where 'b = 32, where 'a = nat]
    by simp
  have "thr \<le> 1 + of_nat n \<longleftrightarrow> unat thr \<le> Suc n" by (simp add: word_le_nat_alt u)
  then show ?thesis using assms(1)
    by (auto simp: record_failure_def breaker_inv_def Let_def add.commute)
qed

lemma run_inv:
  assumes "breaker_run b evs b'" "b = breaker_new thr secs" "0 < thr" "length evs < 2 ^ 32"
  shows "breaker_inv thr (secs * 1000) (streak_from 0 evs) b'"
  using assms
proof (induction rule: breaker_run.induct)
  case (start b)
  then show ?case by (simp add: breaker_inv_def breaker_new_def unat_gt_0)
next
  case (step b evs b' ev b'')
  have inv: "breaker_inv thr (secs * 1000) (streak_from 0 evs) b'" using step by simp
  have le: "streak_from m evs \<le> m + length evs" for m
    by (induction m evs rule: streak_from.induct) auto
  from step.hyps(2) show ?case
  proof cases
    case (check now)
    then show ?thesis using is_open_inv [OF inv] by (simp add: streak_snoc)
  next
    case succeed
    then show ?thesis using record_success_inv [OF inv] step.prems by (simp add: streak_snoc)
  next
    case (fail now)
    have "Suc (streak_from 0 evs) < 2 ^ 32" using le [of 0] step.prems by simp
    then show ?thesis using fail record_failure_inv [OF inv] by (simp add: streak_snoc)
  qed
qed

text \<open>C36: the breaker does what its three states are for. Along every run (shorter than the counter's
  range), it lets requests through freely exactly while fewer failures than the threshold have
  followed the last success; otherwise it rejects a request if the cooldown since the last failure
  is not over, and admits it (half open) as soon as it is, so it never stays open for ever.\<close>

theorem breaker_follows_streak:
  assumes "breaker_run (breaker_new thr secs) evs b" "0 < thr" "length evs < 2 ^ 32"
  shows "(state b = Closed \<longleftrightarrow> streak_from 0 evs < unat thr) \<and>
    (state b = Closed \<longrightarrow> \<not> fst (is_open b now)) \<and>
    (state b = Open \<longrightarrow> (\<exists>l. last_failure b = Some l \<and>
       (fst (is_open b now) \<longleftrightarrow> now - l < secs * 1000) \<and>
       (secs * 1000 \<le> now - l \<longrightarrow> state (snd (is_open b now)) = HalfOpen)))"
proof -
  note inv = run_inv [OF assms(1) refl assms(2,3)]
  have "\<exists>l. last_failure b = Some l" if "state b = Open"
    using inv that assms(2) by (auto simp: breaker_inv_def unat_gt_0)
  then show ?thesis using inv
    by (auto simp: breaker_inv_def is_open_def split: breaker_state.splits option.splits)
qed

theorem breaker_follows_streak_witness:
  "state (foldl apply_event (breaker_new 3 30) [Failed 0, Failed 1, Failed 2]) = Open \<and>
   fst (is_open (foldl apply_event (breaker_new 3 30) [Failed 0, Failed 1, Failed 2]) 5)"
proof -
  let ?b = "foldl apply_event (breaker_new 3 30) [Failed 0, Failed 1, Failed 2]"
  have st: "state ?b = Open" "last_failure ?b = Some 2"
    by (simp_all add: record_failure_def breaker_new_def Let_def)
  have "(state ?b = Open \<longrightarrow> (\<exists>l. last_failure ?b = Some l \<and>
       (fst (is_open ?b 5) \<longleftrightarrow> 5 - l < 30 * 1000) \<and>
       (30 * 1000 \<le> 5 - l \<longrightarrow> state (snd (is_open ?b 5)) = HalfOpen)))"
    using breaker_follows_streak [OF breaker_run_foldl [of "breaker_new 3 30"
        "[Failed 0, Failed 1, Failed 2]"], of 5] by simp
  then show ?thesis using st by simp
qed

section \<open>Router\<close>

record 'p provider_router =
  providers :: "(nat \<times> 'p) list"
  breakers :: "circuit_breaker list"
  active :: nat

definition router_new :: "(nat \<times> 'p) list \<Rightarrow> 'p provider_router" where
  "router_new ps =
     \<lparr>providers = sort_key fst ps, breakers = map (\<lambda>_. breaker_new 3 30) [0..<length ps], active = 0\<rparr>"

definition router_record_success :: "'p provider_router \<Rightarrow> 'p provider_router" where
  "router_record_success r =
     (if active r < length (breakers r)
      then r\<lparr>breakers := (breakers r)[active r := record_success (breakers r ! active r)]\<rparr> else r)"

text \<open>The scan for a healthy provider: the indices still to try, in order.\<close>

fun failover_scan ::
  "nat \<Rightarrow> circuit_breaker list \<Rightarrow> nat list \<Rightarrow> nat option \<times> circuit_breaker list" where
  "failover_scan now bs [] = (None, bs)"
| "failover_scan now bs (idx # rest) =
     (case is_open (bs ! idx) now of
        (rejected, b') \<Rightarrow>
          (if \<not> rejected then (Some idx, bs[idx := b'])
           else failover_scan now (bs[idx := b']) rest))"

text \<open>\<open>failed_at\<close> is the instant \<open>record_failure\<close> reads, \<open>now\<close> the one the scan uses (read earlier).\<close>

definition try_failover ::
  "nat \<Rightarrow> nat \<Rightarrow> 'p provider_router \<Rightarrow> bool \<times> 'p provider_router" where
  "try_failover now failed_at r =
     (let bs = (if active r < length (breakers r)
                then (breakers r)[active r := record_failure (breakers r ! active r) failed_at]
                else breakers r);
          n = length (providers r);
          (chosen, bs') = failover_scan now bs (map (\<lambda>offset. (active r + offset) mod n) [1..<n + 1])
      in case chosen of
           Some idx \<Rightarrow> (True, r\<lparr>breakers := bs', active := idx\<rparr>)
         | None \<Rightarrow> (False, r\<lparr>breakers := bs'\<rparr>))"

definition router_ok :: "'p provider_router \<Rightarrow> bool" where
  "router_ok r = (length (breakers r) = length (providers r) \<and>
     (active r < length (providers r) \<or> providers r = []))"

lemma router_ok_new: "router_ok (router_new ps)"
  by (cases ps) (auto simp: router_ok_def router_new_def)

lemma router_ok_success: "router_ok r \<Longrightarrow> router_ok (router_record_success r)"
  by (auto simp: router_ok_def router_record_success_def)

lemma is_open_rejected: "fst (is_open b now) \<Longrightarrow> snd (is_open b now) = b"
  by (auto simp: is_open_def split: breaker_state.splits option.splits if_splits)

lemma failover_scan_spec:
  assumes "\<forall>i \<in> set is. i < length bs"
  shows "case failover_scan now bs is of
     (None, bs') \<Rightarrow> bs' = bs \<and> list_all (\<lambda>i. fst (is_open (bs ! i) now)) is
   | (Some i, bs') \<Rightarrow> i \<in> set is \<and> bs' = bs[i := snd (is_open (bs ! i) now)] \<and>
       \<not> fst (is_open (bs ! i) now) \<and>
       list_all (\<lambda>j. fst (is_open (bs ! j) now)) (takeWhile (\<lambda>j. j \<noteq> i) is)"
  using assms
proof (induction "is")
  case (Cons i "is")
  show ?case
  proof (cases "is_open (bs ! i) now")
    case (Pair rejected b')
    show ?thesis
    proof (cases rejected)
      case True
      then have "b' = bs ! i" using is_open_rejected [of "bs ! i" now] Pair by simp
      then have "failover_scan now bs (i # is) = failover_scan now bs is" using Pair True by simp
      then show ?thesis using Cons Pair True by (auto split: prod.splits option.splits)
    qed (use Pair in simp)
  qed
qed simp

text \<open>Failover selects a healthy provider or none exists. After a failure of the active provider,
  \<open>try_failover\<close> succeeds exactly with the first provider in cyclic order whose breaker admits a
  request; it fails only if every breaker (the active provider's too) is open and cooling down, and
  then the active provider is unchanged; the router stays well formed.\<close>

theorem try_failover_sound:
  assumes "router_ok r" "try_failover now failed_at r = (ok, r')"
  shows "router_ok r' \<and> providers r' = providers r \<and>
    (let n = length (providers r);
         bs = (if active r < length (breakers r)
               then (breakers r)[active r := record_failure (breakers r ! active r) failed_at]
               else breakers r);
         order = map (\<lambda>offset. (active r + offset) mod n) [1..<n + 1]
     in (ok \<longrightarrow> active r' \<in> set order \<and> \<not> fst (is_open (bs ! active r') now) \<and>
           list_all (\<lambda>j. fst (is_open (bs ! j) now)) (takeWhile (\<lambda>j. j \<noteq> active r') order)) \<and>
        (\<not> ok \<longrightarrow> active r' = active r \<and> list_all (\<lambda>j. fst (is_open (bs ! j) now)) order))"
proof -
  let ?n = "length (providers r)"
  let ?bs = "if active r < length (breakers r)
    then (breakers r)[active r := record_failure (breakers r ! active r) failed_at] else breakers r"
  let ?order = "map (\<lambda>offset. (active r + offset) mod ?n) [1..<?n + 1]"
  have len: "length ?bs = ?n" using assms(1) by (simp add: router_ok_def)
  have order: "\<forall>i \<in> set ?order. i < length ?bs" unfolding len by (auto intro!: mod_less_divisor)
  obtain chosen bs' where scan: "failover_scan now ?bs ?order = (chosen, bs')" by fastforce
  note spec = failover_scan_spec [OF order, of now, unfolded scan]
  have r': "(ok, r') = (case chosen of Some idx \<Rightarrow> (True, r\<lparr>breakers := bs', active := idx\<rparr>)
      | None \<Rightarrow> (False, r\<lparr>breakers := bs'\<rparr>))"
    using assms(2) scan unfolding try_failover_def Let_def by simp
  show ?thesis
  proof (cases chosen)
    case None
    then have "ok = False" "r' = r\<lparr>breakers := bs'\<rparr>" using r' by simp_all
    then show ?thesis using spec None assms(1) len unfolding Let_def router_ok_def by simp
  next
    case (Some i)
    then have r: "ok" "r' = r\<lparr>breakers := bs', active := i\<rparr>" using r' by simp_all
    have "i \<in> set ?order" using spec Some by simp
    moreover have "i < ?n" using order len calculation by metis
    ultimately show ?thesis using spec Some r len unfolding Let_def router_ok_def by simp
  qed
qed

text \<open>Failing over may select nothing new. A router with a single provider reports a failover after
  the first failure although the provider it selects is the one that failed.\<close>

theorem failover_same_provider:
  assumes "providers r = [p]" "breakers r = [breaker_new 3 30]" "active r = 0"
  shows "fst (try_failover now failed_at r) \<and> active (snd (try_failover now failed_at r)) = active r"
  using assms
  by (simp add: try_failover_def Let_def record_failure_def breaker_new_def is_open_def word_le_nat_alt)

theorem failover_same_provider_witness:
  "fst (try_failover 0 0 (router_new [(1, ())]))"
  using failover_same_provider [of "router_new [(1, ())]" "(1, ())" 0 0] by (simp add: router_new_def)

theorem try_failover_sound_witness:
  "router_ok (snd (try_failover 0 0 (router_new [(1, ()), (2, ())])))"
  using try_failover_sound [OF router_ok_new [of "[(1, ()), (2, ())]"], of 0 0] by (metis prod.collapse)

section \<open>Backoff\<close>

record retry_backoff =
  attempt :: nat
  base_ms :: nat
  cap_ms :: nat

definition backoff_new :: retry_backoff where
  "backoff_new = \<lparr>attempt = 0, base_ms = 500, cap_ms = 32000\<rparr>"

text \<open>\<open>2u64.saturating_pow\<close>; the product with the base wraps at 64 bits.\<close>

definition saturating_pow2 :: "nat \<Rightarrow> nat" where
  "saturating_pow2 n = (if n < 64 then 2 ^ n else u64_max)"

definition capped_delay :: "retry_backoff \<Rightarrow> nat" where
  "capped_delay b = min (base_ms b * saturating_pow2 (attempt b) mod 2 ^ 64) (cap_ms b)"

text \<open>For values up to the cap, \<open>(capped as f64 * 0.5) as u64\<close> is the exact half, rounded down.\<close>

definition next_delay :: "nat \<Rightarrow> retry_backoff \<Rightarrow> nat \<times> retry_backoff" where
  "next_delay entropy b =
     (let capped = capped_delay b;
          jitter_range = capped div 2;
          jitter = (capped * (entropy mod 1000)) mod 2 ^ 64 mod max jitter_range 1
      in (saturating_sub capped (jitter_range div 2) + jitter, b\<lparr>attempt := attempt b + 1\<rparr>))"

definition parse_retry_after :: "string \<Rightarrow> nat option" where
  "parse_retry_after v = map_option (\<lambda>s. s * 1000) (parse_unsigned 64 (trim v))"

fun delays :: "nat list \<Rightarrow> retry_backoff \<Rightarrow> nat list" where
  "delays [] b = []"
| "delays (e # es) b = (case next_delay e b of (d, b') \<Rightarrow> d # delays es b')"

lemma next_delay_bounds:
  assumes "next_delay e b = (d, b')"
  shows "3 * capped_delay b \<le> 4 * d" "4 * d \<le> 5 * capped_delay b"
proof -
  let ?c = "capped_delay b"
  let ?j = "(?c * (e mod 1000)) mod 2 ^ 64 mod max (?c div 2) 1"
  have "?j < max (?c div 2) 1" by (rule mod_less_divisor) simp
  moreover have "d = ?c - ?c div 2 div 2 + ?j" using assms by (simp add: next_delay_def Let_def)
  ultimately show "3 * ?c \<le> 4 * d" "4 * d \<le> 5 * ?c" by linarith+
qed

lemma capped_delay_early:
  assumes "attempt b \<le> 55" "base_ms b = 500" "cap_ms b = 32000"
  shows "capped_delay b = min (500 * 2 ^ attempt b) 32000"
proof -
  have "(2::nat) ^ attempt b \<le> 2 ^ 55" using assms(1) by (intro power_increasing) simp_all
  then have "500 * (2::nat) ^ attempt b < 2 ^ 64" by simp
  then show ?thesis using assms by (simp add: capped_delay_def saturating_pow2_def)
qed

lemma length_delays [simp]: "length (delays es b) = length es"
  by (induction es arbitrary: b) (auto split: prod.splits)

lemma delays_nth:
  assumes "i < length es"
  shows "\<exists>b'. delays es b ! i = fst (next_delay (es ! i) b') \<and> attempt b' = attempt b + i \<and>
    base_ms b' = base_ms b \<and> cap_ms b' = cap_ms b"
  using assms
proof (induction es arbitrary: b i)
  case (Cons e es)
  show ?case
  proof (cases i)
    case 0
    then show ?thesis by (intro exI [of _ b]) (simp split: prod.splits)
  next
    case (Suc j)
    let ?b = "snd (next_delay e b)"
    have f: "attempt ?b = Suc (attempt b)" "base_ms ?b = base_ms b" "cap_ms ?b = cap_ms b"
      by (simp_all add: next_delay_def Let_def)
    from Cons.IH [of j ?b] Cons.prems Suc obtain b' where
      "delays es ?b ! j = fst (next_delay (es ! j) b')" "attempt b' = attempt ?b + j"
      "base_ms b' = base_ms ?b" "cap_ms b' = cap_ms ?b" by auto
    then show ?thesis using Suc f by (intro exI [of _ b']) (simp add: case_prod_unfold)
  qed
qed simp

lemma delay_range:
  assumes "i < length es" "i \<le> 55"
  shows "3 * min (500 * 2 ^ i) 32000 \<le> 4 * (delays es backoff_new ! i)"
    "4 * (delays es backoff_new ! i) \<le> 5 * min (500 * 2 ^ i) 32000"
proof -
  from delays_nth [OF assms(1), of backoff_new] obtain b where
    b: "delays es backoff_new ! i = fst (next_delay (es ! i) b)" "attempt b = i"
      "base_ms b = 500" "cap_ms b = 32000" by (auto simp: backoff_new_def)
  obtain d b' where "next_delay (es ! i) b = (d, b')" by fastforce
  from next_delay_bounds [OF this] capped_delay_early [of b] this b assms(2)
  show "3 * min (500 * 2 ^ i) 32000 \<le> 4 * (delays es backoff_new ! i)"
    "4 * (delays es backoff_new ! i) \<le> 5 * min (500 * 2 ^ i) 32000" by simp_all
qed

text \<open>Retry delays grow and stay bounded. Whatever the entropy, the delay of attempt \<open>i\<close> is within a
  quarter of \<open>min (500 ms * 2^i) (32 s)\<close> for the first 56 attempts (the product fits 64 bits until
  then), so it never exceeds 40 s, and until the cap is reached each delay is longer than the one
  before.\<close>

theorem backoff_bounded_and_growing:
  assumes "i < length es" "i \<le> 55"
  shows "3 * min (500 * 2 ^ i) 32000 \<le> 4 * (delays es backoff_new ! i) \<and>
    4 * (delays es backoff_new ! i) \<le> 5 * min (500 * 2 ^ i) 32000 \<and>
    delays es backoff_new ! i \<le> 40000 \<and>
    (Suc i < length es \<and> i < 6 \<longrightarrow> delays es backoff_new ! i < delays es backoff_new ! Suc i)"
proof (intro conjI impI)
  show "3 * min (500 * 2 ^ i) 32000 \<le> 4 * (delays es backoff_new ! i)"
    and hi: "4 * (delays es backoff_new ! i) \<le> 5 * min (500 * 2 ^ i) 32000"
    using delay_range [OF assms] by simp_all
  then show "delays es backoff_new ! i \<le> 40000" by linarith
  assume s: "Suc i < length es \<and> i < 6"
  then have lo: "3 * min (500 * 2 ^ Suc i) 32000 \<le> 4 * (delays es backoff_new ! Suc i)"
    using delay_range(1) [of "Suc i" es] by simp
  have "(2::nat) ^ i \<le> 2 ^ 5" using s by (intro power_increasing) simp_all
  then have "min (500 * 2 ^ Suc i) 32000 = 2 * (500 * (2::nat) ^ i)"
    "min (500 * (2::nat) ^ i) 32000 = 500 * 2 ^ i" by simp_all
  moreover have "0 < (2::nat) ^ i" by simp
  ultimately show "delays es backoff_new ! i < delays es backoff_new ! Suc i" using lo hi by linarith
qed

theorem backoff_bounded_and_growing_witness:
  "delays [0, 0] backoff_new ! 0 \<le> 40000"
  using backoff_bounded_and_growing [of 0 "[0, 0]"] by simp

text \<open>At attempts 62 and 63 the product wraps to zero: the delay vanishes.\<close>

lemma backoff_wraps: "fst (next_delay e (backoff_new\<lparr>attempt := 62\<rparr>)) = 0"
  by (simp add: next_delay_def capped_delay_def saturating_pow2_def backoff_new_def Let_def)

end
