(* ===== verification/Paths.thy ===== *)
theory Paths
  imports Prelude
begin

text \<open>
  Unix paths as \<open>std::path\<close> sees them: a path is the list of its components, which is what
  \<open>Path\<close>'s equality, \<open>starts_with\<close>, \<open>parent\<close> and \<open>file_name\<close> are defined on. Parsing drops empty
  and interior \<open>.\<close> components, as \<open>Path::components\<close> does.
\<close>

datatype component = RootDir | CurDir | ParentDir | Normal string

type_synonym path = "component list"

definition component_of :: "string \<Rightarrow> component" where
  "component_of s = (if s = ''.'' then CurDir else if s = ''..'' then ParentDir else Normal s)"

definition parse_path :: "string \<Rightarrow> path" where
  "parse_path s =
     (let pieces = filter (\<lambda>w. w \<noteq> []) (split_char CHR ''/'' s);
          interior = map component_of (filter (\<lambda>w. w \<noteq> ''.'') pieces)
      in if prefix ''/'' s then RootDir # interior
         else (case pieces of
                 p # _ \<Rightarrow> if p = ''.'' then CurDir # interior else interior
               | [] \<Rightarrow> []))"

definition is_absolute :: "path \<Rightarrow> bool" where
  "is_absolute p = (case p of RootDir # _ \<Rightarrow> True | _ \<Rightarrow> False)"

definition path_join :: "path \<Rightarrow> path \<Rightarrow> path" where
  "path_join base p =
     (if is_absolute p then p
      else if base = [] then p
      else base @ (case p of CurDir # rest \<Rightarrow> rest | _ \<Rightarrow> p))"

text \<open>\<open>Path::parent\<close>: nothing above the root or the empty path.\<close>

definition parent :: "path \<Rightarrow> path option" where
  "parent p = (if p = [] \<or> last p = RootDir then None else Some (butlast p))"

definition file_name :: "path \<Rightarrow> string option" where
  "file_name p = (if p = [] then None else (case last p of Normal s \<Rightarrow> Some s | _ \<Rightarrow> None))"

definition path_starts_with :: "path \<Rightarrow> path \<Rightarrow> bool" where
  "path_starts_with p base = prefix base p"

definition component_string :: "component \<Rightarrow> string" where
  "component_string c =
     (case c of RootDir \<Rightarrow> ''/'' | CurDir \<Rightarrow> ''.'' | ParentDir \<Rightarrow> ''..'' | Normal s \<Rightarrow> s)"

fun join_slash :: "string list \<Rightarrow> string" where
  "join_slash [] = []"
| "join_slash [s] = s"
| "join_slash (s # t # ss) = s @ ''/'' @ join_slash (t # ss)"

fun path_to_string :: "path \<Rightarrow> string" where
  "path_to_string (RootDir # cs) = ''/'' @ join_slash (map component_string cs)"
| "path_to_string cs = join_slash (map component_string cs)"

text \<open>A path in normal form: no \<open>.\<close>, no \<open>..\<close>, and the root only in front.\<close>

definition is_normal :: "component \<Rightarrow> bool" where
  "is_normal c = (case c of Normal _ \<Rightarrow> True | _ \<Rightarrow> False)"

definition normal_form :: "path \<Rightarrow> bool" where
  "normal_form p = (case p of RootDir # cs \<Rightarrow> list_all is_normal cs | _ \<Rightarrow> list_all is_normal p)"

lemma is_normal_simps [simp]:
  "is_normal (Normal s)" "\<not> is_normal RootDir" "\<not> is_normal CurDir" "\<not> is_normal ParentDir"
  by (simp_all add: is_normal_def)

lemma is_absolute_simps [simp]:
  "is_absolute (RootDir # cs)" "\<not> is_absolute []" "\<not> is_absolute (Normal s # cs)"
  "\<not> is_absolute (CurDir # cs)" "\<not> is_absolute (ParentDir # cs)"
  by (simp_all add: is_absolute_def)

lemma is_absolute_iff: "is_absolute p \<longleftrightarrow> (\<exists>cs. p = RootDir # cs)"
  by (auto simp: is_absolute_def split: list.splits component.splits)

lemma parse_path_absolute: "is_absolute (parse_path s) \<longleftrightarrow> prefix ''/'' s"
proof (cases "prefix ''/'' s")
  case True
  then show ?thesis by (simp add: parse_path_def Let_def)
next
  case False
  have n: "\<not> is_absolute (map component_of ws)" for ws
    by (cases ws) (simp_all add: component_of_def)
  show ?thesis using False n by (auto simp: parse_path_def Let_def split: list.split)
qed

lemma path_join_absolute: "is_absolute base \<Longrightarrow> is_absolute (path_join base p)"
  by (auto simp: path_join_def is_absolute_iff)

section \<open>Printing and parsing\<close>

text \<open>An absolute path of proper names survives being printed and parsed.\<close>

definition proper_component :: "component \<Rightarrow> bool" where
  "proper_component c =
     (case c of Normal s \<Rightarrow> s \<noteq> [] \<and> CHR ''/'' \<notin> set s \<and> s \<noteq> ''.'' \<and> s \<noteq> ''..'' | ParentDir \<Rightarrow> True | _ \<Rightarrow> False)"

definition proper_path :: "path \<Rightarrow> bool" where
  "proper_path p = (case p of RootDir # cs \<Rightarrow> list_all proper_component cs | _ \<Rightarrow> False)"

lemma split_join_slash:
  "ws \<noteq> [] \<Longrightarrow> list_all (\<lambda>w. CHR ''/'' \<notin> set w) ws \<Longrightarrow> split_char CHR ''/'' (join_slash ws) = ws"
  by (induction ws rule: join_slash.induct) (simp_all add: split_char_none split_char_append)

lemma component_string_proper:
  assumes "proper_component c"
  shows "component_string c \<noteq> []" "CHR ''/'' \<notin> set (component_string c)" "component_string c \<noteq> ''.''"
    "component_of (component_string c) = c"
  using assms by (cases c; simp add: proper_component_def component_string_def component_of_def)+

lemma parse_path_to_string:
  assumes "proper_path p"
  shows "parse_path (path_to_string p) = p"
proof -
  obtain cs where p: "p = RootDir # cs" "list_all proper_component cs"
    using assms by (auto simp: proper_path_def split: list.splits component.splits)
  let ?ws = "map component_string cs"
  have "filter (\<lambda>w. w \<noteq> []) (split_char CHR ''/'' (join_slash ?ws)) = ?ws"
  proof (cases "cs = []")
    case False
    then have "split_char CHR ''/'' (join_slash ?ws) = ?ws"
      using p(2) by (intro split_join_slash) (auto simp: list_all_iff component_string_proper)
    then show ?thesis using p(2) by (simp add: list_all_iff component_string_proper)
  qed simp
  moreover have "filter (\<lambda>w. w \<noteq> ''.'') ?ws = ?ws"
    using p(2) by (auto simp: list_all_iff component_string_proper filter_id_conv)
  moreover have "map component_of ?ws = cs"
    using p(2) by (induction cs) (simp_all add: component_string_proper)
  ultimately show ?thesis by (simp add: p(1) parse_path_def Let_def)
qed

end
