(* ===== verification/Quoting.thy ===== *)
theory Quoting
  imports Prelude
begin

text \<open>
  The quote-aware scanners over shell commands: \<open>disallowed_metachar\<close> (\<open>qian_permission/mod.rs\<close>),
  \<open>redirection_metachar\<close> and \<open>split_segments\<close> (\<open>qian_permission/verifier.rs\<close>). Each keeps the flags
  \<open>in_single\<close>, \<open>in_double\<close> and \<open>escaped\<close> and walks the command once; the reference semantics is the list of
  the characters that stand outside quotes and escapes.
\<close>

definition backslash :: char where "backslash = CHR 0x5C"
definition squote :: char where "squote = CHR 0x27"
definition dquote :: char where "dquote = CHR 0x22"
definition backtick :: char where "backtick = CHR 0x60"

lemmas quote_chars [scan_simps] = backslash_def squote_def dquote_def backtick_def

section \<open>The scanners\<close>

fun disallowed_scan :: "bool \<Rightarrow> bool \<Rightarrow> bool \<Rightarrow> string \<Rightarrow> char option" where
  "disallowed_scan in_single in_double escaped [] = None"
| "disallowed_scan in_single in_double escaped (c # cs) =
     (if escaped then disallowed_scan in_single in_double False cs
      else if c = backslash \<and> \<not> in_single then disallowed_scan in_single in_double True cs
      else if c = squote \<and> \<not> in_double then disallowed_scan (\<not> in_single) in_double False cs
      else if c = dquote \<and> \<not> in_single then disallowed_scan in_single (\<not> in_double) False cs
      else if (c = CHR '';'' \<or> c = CHR ''|'' \<or> c = CHR ''$'' \<or> c = backtick) \<and>
              \<not> in_single \<and> \<not> in_double then Some c
      else if c = CHR ''&'' \<and> \<not> in_single \<and> \<not> in_double then
        (case cs of
           d # ds \<Rightarrow> if d = CHR ''&'' then disallowed_scan in_single in_double False ds else Some c
         | [] \<Rightarrow> Some c)
      else disallowed_scan in_single in_double False cs)"

definition disallowed_metachar :: "string \<Rightarrow> char option" where
  "disallowed_metachar cmd = disallowed_scan False False False cmd"

fun redirection_scan :: "bool \<Rightarrow> bool \<Rightarrow> bool \<Rightarrow> string \<Rightarrow> char option" where
  "redirection_scan in_single in_double escaped [] = None"
| "redirection_scan in_single in_double escaped (c # cs) =
     (if escaped then redirection_scan in_single in_double False cs
      else if c = backslash \<and> \<not> in_single then redirection_scan in_single in_double True cs
      else if c = squote \<and> \<not> in_double then redirection_scan (\<not> in_single) in_double False cs
      else if c = dquote \<and> \<not> in_single then redirection_scan in_single (\<not> in_double) False cs
      else if (c = CHR ''<'' \<or> c = CHR ''>'') \<and> \<not> in_single \<and> \<not> in_double then Some c
      else redirection_scan in_single in_double False cs)"

definition redirection_metachar :: "string \<Rightarrow> char option" where
  "redirection_metachar cmd = redirection_scan False False False cmd"

text \<open>\<open>split_segments\<close>: the segment being built is \<open>current\<close>; quotes and backslashes stay in it.\<close>

fun split_scan :: "bool \<Rightarrow> bool \<Rightarrow> bool \<Rightarrow> string \<Rightarrow> string \<Rightarrow> string list" where
  "split_scan in_single in_double escaped current [] = [current]"
| "split_scan in_single in_double escaped current (c # cs) =
     (if escaped then split_scan in_single in_double False (current @ [c]) cs
      else if c = backslash \<and> \<not> in_single then
        split_scan in_single in_double True (current @ [c]) cs
      else if c = squote \<and> \<not> in_double then
        split_scan (\<not> in_single) in_double False (current @ [c]) cs
      else if c = dquote \<and> \<not> in_single then
        split_scan in_single (\<not> in_double) False (current @ [c]) cs
      else if c = CHR ''|'' \<and> \<not> in_single \<and> \<not> in_double then
        current # split_scan in_single in_double False [] cs
      else if c = CHR ''&'' \<and> \<not> in_single \<and> \<not> in_double \<and>
              (case cs of d # _ \<Rightarrow> d = CHR ''&'' | [] \<Rightarrow> False) then
        current # split_scan in_single in_double False [] (tl cs)
      else split_scan in_single in_double False (current @ [c]) cs)"

definition split_segments :: "string \<Rightarrow> string list" where
  "split_segments cmd = split_scan False False False [] cmd"

section \<open>Reference semantics\<close>

record quote_state =
  in_single :: bool
  in_double :: bool
  escaped :: bool

definition start_state :: quote_state where
  "start_state = \<lparr>in_single = False, in_double = False, escaped = False\<rparr>"

definition outside :: "quote_state \<Rightarrow> bool" where
  "outside q = (\<not> in_single q \<and> \<not> in_double q \<and> \<not> escaped q)"

definition quote_step :: "quote_state \<Rightarrow> char \<Rightarrow> quote_state" where
  "quote_step q c =
     (if escaped q then q\<lparr>escaped := False\<rparr>
      else if c = backslash \<and> \<not> in_single q then q\<lparr>escaped := True\<rparr>
      else if c = squote \<and> \<not> in_double q then q\<lparr>in_single := \<not> in_single q\<rparr>
      else if c = dquote \<and> \<not> in_single q then q\<lparr>in_double := \<not> in_double q\<rparr>
      else q)"

text \<open>The characters read while the scanner is outside quotes and not escaped.\<close>

fun unquoted_from :: "quote_state \<Rightarrow> string \<Rightarrow> string" where
  "unquoted_from q [] = []"
| "unquoted_from q (c # cs) =
     (if outside q then c # unquoted_from (quote_step q c) cs
      else unquoted_from (quote_step q c) cs)"

definition unquoted :: "string \<Rightarrow> string" where
  "unquoted cmd = unquoted_from start_state cmd"

text \<open>The metacharacter rule on unquoted text: separators are refused, ampersands come in pairs.\<close>

fun first_separator :: "string \<Rightarrow> char option" where
  "first_separator [] = None"
| "first_separator (c # cs) =
     (if c = CHR '';'' \<or> c = CHR ''|'' \<or> c = CHR ''$'' \<or> c = backtick then Some c
      else if c = CHR ''&'' then
        (case cs of d # ds \<Rightarrow> if d = CHR ''&'' then first_separator ds else Some c | [] \<Rightarrow> Some c)
      else first_separator cs)"

lemma separator_not_quote:
  "c = CHR '';'' \<or> c = CHR ''|'' \<or> c = CHR ''$'' \<or> c = backtick \<or> c = CHR ''&'' \<Longrightarrow>
     c \<noteq> backslash \<and> c \<noteq> squote \<and> c \<noteq> dquote"
  by (auto simp: scan_simps)

lemma quote_not_separator:
  "c = backslash \<or> c = squote \<or> c = dquote \<Longrightarrow>
     c \<noteq> CHR '';'' \<and> c \<noteq> CHR ''|'' \<and> c \<noteq> CHR ''$'' \<and> c \<noteq> backtick \<and> c \<noteq> CHR ''&''"
  by (auto simp: scan_simps)

text \<open>One step of the reference on each kind of character.\<close>

lemma unquoted_from_quote:
  assumes "c = backslash \<or> c = squote \<or> c = dquote"
  shows "first_separator (unquoted_from q (c # cs)) =
    first_separator (unquoted_from (quote_step q c) cs)"
  using quote_not_separator [OF assms] by simp

lemma unquoted_from_inside: "\<not> outside q \<Longrightarrow> unquoted_from q (c # cs) = unquoted_from (quote_step q c) cs"
  by simp

lemma quote_step_plain:
  "\<not> escaped q \<Longrightarrow> c \<noteq> backslash \<Longrightarrow> c \<noteq> squote \<Longrightarrow> c \<noteq> dquote \<Longrightarrow> quote_step q c = q"
  by (simp add: quote_step_def)

abbreviation mk_state :: "bool \<Rightarrow> bool \<Rightarrow> bool \<Rightarrow> quote_state" where
  "mk_state s d e \<equiv> \<lparr>in_single = s, in_double = d, escaped = e\<rparr>"

lemma disallowed_scan_unquoted:
  "disallowed_scan s d e cs = first_separator (unquoted_from (mk_state s d e) cs)"
proof (induction s d e cs rule: disallowed_scan.induct)
  case (1 s d e)
  then show ?case by simp
next
  case (2 s d e c cs)
  let ?q = "mk_state s d e"
  consider (esc) "e" | (quo) "\<not> e" "c = backslash \<or> c = squote \<or> c = dquote"
    | (ins) "\<not> e" "\<not> (c = backslash \<or> c = squote \<or> c = dquote)" "s \<or> d"
    | (out) "\<not> e" "\<not> (c = backslash \<or> c = squote \<or> c = dquote)" "\<not> s" "\<not> d" by blast
  then show ?case
  proof cases
    case esc
    then show ?thesis using "2.IH"(1) by (simp add: outside_def quote_step_def)
  next
    case quo
    note ns = quote_not_separator [OF quo(2)]
    have "disallowed_scan s d e (c # cs) =
        first_separator (unquoted_from (quote_step ?q c) cs)"
      using quo ns "2.IH"(2-4) "2.IH"(6) by (auto simp: quote_step_def)
    then show ?thesis using unquoted_from_quote [OF quo(2)] by simp
  next
    case ins
    then have "disallowed_scan s d e (c # cs) = disallowed_scan s d False cs" by auto
    also have "\<dots> = first_separator (unquoted_from (mk_state s d False) cs)"
      using ins "2.IH"(6) by auto
    finally show ?thesis
      using ins by (cases s) (simp_all add: outside_def quote_step_plain)
  next
    case out
    then have q: "outside ?q" "quote_step ?q c = ?q"
      by (simp_all add: outside_def quote_step_plain)
    show ?thesis
    proof (cases "c = CHR ''&''")
      case True
      then have a: "c \<noteq> backtick" by (simp add: scan_simps)
      have q2: "quote_step ?q CHR ''&'' = ?q" using q(2) True by simp
      show ?thesis
      proof (cases cs)
        case Nil
        then show ?thesis using out True a q by simp
      next
        case (Cons b bs)
        then show ?thesis
          using out True a q q2 "2.IH"(5) by (cases "b = CHR ''&''") simp_all
      qed
    next
      case False
      then show ?thesis using out q "2.IH"(6) by simp
    qed
  qed
qed

lemma redirection_scan_unquoted:
  "redirection_scan s d e cs =
     find (\<lambda>c. c = CHR ''<'' \<or> c = CHR ''>'')
       (unquoted_from \<lparr>in_single = s, in_double = d, escaped = e\<rparr> cs)"
proof (induction s d e cs rule: redirection_scan.induct)
  case (1 s d e)
  then show ?case by simp
next
  case (2 s d e c cs)
  have angle: "\<not> (c = backslash \<or> c = squote \<or> c = dquote)" if "c = CHR ''<'' \<or> c = CHR ''>''"
    using that by (auto simp: scan_simps)
  show ?case
  proof (cases "c = CHR ''<'' \<or> c = CHR ''>''")
    case True
    then show ?thesis using angle [OF True] "2.IH"(1,5)
      by (cases e; cases s; cases d; simp add: outside_def quote_step_def)
  next
    case False
    then show ?thesis using "2.IH"
      by (cases e; cases s; cases d; simp add: outside_def quote_step_def)
  qed
qed

lemma first_separator_None:
  "first_separator cs = None \<Longrightarrow> set cs \<inter> {CHR '';'', CHR ''|'', CHR ''$'', backtick} = {}"
proof (induction cs rule: first_separator.induct)
  case 1
  then show ?case by simp
next
  case (2 c cs)
  show ?case
  proof (cases "c = CHR ''&''")
    case True
    with "2.prems" obtain ds where "cs = CHR ''&'' # ds" "first_separator ds = None"
      by (auto split: if_splits list.splits)
    then show ?thesis using True "2.IH"(1) by (auto simp: scan_simps)
  next
    case False
    then show ?thesis using "2.prems" "2.IH"(2) by (auto split: if_splits)
  qed
qed

text \<open>The two metacharacter scanners are exactly searches over the text outside quotes and
  escapes: \<open>disallowed_metachar\<close> returns the first separator (or unpaired ampersand) of the unquoted
  text and \<open>redirection_metachar\<close> its first angle bracket, so a command both accept has no \<open>;\<close>, \<open>|\<close>,
  \<open>$\<close>, backtick, \<open><\<close> or \<open>>\<close> outside quotes.\<close>

theorem metachar_scanners_exact:
  "disallowed_metachar cmd = first_separator (unquoted cmd) \<and>
   redirection_metachar cmd = find (\<lambda>c. c = CHR ''<'' \<or> c = CHR ''>'') (unquoted cmd) \<and>
   (disallowed_metachar cmd = None \<and> redirection_metachar cmd = None \<longrightarrow>
      set (unquoted cmd) \<inter>
        {CHR '';'', CHR ''|'', CHR ''$'', backtick, CHR ''<'', CHR ''>''} = {})"
proof -
  have d: "disallowed_metachar cmd = first_separator (unquoted cmd)"
    by (simp add: disallowed_metachar_def unquoted_def start_state_def disallowed_scan_unquoted)
  moreover have r: "redirection_metachar cmd =
      find (\<lambda>c. c = CHR ''<'' \<or> c = CHR ''>'') (unquoted cmd)"
    by (simp add: redirection_metachar_def unquoted_def start_state_def redirection_scan_unquoted)
  moreover have "set (unquoted cmd) \<inter>
        {CHR '';'', CHR ''|'', CHR ''$'', backtick, CHR ''<'', CHR ''>''} = {}"
    if "first_separator (unquoted cmd) = None"
      and "find (\<lambda>c. c = CHR ''<'' \<or> c = CHR ''>'') (unquoted cmd) = None"
    using first_separator_None [OF that(1)] that(2) by (auto simp: find_None_iff)
  ultimately show ?thesis by simp
qed

theorem metachar_scanners_exact_witness:
  "disallowed_metachar ''echo a'' = None \<and> redirection_metachar ''echo a'' = None \<and>
   CHR '';'' \<notin> set (unquoted ''echo a'')"
proof -
  have "disallowed_metachar ''echo a'' = None" "redirection_metachar ''echo a'' = None"
    by (simp_all add: disallowed_metachar_def redirection_metachar_def scan_simps)
  then show ?thesis using metachar_scanners_exact [of "''echo a''"] by auto
qed

end
