(* ===== verification/Permission.thy ===== *)
theory Permission
  imports Paths Quoting
begin

text \<open>
  The permission palace (\<open>palaces/qian_permission\<close>): path sandboxing, shell command filtering, the
  explicit policy chain and the verifier's command allowlist.

  What is not in the repository is an argument: the file system (\<open>exists\<close> and \<open>canonicalize\<close>),
  \<open>shell_words::split\<close> (\<open>None\<close> for an unparsable command), \<open>glob::Pattern\<close> (\<open>None\<close> for an invalid
  pattern) and the serialiser of JSON values.
\<close>

section \<open>Configuration\<close>

datatype path_op = Read | Write

datatype sandbox_mode = Required | BestEffort | Disabled

record sandbox_config =
  workspace_root :: path
  allowed_paths :: "path list"
  blocked_prefixes :: "string list"

record shell_policy =
  allowlist :: "string list"
  blocklist :: "string list"

record permission_matrix =
  sandbox :: sandbox_config
  policy :: shell_policy
  deny_rules :: "string list"
  confirmation_timeout :: nat
  pm_sandbox_mode :: sandbox_mode
  backup_dir :: path

record security_section =
  cfg_workspace_root :: "string option"
  cfg_allowed_paths :: "string list"
  blocked_path_prefixes :: "string list"
  command_allowlist :: "string list"
  command_blocklist :: "string list"
  cfg_deny_rules :: "string list"
  confirmation_timeout_secs :: nat
  cfg_sandbox_mode :: sandbox_mode

record file_system =
  fs_exists :: "path \<Rightarrow> bool"
  fs_canonicalize :: "path \<Rightarrow> (string, path) result"

datatype perm_error =
  InvalidFilename
| ParentMissing path
| CannotResolve string string
| OutsideRoot string path path
| BlockedPrefix string path string
| BlockedPattern string
| Metachar char
| NotAllowed string
| BlockedToken string string
| MissingParam string

definition from_config ::
  "file_system \<Rightarrow> security_section \<Rightarrow> path \<Rightarrow> path \<Rightarrow> permission_matrix" where
  "from_config fs sec default_root backup =
     (let root = (case cfg_workspace_root sec of Some s \<Rightarrow> parse_path s | None \<Rightarrow> default_root);
          root = (case fs_canonicalize fs root of Inr p \<Rightarrow> p | Inl _ \<Rightarrow> root);
          allowed = List.map_filter
            (\<lambda>p. case fs_canonicalize fs (parse_path p) of Inr c \<Rightarrow> Some c | Inl _ \<Rightarrow> None)
            (cfg_allowed_paths sec)
      in \<lparr>sandbox = \<lparr>workspace_root = root, allowed_paths = allowed,
                     blocked_prefixes = blocked_path_prefixes sec\<rparr>,
          policy = \<lparr>allowlist = command_allowlist sec, blocklist = command_blocklist sec\<rparr>,
          deny_rules = cfg_deny_rules sec,
          confirmation_timeout = confirmation_timeout_secs sec,
          pm_sandbox_mode = cfg_sandbox_mode sec,
          backup_dir = backup\<rparr>)"

section \<open>Paths\<close>

definition resolve :: "permission_matrix \<Rightarrow> string \<Rightarrow> path" where
  "resolve m raw =
     (let p = parse_path raw in
      if \<not> is_absolute p then path_join (workspace_root (sandbox m)) p else p)"

definition canonical_target ::
  "file_system \<Rightarrow> string \<Rightarrow> path_op \<Rightarrow> path \<Rightarrow> (perm_error, path) result" where
  "canonical_target fs raw op resolved =
     (if op = Write \<and> \<not> fs_exists fs resolved then
        (let par = (case parent resolved of Some p \<Rightarrow> p | None \<Rightarrow> resolved) in
         case fs_canonicalize fs par of
           Inr canonical_parent \<Rightarrow>
             (case file_name resolved of
                None \<Rightarrow> Err InvalidFilename
              | Some f \<Rightarrow> Ok (path_join canonical_parent [Normal f]))
         | Inl _ \<Rightarrow> Err (ParentMissing par))
      else (case fs_canonicalize fs resolved of
              Inr c \<Rightarrow> Ok c
            | Inl e \<Rightarrow> Err (CannotResolve raw e)))"

definition within_boundary :: "permission_matrix \<Rightarrow> path \<Rightarrow> bool" where
  "within_boundary m p =
     (path_starts_with p (workspace_root (sandbox m)) \<or>
      list_ex (\<lambda>ap. path_starts_with p ap) (allowed_paths (sandbox m)))"

definition verify_path ::
  "file_system \<Rightarrow> permission_matrix \<Rightarrow> string \<Rightarrow> path_op \<Rightarrow> (perm_error, path) result" where
  "verify_path fs m raw op =
     (case canonical_target fs raw op (resolve m raw) of
        Inl e \<Rightarrow> Err e
      | Inr canonical \<Rightarrow>
          (if \<not> within_boundary m canonical
           then Err (OutsideRoot raw canonical (workspace_root (sandbox m)))
           else (case find (\<lambda>b. str_contains (path_to_string canonical) b)
                           (blocked_prefixes (sandbox m)) of
                   Some b \<Rightarrow> Err (BlockedPrefix raw canonical b)
                 | None \<Rightarrow> Ok canonical)))"

lemma verify_path_Ok:
  assumes "verify_path fs m raw op = Ok p"
  shows "canonical_target fs raw op (resolve m raw) = Ok p" "within_boundary m p"
    "b \<in> set (blocked_prefixes (sandbox m)) \<Longrightarrow> \<not> str_contains (path_to_string p) b"
  using assms
  by (auto simp: verify_path_def find_None_iff split: sum.splits if_splits option.splits)

text \<open>
  The path of a granted request is the file system's canonical form of the request or, for a file
  to be created, a name directly inside the canonical form of its parent directory.
\<close>

lemma canonical_target_Ok:
  assumes "canonical_target fs raw op q = Ok p"
  shows "fs_canonicalize fs q = Ok p \<or>
    (op = Write \<and> \<not> fs_exists fs q \<and>
     (\<exists>par dir f. fs_canonicalize fs par = Ok dir \<and> file_name q = Some f \<and>
        (parent q = Some par \<or> parent q = None \<and> par = q) \<and> p = path_join dir [Normal f]))"
  using assms
  by (auto simp: canonical_target_def Let_def split: if_splits option.splits sum.splits)

text \<open>C33: a path the sandbox grants lies, component by component, under the workspace root or an
  allowed directory; its text contains no blocked prefix; and it is the file system's canonical
  path of the request or, when a new file is written, a single name inside the canonical path of
  the parent directory. So \<open>..\<close> and symbolic links in the requested directory cannot lead out.\<close>

theorem verify_path_confined:
  assumes "verify_path fs m raw op = Ok p"
  shows "within_boundary m p \<and>
    (\<forall>b \<in> set (blocked_prefixes (sandbox m)). \<not> sublist b (path_to_string p)) \<and>
    (fs_canonicalize fs (resolve m raw) = Ok p \<or>
     (op = Write \<and> \<not> fs_exists fs (resolve m raw) \<and>
      (\<exists>dir f. p = path_join dir [Normal f] \<and> file_name (resolve m raw) = Some f \<and>
         (\<exists>par. fs_canonicalize fs par = Ok dir))))"
  using verify_path_Ok [OF assms] canonical_target_Ok
  by (fastforce simp: str_contains_iff_sublist)

definition plain_fs :: file_system where
  "plain_fs = \<lparr>fs_exists = (\<lambda>_. True), fs_canonicalize = (\<lambda>p. Inr p)\<rparr>"

definition sample_matrix :: permission_matrix where
  "sample_matrix =
     \<lparr>sandbox = \<lparr>workspace_root = [RootDir, Normal ''w''], allowed_paths = [],
                  blocked_prefixes = [''.git'']\<rparr>,
      policy = \<lparr>allowlist = [''ls''], blocklist = [''rm -rf /'']\<rparr>,
      deny_rules = [], confirmation_timeout = 30, pm_sandbox_mode = Required,
      backup_dir = [Normal ''b'']\<rparr>"

lemma sample_verify_path:
  "verify_path plain_fs sample_matrix ''a/b'' Read = Ok [RootDir, Normal ''w'', Normal ''a'', Normal ''b'']"
  by (simp add: verify_path_def canonical_target_def resolve_def parse_path_def component_of_def
      path_join_def within_boundary_def path_starts_with_def str_contains_def plain_fs_def
      sample_matrix_def component_string_def)

theorem verify_path_confined_witness:
  "verify_path plain_fs sample_matrix ''a/b'' Read =
     Ok [RootDir, Normal ''w'', Normal ''a'', Normal ''b''] \<and>
   within_boundary sample_matrix [RootDir, Normal ''w'', Normal ''a'', Normal ''b'']"
  using verify_path_confined [OF sample_verify_path] sample_verify_path by simp

section \<open>Shell commands\<close>

text \<open>\<open>cmd.split("&&")\<close>: not aware of quotes.\<close>

fun split_and_and :: "string \<Rightarrow> string list" where
  "split_and_and [] = [[]]"
| "split_and_and [c] = [[c]]"
| "split_and_and (c # d # cs) =
     (if c = CHR ''&'' \<and> d = CHR ''&'' then [] # split_and_and cs
      else (case split_and_and (d # cs) of [] \<Rightarrow> [[c]] | w # ws \<Rightarrow> (c # w) # ws))"

definition command_name :: "string \<Rightarrow> string" where
  "command_name first = last (split_char CHR ''/'' first)"

definition blocklist_hit :: "string list \<Rightarrow> string \<Rightarrow> string option" where
  "blocklist_hit bl cmd = find (\<lambda>p. str_contains cmd p) bl"

fun token_hit :: "string list \<Rightarrow> string list \<Rightarrow> (string \<times> string) option" where
  "token_hit bl [] = None"
| "token_hit bl (t # ts) =
     (case find (\<lambda>p. t = p) bl of Some p \<Rightarrow> Some (t, p) | None \<Rightarrow> token_hit bl ts)"

text \<open>The command of a segment that is not allowed, if any; a segment with no word is skipped.\<close>

definition segment_violation ::
  "(string \<Rightarrow> string list option) \<Rightarrow> string list \<Rightarrow> string \<Rightarrow> string option" where
  "segment_violation shell_split al segment =
     (case (case shell_split (trim segment) of Some ts \<Rightarrow> ts | None \<Rightarrow> []) of
        [] \<Rightarrow> None
      | first # _ \<Rightarrow>
          (if list_ex (\<lambda>a. a = command_name first \<or> a = first) al then None
           else Some (command_name first)))"

fun first_violation ::
  "(string \<Rightarrow> string list option) \<Rightarrow> string list \<Rightarrow> string list \<Rightarrow> string option" where
  "first_violation shell_split al [] = None"
| "first_violation shell_split al (s # ss) =
     (case segment_violation shell_split al s of
        Some v \<Rightarrow> Some v
      | None \<Rightarrow> first_violation shell_split al ss)"

definition verify_command ::
  "(string \<Rightarrow> string list option) \<Rightarrow> permission_matrix \<Rightarrow> string \<Rightarrow> (perm_error, unit) result" where
  "verify_command shell_split m cmd =
     (case shell_split cmd of
        None \<Rightarrow>
          (if split_whitespace cmd = [] then Ok ()
           else (case blocklist_hit (blocklist (policy m)) cmd of
                   Some p \<Rightarrow> Err (BlockedPattern p)
                 | None \<Rightarrow>
                     (case disallowed_metachar cmd of
                        Some c \<Rightarrow> Err (Metachar c)
                      | None \<Rightarrow> Ok ())))
      | Some tokens \<Rightarrow>
          (if tokens = [] then Ok ()
           else (case disallowed_metachar cmd of
                   Some c \<Rightarrow> Err (Metachar c)
                 | None \<Rightarrow>
                     (case (if allowlist (policy m) \<noteq> [] then
                              first_violation shell_split (allowlist (policy m)) (split_and_and cmd)
                            else None) of
                        Some v \<Rightarrow> Err (NotAllowed v)
                      | None \<Rightarrow>
                          (case token_hit (blocklist (policy m)) tokens of
                             Some (t, p) \<Rightarrow> Err (BlockedToken t p)
                           | None \<Rightarrow>
                               (case blocklist_hit (blocklist (policy m)) cmd of
                                  Some p \<Rightarrow> Err (BlockedPattern p)
                                | None \<Rightarrow> Ok ()))))))"

lemma first_violation_None:
  "first_violation sp al ss = None \<longleftrightarrow> (\<forall>s \<in> set ss. segment_violation sp al s = None)"
  by (induction ss) (auto split: option.splits)

lemma token_hit_None: "token_hit bl ts = None \<longleftrightarrow> set bl \<inter> set ts = {}"
  by (induction ts) (auto simp: find_None_iff find_Some_iff split: option.splits)

lemma verify_command_Ok_cases:
  assumes "verify_command sp m cmd = Ok ()" "sp cmd = Some ts" "ts \<noteq> []"
  shows "disallowed_metachar cmd = None"
    and "allowlist (policy m) \<noteq> [] \<Longrightarrow>
      first_violation sp (allowlist (policy m)) (split_and_and cmd) = None"
    and "token_hit (blocklist (policy m)) ts = None"
    and "blocklist_hit (blocklist (policy m)) cmd = None"
  using assms by (auto simp: verify_command_def split: option.splits if_splits)

text \<open>What an accepted command satisfies. When the command parses to at least one word, it has no
  unquoted separator and no unpaired ampersand; with a non-empty allowlist the first word of every
  \<open>&&\<close> segment that parses to a word is allowed by its full or its base name; no blocked pattern is a
  word of the command or occurs in its text. A command that does not parse is held to the
  blocklist and the metacharacters.\<close>

theorem verify_command_sound:
  assumes "verify_command sp m cmd = Ok ()"
  shows "(\<forall>ts. sp cmd = Some ts \<and> ts \<noteq> [] \<longrightarrow>
      first_separator (unquoted cmd) = None \<and>
      set (blocklist (policy m)) \<inter> set ts = {} \<and>
      (\<forall>p \<in> set (blocklist (policy m)). \<not> sublist p cmd) \<and>
      (allowlist (policy m) \<noteq> [] \<longrightarrow>
         (\<forall>seg \<in> set (split_and_and cmd). \<forall>w ws. sp (trim seg) = Some (w # ws) \<longrightarrow>
            command_name w \<in> set (allowlist (policy m)) \<or> w \<in> set (allowlist (policy m))))) \<and>
    (sp cmd = None \<and> split_whitespace cmd \<noteq> [] \<longrightarrow>
      first_separator (unquoted cmd) = None \<and>
      (\<forall>p \<in> set (blocklist (policy m)). \<not> sublist p cmd))"
proof -
  have meta: "disallowed_metachar cmd = first_separator (unquoted cmd)"
    by (simp add: disallowed_metachar_def disallowed_scan_unquoted unquoted_def start_state_def)
  have bl: "blocklist_hit bl cmd = None \<longleftrightarrow> (\<forall>p \<in> set bl. \<not> sublist p cmd)" for bl
    by (auto simp: blocklist_hit_def find_None_iff str_contains_iff_sublist)
  have seg: "command_name w \<in> set al \<or> w \<in> set al"
    if "segment_violation sp al s = None" "sp (trim s) = Some (w # ws)" for al s w ws
    using that by (auto simp: segment_violation_def list_ex_iff split: if_splits)
  show ?thesis
  proof (intro conjI allI impI; elim conjE)
    fix ts
    assume ts: "sp cmd = Some ts" "ts \<noteq> []"
    note ok = verify_command_Ok_cases [OF assms ts]
    show "first_separator (unquoted cmd) = None" using ok(1) meta by simp
    show "set (blocklist (policy m)) \<inter> set ts = {}" using ok(3) by (simp add: token_hit_None)
    show "\<forall>p \<in> set (blocklist (policy m)). \<not> sublist p cmd" using ok(4) bl by simp
    show "\<forall>s \<in> set (split_and_and cmd). \<forall>w ws. sp (trim s) = Some (w # ws) \<longrightarrow>
        command_name w \<in> set (allowlist (policy m)) \<or> w \<in> set (allowlist (policy m))"
      if "allowlist (policy m) \<noteq> []"
      using ok(2) [OF that] seg by (simp add: first_violation_None) blast
  next
    assume "sp cmd = None" "split_whitespace cmd \<noteq> []"
    then show "first_separator (unquoted cmd) = None"
      using assms meta by (auto simp: verify_command_def split: option.splits)
  next
    assume "sp cmd = None" "split_whitespace cmd \<noteq> []"
    then show "\<forall>p \<in> set (blocklist (policy m)). \<not> sublist p cmd"
      using assms bl by (auto simp: verify_command_def split: option.splits)
  qed
qed

text \<open>A word splitter that agrees with \<open>shell_words::split\<close> on text without quotes and escapes.\<close>

definition blank_split :: "string \<Rightarrow> string list option" where
  "blank_split s = Some (split_whitespace s)"

lemma sample_verify_command: "verify_command blank_split sample_matrix ''ls a'' = Ok ()"
  by (simp add: verify_command_def blank_split_def split_whitespace_def is_whitespace_def
      disallowed_metachar_def scan_simps sample_matrix_def segment_violation_def trim_def
      command_name_def blocklist_hit_def str_contains_def)

theorem verify_command_sound_witness:
  "verify_command blank_split sample_matrix ''ls a'' = Ok () \<and>
   first_separator (unquoted ''ls a'') = None"
  using verify_command_sound [OF sample_verify_command] sample_verify_command
  by (simp add: blank_split_def split_whitespace_def is_whitespace_def)

end
