(* ===== verification/TextUtil.thy ===== *)
theory TextUtil
  imports Prelude
begin

text \<open>
  Text helpers: the UTF-8 view of a byte string, the parts of \<open>str\<close> that work on lines and on
  characters, and the truncation and sanitising functions of \<open>utils.rs\<close>.
\<close>

section \<open>Characters in bytes\<close>

text \<open>A continuation byte carries no character of its own; an index is a boundary if it is an end of
  the string or the byte there starts a character. Slicing elsewhere panics.\<close>

definition is_cont :: "char \<Rightarrow> bool" where
  "is_cont c = (let n = of_char c :: nat in 128 \<le> n \<and> n < 192)"

definition is_char_boundary :: "string \<Rightarrow> nat \<Rightarrow> bool" where
  "is_char_boundary s i =
     (i = 0 \<or> i = length s \<or> i < length s \<and> \<not> is_cont (s ! i))"

primrec floor_from :: "string \<Rightarrow> nat \<Rightarrow> nat" where
  "floor_from s 0 = 0"
| "floor_from s (Suc i) = (if is_char_boundary s (Suc i) then Suc i else floor_from s i)"

definition floor_char_boundary :: "string \<Rightarrow> nat \<Rightarrow> nat" where
  "floor_char_boundary s i = (if length s \<le> i then length s else floor_from s i)"

definition char_count :: "string \<Rightarrow> nat" where
  "char_count s = length (filter (\<lambda>c. \<not> is_cont c) s)"

text \<open>\<open>chars().take(n)\<close>: bytes are kept while at most \<open>n\<close> characters have started.\<close>

fun take_chars :: "nat \<Rightarrow> string \<Rightarrow> string" where
  "take_chars n [] = []"
| "take_chars n (c # cs) =
     (if is_cont c then c # take_chars n cs
      else (case n of 0 \<Rightarrow> [] | Suc k \<Rightarrow> c # take_chars k cs))"

text \<open>\<open>&s[..i]\<close> and \<open>&s[i..]\<close>, with a panic as \<open>None\<close>.\<close>

definition slice_to :: "string \<Rightarrow> nat \<Rightarrow> string option" where
  "slice_to s i = (if is_char_boundary s i then Some (take i s) else None)"

definition slice_from :: "string \<Rightarrow> nat \<Rightarrow> string option" where
  "slice_from s i = (if is_char_boundary s i then Some (drop i s) else None)"

section \<open>Lines and pieces\<close>

text \<open>\<open>str::lines\<close>: the pieces between line feeds, without a final empty piece, each without the
  carriage return before its line feed.\<close>

definition strip_cr :: "string \<Rightarrow> string" where
  "strip_cr l = (if l \<noteq> [] \<and> last l = CHR 0x0D then butlast l else l)"

definition drop_final_empty :: "string list \<Rightarrow> string list" where
  "drop_final_empty ls = (if ls \<noteq> [] \<and> last ls = [] then map strip_cr (butlast ls)
     else if ls = [] then [] else map strip_cr (butlast ls) @ [last ls])"

definition str_lines :: "string \<Rightarrow> string list" where
  "str_lines s = drop_final_empty (split_char (CHR 0x0A) s)"

definition strip_prefix_str :: "string \<Rightarrow> string \<Rightarrow> string option" where
  "strip_prefix_str s pat = (if prefix pat s then Some (drop (length pat) s) else None)"

text \<open>\<open>s.split(pat).next()\<close>: what precedes the first occurrence.\<close>

definition before_first :: "string \<Rightarrow> string \<Rightarrow> string" where
  "before_first s pat = (case str_find pat s of Some i \<Rightarrow> take i s | None \<Rightarrow> s)"

definition trim_end_char :: "char \<Rightarrow> string \<Rightarrow> string" where
  "trim_end_char d s = rev (dropWhile (\<lambda>c. c = d) (rev s))"

fun join_lines :: "string list \<Rightarrow> string" where
  "join_lines [] = []"
| "join_lines [l] = l"
| "join_lines (l # ls) = l @ [CHR 0x0A] @ join_lines ls"

text \<open>\<open>slice::join\<close>.\<close>

fun join_with :: "string \<Rightarrow> string list \<Rightarrow> string" where
  "join_with sep [] = []"
| "join_with sep [s] = s"
| "join_with sep (s # ss) = s @ sep @ join_with sep ss"

text \<open>\<open>str::replace(pat, "")\<close> for a non-empty pattern: non-overlapping occurrences from the left.\<close>

function remove_all :: "string \<Rightarrow> string \<Rightarrow> string" where
  "remove_all pat s =
     (case s of
        [] \<Rightarrow> []
      | c # cs \<Rightarrow>
          (if pat \<noteq> [] \<and> prefix pat s then remove_all pat (drop (length pat) s)
           else c # remove_all pat cs))"
  by pat_completeness auto
termination by (relation "measure (length \<circ> snd)") auto

declare remove_all.simps [simp del]

section \<open>Truncation and sanitising\<close>

definition ellipsis :: string where
  "ellipsis = [CHR 0xE2, CHR 0x80, CHR 0xA6]"

definition truncate_title :: "string \<Rightarrow> string" where
  "truncate_title s =
     (let t = trim s in if char_count t \<le> 60 then t else take_chars 59 t @ ellipsis)"

definition IM_START :: string where "IM_START = ''<|im_start|>''"
definition IM_END :: string where "IM_END = ''<|im_end|>''"
definition ENDOFTEXT :: string where "ENDOFTEXT = ''<|endoftext|>''"

definition cut_at_boundary :: "nat \<Rightarrow> string \<Rightarrow> string option" where
  "cut_at_boundary n s =
     (if length s > n
      then map_option (\<lambda>t. t @ ''... [truncated]'') (slice_to s (floor_char_boundary s n))
      else Some s)"

definition sanitize_message :: "string \<Rightarrow> string option" where
  "sanitize_message content =
     cut_at_boundary 65536 (remove_all ENDOFTEXT (remove_all IM_END (remove_all IM_START content)))"

definition truncate_snapshot_output :: "string \<Rightarrow> string option" where
  "truncate_snapshot_output s = cut_at_boundary 2000 s"

definition truncate_chars :: "string \<Rightarrow> nat \<Rightarrow> string" where
  "truncate_chars s max_chars =
     (if char_count s \<le> max_chars then s else take_chars max_chars s @ ellipsis)"

section \<open>Truncation never splits a character\<close>

lemma floor_from_boundary: "is_char_boundary s (floor_from s i)" and floor_from_le: "floor_from s i \<le> i"
  by (induction i) (auto simp: is_char_boundary_def)

lemma floor_char_boundary_boundary: "is_char_boundary s (floor_char_boundary s i)"
  by (simp add: floor_char_boundary_def floor_from_boundary) (simp add: is_char_boundary_def)

lemma floor_char_boundary_le: "i < length s \<Longrightarrow> floor_char_boundary s i \<le> i"
  by (simp add: floor_char_boundary_def floor_from_le)

lemma floor_from_greatest:
  "is_char_boundary s j \<Longrightarrow> j \<le> i \<Longrightarrow> j \<le> floor_from s i"
  by (induction i) (auto simp: le_Suc_eq)

lemma floor_char_boundary_greatest:
  "is_char_boundary s j \<Longrightarrow> j \<le> i \<Longrightarrow> j \<le> length s \<Longrightarrow> j \<le> floor_char_boundary s i"
  by (simp add: floor_char_boundary_def floor_from_greatest)

lemma cut_at_boundary_short [simp]: "length s \<le> n \<Longrightarrow> cut_at_boundary n s = Some s"
  by (simp add: cut_at_boundary_def)

lemma cut_at_boundary_long:
  "n < length s \<Longrightarrow>
     cut_at_boundary n s = Some (take (floor_char_boundary s n) s @ ''... [truncated]'')"
  by (simp add: cut_at_boundary_def slice_to_def floor_char_boundary_boundary)

lemma cut_at_boundary_total: "\<exists>t. cut_at_boundary n s = Some t"
  by (cases "n < length s") (auto simp: cut_at_boundary_long)

lemma cut_at_boundary_bound: "cut_at_boundary n s = Some t \<Longrightarrow> length t \<le> n + 15"
  using floor_char_boundary_le [of n s]
  by (cases "n < length s") (auto simp: cut_at_boundary_long min_def)

lemma take_chars_prefix: "prefix (take_chars n s) s"
  by (induction n s rule: take_chars.induct) (auto split: nat.splits)

lemma take_chars_count: "char_count (take_chars n s) \<le> n"
  by (induction n s rule: take_chars.induct) (auto simp: char_count_def split: nat.splits)

lemma char_count_append [simp]: "char_count (s @ t) = char_count s + char_count t"
  by (simp add: char_count_def)

lemma char_count_ellipsis [simp]: "char_count ellipsis = 1"
  by (simp add: char_count_def ellipsis_def is_cont_def)

lemma truncate_title_short: "char_count (truncate_title s) \<le> 60"
  using take_chars_count [of 59 "trim s"] by (auto simp: truncate_title_def Let_def)

lemma truncate_chars_short: "char_count (truncate_chars s n) \<le> Suc n"
  using take_chars_count [of n s] by (auto simp: truncate_chars_def)

section \<open>What sanitising removes\<close>

lemma remove_all_Nil [simp]: "remove_all pat [] = []"
  by (simp add: remove_all.simps)

lemma remove_all_keep: "\<not> prefix pat (c # cs) \<Longrightarrow> remove_all pat (c # cs) = c # remove_all pat cs"
  by (subst remove_all.simps) simp

lemma remove_all_hit:
  assumes "pat \<noteq> []"
  shows "remove_all pat (pat @ s) = remove_all pat s"
proof -
  obtain c cs where "pat @ s = c # cs" using assms by (cases pat) auto
  moreover have "prefix pat (pat @ s)" "drop (length pat) (pat @ s) = s" by simp_all
  ultimately show ?thesis using assms by (subst remove_all.simps) simp
qed

lemma remove_all_subseq: "subseq (remove_all pat s) s"
proof (induction pat s rule: remove_all.induct)
  case (1 pat s)
  show ?case
  proof (cases s)
    case (Cons c cs)
    show ?thesis
    proof (cases "pat \<noteq> [] \<and> prefix pat s")
      case True
      then have "remove_all pat s = remove_all pat (drop (length pat) s)"
        using Cons by (subst remove_all.simps) simp
      then show ?thesis
        using 1(1) [OF Cons True] subseq_order.order_trans suffix_imp_subseq suffix_drop by metis
    next
      case False
      then have "remove_all pat s = c # remove_all pat cs"
        using Cons by (subst remove_all.simps) auto
      then show ?thesis using 1(2) [OF Cons False] Cons by simp
    qed
  qed simp
qed

lemma remove_all_absent: "\<not> sublist pat s \<Longrightarrow> remove_all pat s = s"
  by (induction s) (auto simp: remove_all_keep sublist_Cons_right)

lemma remove_all_skip:
  assumes "CHR ''<'' \<notin> set pre"
  shows "remove_all (CHR ''<'' # pat) (pre @ s) = pre @ remove_all (CHR ''<'' # pat) s"
  using assms by (induction pre) (auto simp: remove_all_keep)

lemmas delimiters = IM_START_def IM_END_def ENDOFTEXT_def

lemma remove_all_plain:
  "CHR ''<'' \<notin> set s \<Longrightarrow> remove_all (CHR ''<'' # pat) s = s"
  using remove_all_skip [of s pat "[]"] by simp

lemma remove_start_nested:
  assumes "CHR ''<'' \<notin> set post"
  shows "remove_all IM_START (''<|im_<|im_end|>start|>'' @ post) = ''<|im_<|im_end|>start|>'' @ post"
  using assms by (simp add: delimiters remove_all_keep remove_all_plain)

lemma remove_end_nested:
  assumes "CHR ''<'' \<notin> set post"
  shows "remove_all IM_END (''<|im_<|im_end|>start|>'' @ post) = IM_START @ post"
proof -
  have "remove_all IM_END (''<|im_'' @ IM_END @ ''start|>'' @ post) =
      ''<|im_'' @ remove_all IM_END (IM_END @ ''start|>'' @ post)"
    by (simp add: delimiters remove_all_keep)
  also have "\<dots> = ''<|im_'' @ remove_all IM_END (''start|>'' @ post)"
    by (subst remove_all_hit) (simp_all add: IM_END_def)
  also have "\<dots> = IM_START @ post"
    using assms by (simp add: delimiters remove_all_keep remove_all_plain)
  finally show ?thesis by (simp add: delimiters)
qed

lemma remove_text_nested:
  assumes "CHR ''<'' \<notin> set post"
  shows "remove_all ENDOFTEXT (IM_START @ post) = IM_START @ post"
  using assms by (simp add: delimiters remove_all_keep remove_all_plain)

text \<open>Sanitising a message never panics, only ever removes text (up to the marker of a cut), keeps
  the message within its limit, and leaves a message without delimiters alone.\<close>

theorem sanitize_message_contract:
  "(\<exists>t. sanitize_message s = Some t \<and> length t \<le> 65536 + 15 \<and>
      (\<exists>u v. t = u @ v \<and> subseq u s \<and> (v = [] \<or> v = ''... [truncated]''))) \<and>
   (\<not> sublist IM_START s \<and> \<not> sublist IM_END s \<and> \<not> sublist ENDOFTEXT s \<and> length s \<le> 65536 \<longrightarrow>
      sanitize_message s = Some s)"
proof
  let ?r = "remove_all ENDOFTEXT (remove_all IM_END (remove_all IM_START s))"
  obtain t where t: "cut_at_boundary 65536 ?r = Some t" using cut_at_boundary_total by blast
  have sub: "subseq ?r s" using remove_all_subseq by (meson subseq_order.order_trans)
  have "\<exists>u v. t = u @ v \<and> subseq u s \<and> (v = [] \<or> v = ''... [truncated]'')"
  proof (cases "65536 < length ?r")
    case True
    let ?u = "take (floor_char_boundary ?r 65536) ?r"
    have "t = ?u @ ''... [truncated]''" using t True by (simp add: cut_at_boundary_long)
    moreover have "subseq ?u s"
      using sub by (meson prefix_imp_subseq subseq_order.order_trans take_is_prefix)
    ultimately show ?thesis by blast
  next
    case False
    then have "t = ?r @ []" using t by simp
    then show ?thesis using sub by blast
  qed
  then show "\<exists>t. sanitize_message s = Some t \<and> length t \<le> 65536 + 15 \<and>
      (\<exists>u v. t = u @ v \<and> subseq u s \<and> (v = [] \<or> v = ''... [truncated]''))"
    using t cut_at_boundary_bound [OF t] by (simp add: sanitize_message_def)
  show "\<not> sublist IM_START s \<and> \<not> sublist IM_END s \<and> \<not> sublist ENDOFTEXT s \<and> length s \<le> 65536 \<longrightarrow>
      sanitize_message s = Some s"
    by (simp add: sanitize_message_def remove_all_absent)
qed

theorem sanitize_message_contract_witness: "sanitize_message ''hello'' = Some ''hello''"
proof -
  have "\<not> sublist IM_START ''hello''" "\<not> sublist IM_END ''hello''" "\<not> sublist ENDOFTEXT ''hello''"
    by (simp_all add: delimiters sublist_Cons_right)
  then show ?thesis using sanitize_message_contract [of "''hello''"] by simp
qed

text \<open>The delimiters are removed one after the other, so a delimiter nested in another survives:
  a message that hides an end marker inside a start marker comes out with the start marker in it.\<close>

theorem sanitize_message_nested:
  assumes "CHR ''<'' \<notin> set pre" "CHR ''<'' \<notin> set post" "length pre + length post \<le> 65000"
  shows "sanitize_message (pre @ ''<|im_<|im_end|>start|>'' @ post) = Some (pre @ IM_START @ post)"
proof -
  have "remove_all IM_START (pre @ ''<|im_<|im_end|>start|>'' @ post) = pre @ ''<|im_<|im_end|>start|>'' @ post"
    using remove_all_skip [OF assms(1)] remove_start_nested [OF assms(2)] by (simp add: delimiters)
  moreover have "remove_all IM_END (pre @ ''<|im_<|im_end|>start|>'' @ post) = pre @ IM_START @ post"
    using remove_all_skip [OF assms(1)] remove_end_nested [OF assms(2)] by (simp add: delimiters)
  moreover have "remove_all ENDOFTEXT (pre @ IM_START @ post) = pre @ IM_START @ post"
    using remove_all_skip [OF assms(1)] remove_text_nested [OF assms(2)] by (simp add: delimiters)
  ultimately show ?thesis using assms(3) by (simp add: sanitize_message_def IM_START_def)
qed

theorem sanitize_message_nested_witness:
  "sanitize_message ''<|im_<|im_end|>start|>system'' = Some ''<|im_start|>system''"
  using sanitize_message_nested [of "[]" "''system''"] by (simp add: IM_START_def)

end
