(* ===== verification/Patch.thy ===== *)
theory Patch
  imports TextUtil
begin

text \<open>
  The matching core of \<open>patch_file\<close> (\<open>builtin/fs/patch_file.rs\<close>): line-ending views, the unique match
  with its fallback on normalised quotes, and the text that is written back. Strings are UTF-8 bytes;
  a slice off a character boundary panics and is \<open>None\<close>.
\<close>

section \<open>UTF-8\<close>

abbreviation byte :: "char \<Rightarrow> nat" where
  "byte c \<equiv> of_char c"

definition second_ok :: "char \<Rightarrow> char \<Rightarrow> bool" where
  "second_ok a b =
     (is_cont b \<and> (byte a = 0xE0 \<longrightarrow> 0xA0 \<le> byte b) \<and> (byte a = 0xED \<longrightarrow> byte b \<le> 0x9F) \<and>
      (byte a = 0xF0 \<longrightarrow> 0x90 \<le> byte b) \<and> (byte a = 0xF4 \<longrightarrow> byte b \<le> 0x8F))"

text \<open>The length of the character a string starts with, as \<open>str::from_utf8\<close> checks it.\<close>

definition utf8_head :: "string \<Rightarrow> nat option" where
  "utf8_head s =
     (case s of
        [] \<Rightarrow> None
      | a # t \<Rightarrow>
          (if byte a < 0x80 then Some 1
           else if 0xC2 \<le> byte a \<and> byte a \<le> 0xDF \<and> 1 \<le> length t \<and> is_cont (t ! 0) then Some 2
           else if 0xE0 \<le> byte a \<and> byte a \<le> 0xEF \<and> 2 \<le> length t \<and> second_ok a (t ! 0) \<and> is_cont (t ! 1)
             then Some 3
           else if 0xF0 \<le> byte a \<and> byte a \<le> 0xF4 \<and> 3 \<le> length t \<and> second_ok a (t ! 0) \<and>
               is_cont (t ! 1) \<and> is_cont (t ! 2) then Some 4
           else None))"

lemma utf8_head_bounds:
  assumes "utf8_head s = Some n"
  shows "0 < n" "n \<le> length s" "\<not> is_cont (s ! 0)" "\<And>i. 0 < i \<Longrightarrow> i < n \<Longrightarrow> is_cont (s ! i)"
proof -
  obtain a t where s: "s = a # t" using assms by (cases s) (auto simp: utf8_head_def)
  have h: "n = 1 \<and> byte a < 0x80 \<or>
      n = 2 \<and> 0xC2 \<le> byte a \<and> 1 \<le> length t \<and> is_cont (t ! 0) \<or>
      n = 3 \<and> 0xE0 \<le> byte a \<and> 2 \<le> length t \<and> is_cont (t ! 0) \<and> is_cont (t ! 1) \<or>
      n = 4 \<and> 0xF0 \<le> byte a \<and> 3 \<le> length t \<and> is_cont (t ! 0) \<and> is_cont (t ! 1) \<and> is_cont (t ! 2)"
    using assms s by (auto simp: utf8_head_def second_ok_def split: if_splits)
  show "0 < n" "n \<le> length s" using h s by auto
  show "\<not> is_cont (s ! 0)" using h s by (auto simp: is_cont_def Let_def)
  fix i :: nat assume "0 < i" "i < n"
  then have "i = 1 \<or> i = 2 \<or> i = 3" "i < n" using h by auto
  then show "is_cont (s ! i)" using h s by (auto simp: nth_Cons')
qed

function utf8_valid :: "string \<Rightarrow> bool" where
  "utf8_valid s =
     (s = [] \<or> (case utf8_head s of Some n \<Rightarrow> utf8_valid (drop n s) | None \<Rightarrow> False))"
  by pat_completeness auto
termination
proof (relation "measure length")
  fix s n assume "utf8_head s = Some n"
  then show "(drop n s, s) \<in> measure length" using utf8_head_bounds(1,2) [of s n] by simp
qed simp

declare utf8_valid.simps [simp del]

lemma utf8_valid_Nil [simp]: "utf8_valid []"
  by (simp add: utf8_valid.simps)

lemma utf8_valid_step: "s \<noteq> [] \<Longrightarrow> utf8_valid s \<longleftrightarrow> (\<exists>n. utf8_head s = Some n \<and> utf8_valid (drop n s))"
  by (subst utf8_valid.simps) (cases "utf8_head s"; simp)

lemma utf8_valid_hd: "utf8_valid s \<Longrightarrow> s \<noteq> [] \<Longrightarrow> \<not> is_cont (s ! 0)"
  using utf8_head_bounds(3) [of s] utf8_valid_step [of s] by blast

lemma utf8_head_iff:
  "utf8_head (a # t) = Some n \<longleftrightarrow>
     n = 1 \<and> byte a < 0x80 \<or>
     n = 2 \<and> 0xC2 \<le> byte a \<and> byte a \<le> 0xDF \<and> 1 \<le> length t \<and> is_cont (t ! 0) \<or>
     n = 3 \<and> 0xE0 \<le> byte a \<and> byte a \<le> 0xEF \<and> 2 \<le> length t \<and> second_ok a (t ! 0) \<and> is_cont (t ! 1) \<or>
     n = 4 \<and> 0xF0 \<le> byte a \<and> byte a \<le> 0xF4 \<and> 3 \<le> length t \<and> second_ok a (t ! 0) \<and>
       is_cont (t ! 1) \<and> is_cont (t ! 2)"
  unfolding utf8_head_def list.case by (cases "byte a < 0x80"; cases "byte a \<le> 0xDF"; cases "byte a \<le> 0xEF") (auto simp del: One_nat_def)

lemma nth_front:
  "1 \<le> length u \<Longrightarrow> (u @ t) ! 0 = u ! 0"
  "2 \<le> length u \<Longrightarrow> (u @ t) ! 0 = u ! 0 \<and> (u @ t) ! 1 = u ! 1"
  "3 \<le> length u \<Longrightarrow> (u @ t) ! 0 = u ! 0 \<and> (u @ t) ! 1 = u ! 1 \<and> (u @ t) ! 2 = u ! 2"
  by (auto simp: nth_append)

lemma utf8_head_append: "utf8_head s = Some n \<Longrightarrow> utf8_head (s @ t) = Some n"
proof (cases s)
  case (Cons a u)
  assume "utf8_head s = Some n"
  then show ?thesis unfolding Cons append_Cons utf8_head_iff
    using nth_front [of u t] by (elim disjE) (simp_all only: length_append, auto simp del: One_nat_def)
qed (simp add: utf8_head_def)

lemma utf8_head_take:
  assumes "utf8_head (s @ t) = Some n" "n \<le> length s"
  shows "utf8_head s = Some n"
proof -
  obtain a u where s: "s = a # u" using assms utf8_head_bounds(1) [OF assms(1)] by (cases s) auto
  show ?thesis using assms unfolding s append_Cons utf8_head_iff
    using nth_front [of u t] by (elim disjE) (auto simp del: One_nat_def)
qed

lemma utf8_valid_append: "utf8_valid s \<Longrightarrow> utf8_valid (s @ t) \<longleftrightarrow> utf8_valid t"
proof (induction s rule: utf8_valid.induct)
  case (1 s)
  show ?case
  proof (cases "s = []")
    case False
    then obtain n where n: "utf8_head s = Some n" "utf8_valid (drop n s)"
      using 1(2) utf8_valid_step by blast
    then have "utf8_valid (drop n s @ t) \<longleftrightarrow> utf8_valid t" using 1(1) by blast
    moreover have "drop n (s @ t) = drop n s @ t" using utf8_head_bounds(2) [OF n(1)] by simp
    ultimately show ?thesis
      using utf8_head_append [OF n(1), of t] False utf8_valid_step [of "s @ t"] by simp
  qed simp
qed

text \<open>A valid string may be cut where a character starts.\<close>

lemma utf8_valid_cut:
  "utf8_valid (s @ t) \<Longrightarrow> t = [] \<or> \<not> is_cont (t ! 0) \<Longrightarrow> utf8_valid s"
proof (induction "length s" arbitrary: s rule: less_induct)
  case less
  show ?case
  proof (cases "s = []")
    case False
    then obtain n where n: "utf8_head (s @ t) = Some n" "utf8_valid (drop n (s @ t))"
      using less.prems(1) utf8_valid_step [of "s @ t"] by auto
    have le: "n \<le> length s"
    proof (rule ccontr)
      assume "\<not> n \<le> length s"
      then have "is_cont ((s @ t) ! length s)" "t \<noteq> []"
        using utf8_head_bounds(2,4) [OF n(1)] False by auto
      then show False using less.prems(2) by (simp add: nth_append)
    qed
    have "utf8_valid (drop n s)"
      using less.hyps [of "drop n s"] n(2) le less.prems(2) utf8_head_bounds(1) [OF n(1)] False by simp
    then show ?thesis using utf8_head_take [OF n(1) le] utf8_valid_step [OF False] by blast
  qed simp
qed

section \<open>Line endings\<close>

abbreviation LF_char :: char where "LF_char \<equiv> CHR 0x0A"
abbreviation CR_char :: char where "CR_char \<equiv> CHR 0x0D"

datatype line_endings = Lf | Crlf | Mixed

definition crlf_at :: "string \<Rightarrow> nat \<Rightarrow> bool" where
  "crlf_at s i = (s ! i = LF_char \<and> 0 < i \<and> s ! (i - 1) = CR_char)"

definition bare_lf_at :: "string \<Rightarrow> nat \<Rightarrow> bool" where
  "bare_lf_at s i = (s ! i = LF_char \<and> \<not> (0 < i \<and> s ! (i - 1) = CR_char))"

definition detect_line_endings :: "string \<Rightarrow> line_endings" where
  "detect_line_endings s =
     (let crlf = length (filter (crlf_at s) [0..<length s]);
          bare_lf = length (filter (bare_lf_at s) [0..<length s])
      in if crlf = 0 then Lf else if bare_lf = 0 then Crlf else Mixed)"

text \<open>\<open>str::replace\<close> of the two patterns the tool uses.\<close>

fun to_lf :: "string \<Rightarrow> string" where
  "to_lf [] = []"
| "to_lf [c] = [c]"
| "to_lf (c # d # s) = (if c = CR_char \<and> d = LF_char then LF_char # to_lf s else c # to_lf (d # s))"

fun to_crlf :: "string \<Rightarrow> string" where
  "to_crlf [] = []"
| "to_crlf (c # s) = (if c = LF_char then CR_char # LF_char # to_crlf s else c # to_crlf s)"

text \<open>The view a file of the given endings is matched in, and what is written back.\<close>

definition view_of :: "line_endings \<Rightarrow> string \<Rightarrow> string" where
  "view_of le s = (if le = Crlf then to_lf s else s)"

definition restore :: "line_endings \<Rightarrow> string \<Rightarrow> string" where
  "restore le s = (if le = Crlf then to_crlf s else s)"

section \<open>Quotes\<close>

function str_chars :: "string \<Rightarrow> string list" where
  "str_chars [] = []"
| "str_chars (c # s) = (c # takeWhile is_cont s) # str_chars (dropWhile is_cont s)"
  by pat_completeness auto
termination by (relation "measure length") (simp_all add: length_dropWhile_le le_imp_less_Suc)

definition norm_quote :: "string \<Rightarrow> string" where
  "norm_quote c =
     (if c = [CHR 0xE2, CHR 0x80, CHR 0x98] \<or> c = [CHR 0xE2, CHR 0x80, CHR 0x99] then [CHR 0x27]
      else if c = [CHR 0xE2, CHR 0x80, CHR 0x9C] \<or> c = [CHR 0xE2, CHR 0x80, CHR 0x9D] then [CHR 0x22]
      else c)"

fun quote_map :: "nat \<Rightarrow> nat \<Rightarrow> string list \<Rightarrow> (nat \<times> nat) list" where
  "quote_map n k [] = [(n, k)]"
| "quote_map n k (c # cs) = (n, k) # quote_map (n + length (norm_quote c)) (k + length c) cs"

definition normalize_quotes :: "string \<Rightarrow> string \<times> (nat \<times> nat) list" where
  "normalize_quotes s = (concat (map norm_quote (str_chars s)), quote_map 0 0 (str_chars s))"

definition orig_byte :: "(nat \<times> nat) list \<Rightarrow> nat \<Rightarrow> nat option" where
  "orig_byte m b = map_option snd (find (\<lambda>(n, _). n = b) m)"

section \<open>Matching\<close>

text \<open>\<open>str::match_indices\<close>: occurrences from the left that do not overlap; the empty pattern occurs at
  every character boundary.\<close>

function match_from :: "string \<Rightarrow> nat \<Rightarrow> string \<Rightarrow> nat list" where
  "match_from pat i [] = []"
| "match_from pat i (c # s) =
     (if pat \<noteq> [] \<and> prefix pat (c # s)
      then i # match_from pat (i + length pat) (drop (length pat) (c # s))
      else match_from pat (Suc i) s)"
  by pat_completeness auto
termination by (relation "measure (length \<circ> snd \<circ> snd)") auto

definition match_indices :: "string \<Rightarrow> string \<Rightarrow> nat list" where
  "match_indices s pat =
     (if pat = [] then filter (is_char_boundary s) [0..<Suc (length s)] else match_from pat 0 s)"

record found =
  f_start :: nat
  f_end :: nat
  f_quote_fallback :: bool

datatype match_result = One found | NotFound | Multiple nat nat bool

definition quote_fallback :: "string \<Rightarrow> string \<Rightarrow> match_result" where
  "quote_fallback view old =
     (case (normalize_quotes view, normalize_quotes old) of
        ((norm_view, m), (norm_old, _)) \<Rightarrow>
          (if norm_old = old \<and> norm_view = view then NotFound
           else (case match_indices norm_view norm_old of
                   [] \<Rightarrow> NotFound
                 | [ns] \<Rightarrow>
                     (case (orig_byte m ns, orig_byte m (ns + length norm_old)) of
                        (Some a, Some b) \<Rightarrow> One \<lparr>f_start = a, f_end = b, f_quote_fallback = True\<rparr>
                      | _ \<Rightarrow> NotFound)
                 | ns # ns2 # rest \<Rightarrow>
                     Multiple (2 + length rest) (case orig_byte m ns2 of Some b \<Rightarrow> b | None \<Rightarrow> 0) True)))"

definition find_unique :: "string \<Rightarrow> string \<Rightarrow> match_result" where
  "find_unique view old =
     (case match_indices view old of
        [] \<Rightarrow> quote_fallback view old
      | [i] \<Rightarrow> One \<lparr>f_start = i, f_end = i + length old, f_quote_fallback = False\<rparr>
      | i # j # rest \<Rightarrow> Multiple (2 + length rest) j False)"

text \<open>The text written back for a match.\<close>

definition patched_text :: "line_endings \<Rightarrow> string \<Rightarrow> string \<Rightarrow> found \<Rightarrow> string option" where
  "patched_text le view new f =
     (case (slice_to view (f_start f), slice_from view (f_end f)) of
        (Some a, Some b) \<Rightarrow> Some (restore le (a @ new @ b))
      | _ \<Rightarrow> None)"

section \<open>Failure messages\<close>

definition pad_left :: "nat \<Rightarrow> string \<Rightarrow> string" where
  "pad_left w s = replicate (w - length s) CHR '' '' @ s"

definition trim_end :: "string \<Rightarrow> string" where
  "trim_end s = rev (dropWhile is_whitespace (rev s))"

definition context_around :: "string \<Rightarrow> nat \<Rightarrow> string option" where
  "context_around view pos =
     map_option
       (\<lambda>front.
          (let line_no = length (filter (\<lambda>c. c = LF_char) front);
               lines = str_lines view
           in if lines = [] then []
              else (let start = line_no - 2;
                        last_line = min (line_no + 2) (length lines - 1)
                    in concat (map (\<lambda>i. LF_char # pad_left 4 (nat_to_string (Suc i)) @ ''| '' @
                                        trim_end (lines ! i))
                                   [start..<Suc last_line]))))
       (slice_to view pos)"

text \<open>\<open>split_inclusive\<close> on line feeds: every piece keeps its own.\<close>

fun split_inclusive :: "string \<Rightarrow> string list" where
  "split_inclusive [] = []"
| "split_inclusive (c # s) =
     (if c = LF_char then [c] # split_inclusive s
      else (case split_inclusive s of [] \<Rightarrow> [[c]] | l # ls \<Rightarrow> (c # l) # ls))"

fun common_prefix :: "string \<Rightarrow> string \<Rightarrow> nat" where
  "common_prefix (a # s) (b # t) = (if a = b then Suc (common_prefix s t) else 0)"
| "common_prefix _ _ = 0"

fun closest_scan :: "string \<Rightarrow> (nat \<times> nat) option \<Rightarrow> nat \<Rightarrow> string list \<Rightarrow> (nat \<times> nat) option" where
  "closest_scan needle best pos [] = best"
| "closest_scan needle best pos (line # ls) =
     (let txt = (if line \<noteq> [] \<and> last line = LF_char then butlast line else line);
          common = common_prefix txt needle;
          best1 = (if 6 \<le> common \<and> (case best of None \<Rightarrow> True | Some (_, b) \<Rightarrow> b < common)
                   then Some (pos, common) else best)
      in closest_scan needle best1 (pos + length line) ls)"

definition closest_match_pos :: "string \<Rightarrow> string \<Rightarrow> nat option" where
  "closest_match_pos view old =
     (case str_lines old of
        [] \<Rightarrow> None
      | needle # _ \<Rightarrow>
          (if length needle < 6 then None
           else map_option fst (closest_scan needle None 0 (split_inclusive view))))"

definition line_ending_hint :: "line_endings \<Rightarrow> string" where
  "line_ending_hint le =
     (case le of
        Mixed \<Rightarrow> LF_char # ''Note: the file has mixed line endings (CRLF + LF); matching is exact against raw bytes '' @
          [CHR 0xE2, CHR 0x80, CHR 0x94] @ '' copy the exact text from read_file output.''
      | Crlf \<Rightarrow> LF_char # ''Note: the file uses CRLF line endings; matching runs in a normalized LF view (the same view read_file shows).''
      | Lf \<Rightarrow> [])"

section \<open>Views of the line endings\<close>

lemma to_crlf_append [simp]: "to_crlf (a @ b) = to_crlf a @ to_crlf b"
  by (induction a) simp_all

lemma to_crlf_not_LF: "to_crlf s = c # t \<Longrightarrow> c \<noteq> LF_char"
  by (cases s) (auto split: if_splits)

lemma to_lf_to_crlf: "to_lf (to_crlf s) = s"
proof (induction s)
  case (Cons c s)
  show ?case
  proof (cases "to_crlf s")
    case Nil
    then show ?thesis using Cons by (cases s) (auto split: if_splits)
  next
    case (Cons d t)
    then show ?thesis using \<open>to_lf (to_crlf s) = s\<close> to_crlf_not_LF [OF Cons] by simp
  qed
qed simp

text \<open>Every line feed follows a carriage return, \<open>cr\<close> telling whether one came just before.\<close>

fun paired :: "bool \<Rightarrow> string \<Rightarrow> bool" where
  "paired cr [] = True"
| "paired cr (c # s) = ((c = LF_char \<longrightarrow> cr) \<and> paired (c = CR_char) s)"

lemma paired_nth:
  "paired cr s \<longleftrightarrow> (\<forall>i < length s. s ! i = LF_char \<longrightarrow> (if i = 0 then cr else s ! (i - 1) = CR_char))"
proof (induction s arbitrary: cr)
  case (Cons c s)
  have "(if i = 0 then c = CR_char else s ! (i - 1) = CR_char) \<longleftrightarrow> (c # s) ! i = CR_char" for i
    by (cases i) simp_all
  then show ?case unfolding paired.simps Cons.IH by (simp add: All_less_Suc2)
qed simp

lemma to_crlf_to_lf: "paired False s \<Longrightarrow> to_crlf (to_lf s) = s"
  by (induction s rule: to_lf.induct) (auto split: if_splits)

lemma detect_Crlf: "detect_line_endings s = Crlf \<Longrightarrow> paired False s"
  unfolding paired_nth detect_line_endings_def Let_def bare_lf_at_def
  by (auto simp: filter_empty_conv split: if_splits)

lemma restore_view: "restore (detect_line_endings raw) (view_of (detect_line_endings raw) raw) = raw"
  by (auto simp: restore_def view_of_def intro!: to_crlf_to_lf detect_Crlf)

lemma restore_append [simp]: "restore le (a @ b) = restore le a @ restore le b"
  by (simp add: restore_def)

text \<open>The two views are faithful. For a file whose line endings are all carriage return and line feed,
  what is written back from the view that is matched in is the file, byte for byte; for any file the
  text that is restored reads back as the view it came from.\<close>

theorem line_ending_round_trip:
  "restore (detect_line_endings raw) (view_of (detect_line_endings raw) raw) = raw \<and>
   view_of le (restore le view) = view"
  using restore_view by (simp add: view_of_def restore_def to_lf_to_crlf)

text \<open>The view of a valid text is valid.\<close>

lemma to_lf_front: "CR_char \<notin> set h \<Longrightarrow> to_lf (h @ t) = h @ to_lf t"
proof (induction h)
  case (Cons c h)
  then show ?case by (cases "h @ t") auto
qed simp

lemma utf8_head_ascii: "byte c < 0x80 \<Longrightarrow> utf8_head (c # s) = Some 1"
  by (simp add: utf8_head_def)

lemma utf8_valid_ascii: "byte c < 0x80 \<Longrightarrow> utf8_valid (c # s) \<longleftrightarrow> utf8_valid s"
  using utf8_valid_step [of "c # s"] utf8_head_ascii [of c s] by simp

lemma utf8_head_high:
  assumes "utf8_head s = Some n" "\<not> byte (s ! 0) < 0x80"
  shows "CR_char \<notin> set (take n s)"
proof
  assume "CR_char \<in> set (take n s)"
  then obtain i where i: "i < n" "i < length s" "s ! i = CR_char"
    by (auto simp: in_set_conv_nth)
  then show False
  proof (cases "i = 0")
    case True
    then show ?thesis using i assms(2) by simp
  next
    case False
    then have "is_cont (s ! i)" using utf8_head_bounds(4) [OF assms(1), of i] i(1) by blast
    then show ?thesis using i by (simp add: is_cont_def)
  qed
qed

lemma utf8_valid_to_lf: "utf8_valid s \<Longrightarrow> utf8_valid (to_lf s)"
proof (induction "length s" arbitrary: s rule: less_induct)
  case less
  show ?case
  proof (cases s)
    case (Cons c t)
    obtain n where n: "utf8_head s = Some n" "utf8_valid (drop n s)"
      using less.prems utf8_valid_step [of s] Cons by auto
    note b = utf8_head_bounds(1,2) [OF n(1)]
    show ?thesis
    proof (cases "byte c < 0x80")
      case False
      then have "CR_char \<notin> set (take n s)" using utf8_head_high [OF n(1)] Cons by simp
      then have "to_lf s = take n s @ to_lf (drop n s)" by (metis append_take_drop_id to_lf_front)
      moreover have "utf8_valid (to_lf (drop n s))" using less.hyps [of "drop n s"] n(2) b by simp
      moreover have "utf8_valid (take n s)"
      proof -
        have "utf8_head (take n s) = Some n"
          using utf8_head_take [of "take n s" "drop n s" n] n(1) b by simp
        then show ?thesis using b by (subst utf8_valid.simps) simp
      qed
      ultimately show ?thesis by (simp add: utf8_valid_append)
    next
      case True
      then have t: "utf8_valid t" using less.prems Cons utf8_valid_ascii by blast
      show ?thesis
      proof (cases t)
        case Nil
        then show ?thesis using Cons less.prems by simp
      next
        fix d u assume u: "t = d # u"
        show ?thesis
        proof (cases "c = CR_char \<and> d = LF_char")
          case True
          then have "utf8_valid u" using t u utf8_valid_ascii [of d u] by simp
          then show ?thesis using less.hyps [of u] True Cons u by (simp add: utf8_valid_ascii)
        next
          case False
          then show ?thesis using less.hyps [of t] t True Cons u by (auto simp: utf8_valid_ascii)
        qed
      qed
    qed
  qed simp
qed

lemma utf8_valid_view: "utf8_valid s \<Longrightarrow> utf8_valid (view_of le s)"
  by (simp add: view_of_def utf8_valid_to_lf)

section \<open>Matches\<close>

definition occurs_at :: "string \<Rightarrow> string \<Rightarrow> nat \<Rightarrow> bool" where
  "occurs_at pat s i = (i \<le> length s \<and> prefix pat (drop i s))"

lemma occurs_at_split: "occurs_at pat s i \<longleftrightarrow> (\<exists>a b. s = a @ pat @ b \<and> length a = i)"
proof
  assume o: "occurs_at pat s i"
  then obtain b where "drop i s = pat @ b" by (auto simp: occurs_at_def prefix_def)
  then have "s = take i s @ pat @ b" "length (take i s) = i"
    using o by (metis append_take_drop_id, simp add: occurs_at_def)
  then show "\<exists>a b. s = a @ pat @ b \<and> length a = i" by blast
qed (auto simp: occurs_at_def)

lemma match_from_occurs:
  "k \<in> set (match_from pat i s) \<Longrightarrow> i \<le> k \<and> occurs_at pat s (k - i)"
proof (induction pat i s rule: match_from.induct)
  case (2 pat i c s)
  show ?case
  proof (cases "pat \<noteq> [] \<and> prefix pat (c # s)")
    case True
    then consider "k = i" | "k \<in> set (match_from pat (i + length pat) (drop (length pat) (c # s)))"
      using "2.prems" by auto
    then show ?thesis
    proof cases
      case 1
      then show ?thesis using True by (simp add: occurs_at_def)
    next
      assume "k \<in> set (match_from pat (i + length pat) (drop (length pat) (c # s)))"
      from "2.IH"(1) [OF True this] show ?thesis using prefix_length_le [OF conjunct2 [OF True]]
        by (auto simp: occurs_at_def add.commute)
    qed
  next
    case False
    then have "k \<in> set (match_from pat (Suc i) s)" using "2.prems" by auto
    from "2.IH"(2) [OF False this] show ?thesis
      by (auto simp: occurs_at_def Suc_diff_le drop_Cons')
  qed
qed simp

lemma match_from_apart: "sorted_wrt (\<lambda>a b. a + length pat \<le> b) (match_from pat i s)"
proof (induction pat i s rule: match_from.induct)
  case (2 pat i c s)
  then show ?case using match_from_occurs [of _ pat "i + length pat" "drop (length pat) (c # s)"] by auto
qed simp

text \<open>Every occurrence overlaps one that was reported and does not start before it.\<close>

lemma match_from_cover:
  "pat \<noteq> [] \<Longrightarrow> occurs_at pat s j \<Longrightarrow> \<exists>k \<in> set (match_from pat i s). k \<le> i + j \<and> i + j < k + length pat"
proof (induction pat i s arbitrary: j rule: match_from.induct)
  case (1 pat i)
  then show ?case by (simp add: occurs_at_def)
next
  case (2 pat i c s)
  show ?case
  proof (cases "prefix pat (c # s)")
    case True
    show ?thesis
    proof (cases "j < length pat")
      case True
      then show ?thesis using \<open>prefix pat (c # s)\<close> "2.prems"(1) by auto
    next
      case False
      have "occurs_at pat (drop (length pat) (c # s)) (j - length pat)"
        using "2.prems"(2) False by (auto simp: occurs_at_def)
      from "2.IH"(1) [OF _ "2.prems"(1) this] True "2.prems"(1)
      show ?thesis using False by auto
    qed
  next
    case False
    then obtain m where j: "j = Suc m" using "2.prems"(2) by (cases j) (auto simp: occurs_at_def)
    then have "occurs_at pat s m" using "2.prems"(2) by (simp add: occurs_at_def)
    from "2.IH"(2) [OF _ "2.prems"(1) this] False show ?thesis using j by auto
  qed
qed

lemma match_indices_occurs: "k \<in> set (match_indices s pat) \<Longrightarrow> occurs_at pat s k"
  using match_from_occurs [of k pat 0 s] by (auto simp: match_indices_def occurs_at_def split: if_splits)

lemma match_indices_none: "match_indices s pat = [] \<Longrightarrow> \<not> sublist pat s"
proof
  assume m: "match_indices s pat = []" and "sublist pat s"
  then obtain a b where "s = a @ pat @ b" by (auto simp: sublist_def)
  then have "occurs_at pat s (length a)" by (auto simp: occurs_at_split)
  then show False using match_from_cover [of pat s "length a" 0] m
    by (auto simp: match_indices_def filter_empty_conv is_char_boundary_def split: if_splits)
qed

text \<open>What the search for a non-empty text reports. A direct match is an occurrence, and every other
  occurrence starts inside it; an ambiguity is reported only for two occurrences that do not overlap;
  and a text that is not found does not occur.\<close>

theorem find_unique_exact:
  assumes "old \<noteq> []"
  shows "(\<forall>f. find_unique view old = One f \<and> \<not> f_quote_fallback f \<longrightarrow>
      occurs_at old view (f_start f) \<and> f_end f = f_start f + length old \<and>
      (\<forall>j. occurs_at old view j \<longrightarrow> f_start f \<le> j \<and> j < f_end f)) \<and>
    (\<forall>n k. find_unique view old = Multiple n k False \<longrightarrow>
      (\<exists>i. i + length old \<le> k \<and> occurs_at old view i \<and> occurs_at old view k)) \<and>
    (find_unique view old = NotFound \<longrightarrow> \<not> sublist old view)"
proof (cases "match_indices view old" rule: remdups_adj.cases)
  case 1
  have "find_unique view old \<noteq> Multiple n k False" "find_unique view old = One f \<Longrightarrow> f_quote_fallback f" for n k f
    using 1 by (auto simp: find_unique_def quote_fallback_def split: prod.splits list.splits option.splits if_splits)
  then show ?thesis using match_indices_none [OF 1] by blast
next
  case (2 i)
  have "occurs_at old view i" using match_indices_occurs [of i view old] 2 by simp
  moreover have "i \<le> j \<and> j < i + length old" if "occurs_at old view j" for j
    using match_from_cover [OF assms that, of 0] 2 assms by (simp add: match_indices_def)
  ultimately show ?thesis using 2 by (auto simp: find_unique_def)
next
  case (3 i j rest)
  then have "i + length old \<le> j" using match_from_apart [of old 0 view] assms by (simp add: match_indices_def)
  moreover have "occurs_at old view i" "occurs_at old view j" using match_indices_occurs [of _ view old] 3 by auto
  ultimately show ?thesis using 3 by (auto simp: find_unique_def)
qed

theorem find_unique_exact_witness:
  "find_unique ''ababa'' ''aba'' = One \<lparr>f_start = 0, f_end = 3, f_quote_fallback = False\<rparr> \<and>
   occurs_at ''aba'' ''ababa'' 2 \<and> {j. occurs_at ''aba'' ''ababa'' j} \<subseteq> {0..<3}"
proof -
  have f: "find_unique ''ababa'' ''aba'' = One \<lparr>f_start = 0, f_end = 3, f_quote_fallback = False\<rparr>"
    by code_simp
  then show ?thesis using find_unique_exact [of "''aba''" "''ababa''"] by (auto simp: occurs_at_def)
qed

section \<open>Characters and quotes\<close>

fun chunks_ok :: "string list \<Rightarrow> bool" where
  "chunks_ok [] = True"
| "chunks_ok (c # cs) =
     (c \<noteq> [] \<and> list_all is_cont (tl c) \<and> (cs = [] \<or> \<not> is_cont (hd (hd cs))) \<and> chunks_ok cs)"

lemma dropWhile_hd: "dropWhile P s \<noteq> [] \<Longrightarrow> \<not> P (hd (dropWhile P s))"
  by (induction s) auto

lemma str_chars_hd: "str_chars s \<noteq> [] \<Longrightarrow> hd (hd (str_chars s)) = hd s"
  by (cases s) auto

lemma str_chars_Nil_iff: "str_chars s = [] \<longleftrightarrow> s = []"
  by (cases s) auto

lemma chunks_ok_str_chars: "chunks_ok (str_chars s)"
proof (induction s rule: str_chars.induct)
  case (2 c s)
  have "list_all is_cont (takeWhile is_cont s)" by (auto simp: list_all_iff dest: set_takeWhileD)
  moreover have "str_chars (dropWhile is_cont s) = [] \<or> \<not> is_cont (hd (hd (str_chars (dropWhile is_cont s))))"
    using str_chars_hd [of "dropWhile is_cont s"] dropWhile_hd [of is_cont s] str_chars_Nil_iff by metis
  ultimately show ?case using 2 by simp
qed simp

lemma chunks_ok_append: "chunks_ok (xs @ ys) \<Longrightarrow> chunks_ok xs \<and> chunks_ok ys"
proof (induction xs)
  case (Cons c xs)
  then show ?case by (cases xs) auto
qed simp

lemma concat_str_chars: "concat (str_chars s) = s"
  by (induction s rule: str_chars.induct) simp_all

lemma str_chars_concat: "chunks_ok cs \<Longrightarrow> str_chars (concat cs) = cs"
proof (induction cs)
  case (Cons c cs)
  then obtain h t where c: "c = h # t" by (cases c) auto
  have all: "list_all is_cont t" using Cons.prems c by simp
  have "concat cs = [] \<or> \<not> is_cont (hd (concat cs))"
    using Cons.prems by (cases cs) (auto simp: hd_append)
  then have "takeWhile is_cont (t @ concat cs) = t" "dropWhile is_cont (t @ concat cs) = concat cs"
    using all by (auto simp: list_all_iff takeWhile_append dropWhile_append3 dropWhile_append
        takeWhile_eq_Nil_iff dropWhile_eq_self_iff)
  then show ?case using Cons c by simp
qed simp

lemma norm_quote_nonempty: "c \<noteq> [] \<Longrightarrow> norm_quote c \<noteq> []"
  by (simp add: norm_quote_def)

lemma orig_byte_prefix:
  "orig_byte (quote_map n k cs) b = Some r \<Longrightarrow>
     \<exists>m \<le> length cs. b = n + length (concat (map norm_quote (take m cs))) \<and> r = k + length (concat (take m cs))"
proof (induction cs arbitrary: n k)
  case Nil
  then show ?case by (auto simp: orig_byte_def split: if_splits)
next
  case (Cons c cs)
  show ?case
  proof (cases "n = b")
    case True
    then show ?thesis using Cons.prems by (intro exI [of _ 0]) (simp add: orig_byte_def)
  next
    case False
    then have "orig_byte (quote_map (n + length (norm_quote c)) (k + length c) cs) b = Some r"
      using Cons.prems by (simp add: orig_byte_def)
    from Cons.IH [OF this] obtain m where "m \<le> length cs"
      "b = n + length (norm_quote c) + length (concat (map norm_quote (take m cs)))"
      "r = k + length c + length (concat (take m cs))" by blast
    then show ?thesis by (intro exI [of _ "Suc m"]) simp
  qed
qed

lemma norm_prefix_mono:
  assumes "chunks_ok cs" "q < p" "p \<le> length cs"
  shows "length (concat (map norm_quote (take q cs))) < length (concat (map norm_quote (take p cs)))"
proof -
  have "take p cs = take q cs @ take (p - q) (drop q cs)" using assms(2) by (metis le_add_diff_inverse less_imp_le take_add)
  moreover have "take (p - q) (drop q cs) \<noteq> []" using assms(2,3) by simp
  then obtain d ds where d: "take (p - q) (drop q cs) = d # ds" by (cases "take (p - q) (drop q cs)") auto
  moreover have "chunks_ok (d # ds)"
    using assms(1) d chunks_ok_append by (metis append_take_drop_id)
  then have "d \<noteq> []" by simp
  ultimately show ?thesis using norm_quote_nonempty by simp
qed

text \<open>Where a match on normalised quotes lies in the text itself.\<close>

lemma quote_fallback_split:
  assumes "quote_fallback view old = One f"
  shows "f_quote_fallback f" "\<exists>a m b. view = concat a @ concat m @ concat b \<and> str_chars view = a @ m @ b \<and>
    f_start f = length (concat a) \<and> f_end f = length (concat a) + length (concat m) \<and>
    concat (map norm_quote m) = fst (normalize_quotes old)"
proof -
  let ?cs = "str_chars view" and ?no = "fst (normalize_quotes old)"
  let ?nv = "concat (map norm_quote ?cs)"
  obtain ns where ns: "match_indices ?nv ?no = [ns]" and
    st: "orig_byte (quote_map 0 0 ?cs) ns = Some (f_start f)" and
    en: "orig_byte (quote_map 0 0 ?cs) (ns + length ?no) = Some (f_end f)" and qf: "f_quote_fallback f"
    using assms by (auto simp: quote_fallback_def normalize_quotes_def split: prod.splits list.splits option.splits if_splits)
  show "f_quote_fallback f" by (rule qf)
  obtain p where p: "p \<le> length ?cs" "ns = length (concat (map norm_quote (take p ?cs)))"
    "f_start f = length (concat (take p ?cs))" using orig_byte_prefix [OF st] by auto
  obtain q where q: "q \<le> length ?cs" "ns + length ?no = length (concat (map norm_quote (take q ?cs)))"
    "f_end f = length (concat (take q ?cs))" using orig_byte_prefix [OF en] by auto
  have pq: "p \<le> q" using norm_prefix_mono [OF chunks_ok_str_chars, of q p view] p q by force
  let ?m = "drop p (take q ?cs)"
  have tq: "take q ?cs = take p ?cs @ ?m" using pq by (metis append_take_drop_id min_absorb1 take_take)
  have cs: "?cs = take p ?cs @ ?m @ drop q ?cs" using tq by (metis append.assoc append_take_drop_id)
  have len: "length (concat (map norm_quote ?m)) = length ?no" using p(2) q(2) arg_cong [OF tq, of "\<lambda>x. length (concat (map norm_quote x))"] by simp
  obtain x y where xy: "?nv = x @ ?no @ y" "length x = ns"
    using match_indices_occurs [of ns ?nv ?no] ns occurs_at_split by (metis list.set_intros(1))
  have "?nv = concat (map norm_quote (take p ?cs)) @ concat (map norm_quote ?m) @ concat (map norm_quote (drop q ?cs))"
    using arg_cong [OF cs, of "\<lambda>x. concat (map norm_quote x)"] by simp
  then have "concat (map norm_quote ?m) = ?no" using xy len p(2) by (metis append_eq_append_conv)
  moreover have "view = concat (take p ?cs) @ concat ?m @ concat (drop q ?cs)"
    using arg_cong [OF cs, of concat] concat_str_chars [of view] by simp
  moreover have "f_end f = length (concat (take p ?cs)) + length (concat ?m)" using q(3) tq by (metis concat_append length_append)
  ultimately show "\<exists>a m b. view = concat a @ concat m @ concat b \<and> str_chars view = a @ m @ b \<and>
      f_start f = length (concat a) \<and> f_end f = length (concat a) + length (concat m) \<and>
      concat (map norm_quote m) = fst (normalize_quotes old)"
    using cs p(3) by blast
qed

lemma chunk_boundary:
  assumes "str_chars s = a @ b"
  shows "is_char_boundary s (length (concat a))"
proof -
  have s: "s = concat a @ concat b" using concat_str_chars [of s] assms by simp
  show ?thesis
  proof (cases "a = [] \<or> b = []")
    case True
    then show ?thesis using s by (auto simp: is_char_boundary_def)
  next
    case False
    then obtain d bs where b: "b = d # bs" by (cases b) auto
    have ok: "chunks_ok (a @ b)" using chunks_ok_str_chars [of s] assms by simp
    have "d \<noteq> []" using chunks_ok_append [OF ok] b by simp
    moreover have "\<not> is_cont (hd d)" using ok b False
    proof (induction a)
      case (Cons x xs)
      then show ?case by (cases xs) auto
    qed simp
    ultimately show ?thesis using s b by (cases d) (auto simp: is_char_boundary_def nth_append)
  qed
qed

section \<open>What a patch writes\<close>

lemma valid_cuts:
  assumes "utf8_valid (a @ old @ b)" "utf8_valid old" "is_char_boundary (a @ old @ b) (length a)"
  shows "is_char_boundary (a @ old @ b) (length a + length old)"
proof (cases "b = [] \<or> a = [] \<and> old = []")
  case True
  then show ?thesis by (auto simp: is_char_boundary_def)
next
  case False
  have "old @ b = [] \<or> \<not> is_cont ((old @ b) ! 0)"
  proof (cases "a = []")
    case True
    then show ?thesis using assms(1) utf8_valid_hd [of "old @ b"] by auto
  next
    case n: False
    then show ?thesis using assms(3) False by (auto simp: is_char_boundary_def nth_append)
  qed
  then have "utf8_valid a" using utf8_valid_cut [OF assms(1)] by blast
  then have "utf8_valid b" using assms(1,2) utf8_valid_append by blast
  then have "\<not> is_cont (b ! 0)" using utf8_valid_hd False by blast
  then show ?thesis using False by (auto simp: is_char_boundary_def nth_append)
qed

lemma direct_match_split:
  assumes "find_unique view old = One f" "\<not> f_quote_fallback f" "utf8_valid view" "utf8_valid old"
  shows "\<exists>a b. view = a @ old @ b \<and> f_start f = length a \<and> f_end f = length a + length old \<and>
    is_char_boundary view (f_start f) \<and> is_char_boundary view (f_end f)"
proof -
  obtain i where m: "match_indices view old = [i]" "f_start f = i" "f_end f = i + length old"
    using assms(1,2) quote_fallback_split(1) [of view old f]
    by (auto simp: find_unique_def split: list.splits)
  obtain a b where ab: "view = a @ old @ b" "length a = i"
    using match_indices_occurs [of i view old] m(1) by (auto simp: occurs_at_split)
  have "is_char_boundary view i"
  proof (cases "old = []")
    case True
    then have "i \<in> set (filter (is_char_boundary view) [0..<Suc (length view)])"
      using m(1) by (simp add: match_indices_def)
    then show ?thesis by (simp only: set_filter mem_Collect_eq)
  next
    case False
    then show ?thesis using utf8_valid_hd [OF assms(4)] ab by (auto simp: is_char_boundary_def nth_append)
  qed
  then show ?thesis using valid_cuts [of a old b] assms(3,4) ab m by auto
qed

text \<open>When the search succeeds, the file splits into what precedes the match, the match and what follows
  it, and the text written back is the same with the new text in place of the match.\<close>

lemma patch_splits:
  assumes "utf8_valid raw" "utf8_valid old_string"
    and "le = detect_line_endings raw" "old = view_of le old_string" "new = view_of le new_string"
    and "find_unique (view_of le raw) old = One f"
  shows "\<exists>a m b. raw = restore le a @ restore le m @ restore le b \<and>
    patched_text le (view_of le raw) new f = Some (restore le a @ restore le new @ restore le b) \<and>
    (if f_quote_fallback f
     then fst (normalize_quotes m) = fst (normalize_quotes old) \<and> \<not> sublist old (view_of le raw)
     else m = old)"
proof -
  let ?v = "view_of le raw"
  have raw: "raw = restore le ?v" using restore_view [of raw] assms(3) by simp
  have vv: "utf8_valid ?v" "utf8_valid old" using assms(1,2,4) utf8_valid_view by blast+
  show ?thesis
  proof (cases "f_quote_fallback f")
    case False
    then obtain a b where ab: "?v = a @ old @ b" "f_start f = length a" "f_end f = length a + length old"
      "is_char_boundary ?v (f_start f)" "is_char_boundary ?v (f_end f)"
      using direct_match_split [OF assms(6) _ vv] by blast
    then have "patched_text le ?v new f = Some (restore le a @ restore le new @ restore le b)"
      by (simp add: patched_text_def slice_to_def slice_from_def)
    then show ?thesis using raw ab(1) False by (intro exI [of _ a] exI [of _ old] exI [of _ b]) simp
  next
    case True
    then have none: "match_indices ?v old = []" and q: "quote_fallback ?v old = One f"
      using assms(6) by (auto simp: find_unique_def split: list.splits)
    obtain a m b where s: "?v = concat a @ concat m @ concat b" "str_chars ?v = a @ m @ b"
      "f_start f = length (concat a)" "f_end f = length (concat a) + length (concat m)"
      "concat (map norm_quote m) = fst (normalize_quotes old)" using quote_fallback_split(2) [OF q] by blast
    have "chunks_ok m" using chunks_ok_str_chars [of ?v] s(2) chunks_ok_append by metis
    then have n: "fst (normalize_quotes (concat m)) = fst (normalize_quotes old)"
      using s(5) by (simp add: normalize_quotes_def str_chars_concat)
    have "is_char_boundary ?v (f_start f)" using chunk_boundary [OF s(2)] s(3) by simp
    moreover have "is_char_boundary ?v (f_end f)"
      using chunk_boundary [of ?v "a @ m" b] s(2,4) by simp
    ultimately have "patched_text le ?v new f = Some (restore le (concat a) @ restore le new @ restore le (concat b))"
      using s(1,3,4) by (simp add: patched_text_def slice_to_def slice_from_def)
    then show ?thesis using raw s(1) True n match_indices_none [OF none]
      by (intro exI [of _ "concat a"] exI [of _ "concat m"] exI [of _ "concat b"]) simp
  qed
qed

end
