(* ===== verification/FileTools.thy ===== *)
theory FileTools
  imports Permission Patch "HOL-Library.AList"
begin

text \<open>
  The file tools (\<open>builtin/fs\<close>: \<open>read_file\<close>, \<open>write_file\<close>, \<open>patch_file\<close>, \<open>revert_file\<close>) and the execution
  context with its freshness gate (\<open>stems/action.rs\<close>).

  The disk is a list of nodes by canonical path. What the operating system decides is a field of \<open>io\<close>:
  which calls fail, what a failed write leaves behind, the clock and the time stamp of a written file. The
  cache of the freshness gate is the \<open>lru\<close> crate's: its three operations are the record \<open>lru\<close>, and what
  is relied on of them is \<open>lru_laws\<close>.
\<close>

section \<open>Disk\<close>

datatype node = FileNode string "nat option" | DirNode "nat option"

type_synonym disk = "(path \<times> node) list"

record io =
  io_fs :: file_system
  io_stat_ok :: "path \<Rightarrow> bool"
  io_read_ok :: "path \<Rightarrow> bool"
  io_write_ok :: "path \<Rightarrow> bool"
  io_mkdir_ok :: "path \<Rightarrow> bool"
  io_list_ok :: "path \<Rightarrow> bool"
  io_torn :: "path \<Rightarrow> node"
  io_mtime :: "nat option"
  io_now :: nat
  io_nanos :: nat
  io_diag :: "path \<Rightarrow> string option"

fun node_mtime :: "node \<Rightarrow> nat option" where
  "node_mtime (FileNode _ t) = t"
| "node_mtime (DirNode t) = t"

definition stat :: "io \<Rightarrow> disk \<Rightarrow> path \<Rightarrow> node option" where
  "stat io d p = (if io_stat_ok io p then map_of d p else None)"

definition read_bytes :: "io \<Rightarrow> disk \<Rightarrow> path \<Rightarrow> string option" where
  "read_bytes io d p =
     (if io_read_ok io p then (case map_of d p of Some (FileNode s _) \<Rightarrow> Some s | _ \<Rightarrow> None) else None)"

definition read_to_string :: "io \<Rightarrow> disk \<Rightarrow> path \<Rightarrow> string option" where
  "read_to_string io d p =
     (case read_bytes io d p of Some s \<Rightarrow> (if utf8_valid s then Some s else None) | None \<Rightarrow> None)"

text \<open>A write that fails may leave anything in the file, but touches nothing else.\<close>

definition write_bytes :: "io \<Rightarrow> path \<Rightarrow> string \<Rightarrow> disk \<Rightarrow> bool \<times> disk" where
  "write_bytes io p s d =
     (case map_of d p of
        Some (DirNode _) \<Rightarrow> (False, d)
      | _ \<Rightarrow> if io_write_ok io p then (True, AList.update p (FileNode s (io_mtime io)) d)
             else (False, AList.update p (io_torn io p) d))"

definition copy_file :: "io \<Rightarrow> path \<Rightarrow> path \<Rightarrow> disk \<Rightarrow> bool \<times> disk" where
  "copy_file io src dst d =
     (case read_bytes io d src of None \<Rightarrow> (False, d) | Some s \<Rightarrow> write_bytes io dst s d)"

definition is_file :: "node option \<Rightarrow> bool" where
  "is_file n = (case n of Some (FileNode _ _) \<Rightarrow> True | _ \<Rightarrow> False)"

definition create_dir_all :: "io \<Rightarrow> path \<Rightarrow> disk \<Rightarrow> bool \<times> disk" where
  "create_dir_all io p d =
     (if io_mkdir_ok io p \<and> list_all (\<lambda>q. \<not> is_file (map_of d q)) (prefixes p)
      then (True, fold (\<lambda>q d'. if map_of d' q = None then AList.update q (DirNode (io_mtime io)) d' else d')
                    (filter (\<lambda>q. q \<noteq> []) (prefixes p)) d)
      else (False, d))"

text \<open>The names in a directory.\<close>

definition read_dir :: "io \<Rightarrow> disk \<Rightarrow> path \<Rightarrow> string list" where
  "read_dir io d root_dir =
     (if io_list_ok io root_dir
      then List.map_filter (\<lambda>(p, _). if p \<noteq> [] \<and> butlast p = root_dir then file_name p else None) d
      else [])"

section \<open>Execution context\<close>

record 'c lru =
  lru_get :: "'c \<Rightarrow> path \<Rightarrow> (nat \<times> nat) option \<times> 'c"
  lru_peek :: "'c \<Rightarrow> path \<Rightarrow> (nat \<times> nat) option"
  lru_put :: "path \<Rightarrow> nat \<times> nat \<Rightarrow> 'c \<Rightarrow> 'c"

record 'c exec_context =
  ctx_permissions :: permission_matrix
  ctx_session_id :: string
  read_state :: 'c
  ctx_cwd :: path

datatype file_error =
  MissingParameter string
| BadPath perm_error
| NotReadYet path
| ModifiedSince path
| CannotStat
| ReadError
| WriteError
| OldNotFound path string
| OldAmbiguous path nat bool nat string
| BadFileName
| NoBackups path
| BadBackup
| NoSuchBackup string nat
| Panic

definition default_cwd :: "permission_matrix \<Rightarrow> path" where
  "default_cwd m = workspace_root (sandbox m)"

definition ctx_new :: "'c \<Rightarrow> permission_matrix \<Rightarrow> 'c exec_context" where
  "ctx_new c0 m = \<lparr>ctx_permissions = m, ctx_session_id = [], read_state = c0, ctx_cwd = default_cwd m\<rparr>"

definition set_cwd :: "path \<Rightarrow> 'c exec_context \<Rightarrow> 'c exec_context" where
  "set_cwd p ctx = ctx\<lparr>ctx_cwd := p\<rparr>"

definition record_read :: "'c lru \<Rightarrow> nat \<Rightarrow> path \<Rightarrow> nat \<Rightarrow> 'c exec_context \<Rightarrow> 'c exec_context" where
  "record_read lr nanos p mtime ctx = ctx\<lparr>read_state := lru_put lr p (mtime, nanos) (read_state ctx)\<rparr>"

definition check_freshness ::
  "'c lru \<Rightarrow> path \<Rightarrow> nat \<Rightarrow> 'c exec_context \<Rightarrow> (file_error, unit) result \<times> 'c exec_context" where
  "check_freshness lr p current_mtime ctx =
     (case lru_get lr (read_state ctx) p of
        (None, c) \<Rightarrow> (Err (NotReadYet p), ctx\<lparr>read_state := c\<rparr>)
      | (Some (cached, _), c) \<Rightarrow>
          ((if cached \<noteq> current_mtime then Err (ModifiedSince p) else Ok ()), ctx\<lparr>read_state := c\<rparr>))"

text \<open>What the tools share: the gate on an existing file, the record after a write, and the diagnostics
  appended to the answer.\<close>

definition gate_existing ::
  "'c lru \<Rightarrow> io \<Rightarrow> disk \<Rightarrow> path \<Rightarrow> 'c exec_context \<Rightarrow> (file_error, unit) result \<times> 'c exec_context" where
  "gate_existing lr io d p ctx =
     (case stat io d p of
        None \<Rightarrow> (Ok (), ctx)
      | Some n \<Rightarrow> (case node_mtime n of None \<Rightarrow> (Ok (), ctx) | Some t \<Rightarrow> check_freshness lr p t ctx))"

definition record_written :: "'c lru \<Rightarrow> io \<Rightarrow> disk \<Rightarrow> path \<Rightarrow> 'c exec_context \<Rightarrow> 'c exec_context" where
  "record_written lr io d p ctx =
     (case stat io d p of
        None \<Rightarrow> ctx
      | Some n \<Rightarrow> (case node_mtime n of None \<Rightarrow> ctx | Some t \<Rightarrow> record_read lr (io_nanos io) p t ctx))"

definition append_post_edit_diagnostics :: "io \<Rightarrow> path \<Rightarrow> string \<Rightarrow> string" where
  "append_post_edit_diagnostics io p out = out @ (case io_diag io p of Some s \<Rightarrow> s | None \<Rightarrow> [])"

section \<open>Reading\<close>

definition unchanged_stub :: "path \<Rightarrow> string" where
  "unchanged_stub p =
     ''File unchanged since last read: '' @ path_to_string p @
     ''. The content from your earlier read is still current '' @ em_dash @
     '' do NOT re-read this file; proceed with your next step (e.g. patch_file) using that content. '' @
     ''Re-read only if you need lines beyond the earlier max_lines.''"

text \<open>The loop over the lines: a line that is not valid text is an error, also the first one beyond
  the limit.\<close>

fun read_loop :: "nat \<Rightarrow> nat \<Rightarrow> string \<Rightarrow> string list \<Rightarrow> (string \<times> bool) option" where
  "read_loop max_lines count content [] = Some (content, False)"
| "read_loop max_lines count content (l # ls) =
     (if \<not> utf8_valid l then None
      else if max_lines \<le> count then Some (content, True)
      else read_loop max_lines (Suc count) (content @ l @ [LF_char]) ls)"

definition max_lines_of :: "json \<Rightarrow> nat" where
  "max_lines_of input = max (case as_u64 (json_index input ''max_lines'') of Some n \<Rightarrow> n | None \<Rightarrow> 500) 1"

definition is_duplicate :: "'c lru \<Rightarrow> 'c exec_context \<Rightarrow> path \<Rightarrow> nat option \<Rightarrow> nat \<Rightarrow> bool" where
  "is_duplicate lr ctx p mtime n =
     (n \<le> 500 \<and>
      (case mtime of
         None \<Rightarrow> False
       | Some t \<Rightarrow> (case lru_peek lr (read_state ctx) p of Some (cached, _) \<Rightarrow> cached = t | None \<Rightarrow> False)))"

definition read_content :: "io \<Rightarrow> disk \<Rightarrow> path \<Rightarrow> nat \<Rightarrow> (file_error, string) result" where
  "read_content io d p n =
     (case read_bytes io d p of
        None \<Rightarrow> Err ReadError
      | Some s \<Rightarrow>
          (case read_loop n 0 [] (str_lines s) of
             None \<Rightarrow> Err ReadError
           | Some (content, truncated) \<Rightarrow>
               Ok (content @
                   (if truncated
                    then LF_char # ''... [truncated at line '' @ nat_to_string n @ '', more lines follow]'' @ [LF_char]
                    else []))))"

definition read_file ::
  "'c lru \<Rightarrow> io \<Rightarrow> json \<Rightarrow> disk \<Rightarrow> 'c exec_context \<Rightarrow> (file_error, string) result \<times> 'c exec_context" where
  "read_file lr io input d ctx =
     (case as_str (json_index input ''path'') of
        None \<Rightarrow> (Err (MissingParameter ''path''), ctx)
      | Some path \<Rightarrow>
          (case verify_path (io_fs io) (ctx_permissions ctx) path Read of
             Inl e \<Rightarrow> (Err (BadPath e), ctx)
           | Inr p \<Rightarrow>
               (let mtime = (case stat io d p of None \<Rightarrow> None | Some n \<Rightarrow> node_mtime n);
                    n = max_lines_of input
                in if is_duplicate lr ctx p mtime n then (Ok (unchanged_stub p), ctx)
                   else (read_content io d p n,
                         (case mtime of None \<Rightarrow> ctx | Some t \<Rightarrow> record_read lr (io_nanos io) p t ctx)))))"

section \<open>Writing\<close>

definition backup_path :: "permission_matrix \<Rightarrow> nat \<Rightarrow> string \<Rightarrow> path" where
  "backup_path m ts fname = path_join (path_join (backup_dir m) [Normal (nat_to_string ts)]) [Normal fname]"

definition backup_slot :: "permission_matrix \<Rightarrow> nat \<Rightarrow> path" where
  "backup_slot m ts = path_join (backup_dir m) [Normal (nat_to_string ts)]"

text \<open>The backup before an overwrite: what happens when it fails is ignored.\<close>

definition backup_by_copy :: "io \<Rightarrow> permission_matrix \<Rightarrow> path \<Rightarrow> disk \<Rightarrow> disk" where
  "backup_by_copy io m p d =
     (case create_dir_all io (backup_slot m (io_now io)) d of
        (False, d1) \<Rightarrow> d1
      | (True, d1) \<Rightarrow>
          (case file_name p of
             None \<Rightarrow> d1
           | Some f \<Rightarrow> snd (copy_file io p (backup_path m (io_now io) f) d1)))"

definition backup_bytes :: "io \<Rightarrow> permission_matrix \<Rightarrow> nat \<Rightarrow> path \<Rightarrow> string \<Rightarrow> disk \<Rightarrow> disk" where
  "backup_bytes io m ts p s d =
     (case create_dir_all io (backup_slot m ts) d of
        (False, d1) \<Rightarrow> d1
      | (True, d1) \<Rightarrow>
          (case file_name p of None \<Rightarrow> d1 | Some f \<Rightarrow> snd (write_bytes io (backup_path m ts f) s d1)))"

definition write_file ::
  "'c lru \<Rightarrow> io \<Rightarrow> json \<Rightarrow> disk \<Rightarrow> 'c exec_context \<Rightarrow>
   (file_error, string) result \<times> disk \<times> 'c exec_context" where
  "write_file lr io input d ctx =
     (case as_str (json_index input ''path'') of
        None \<Rightarrow> (Err (MissingParameter ''path''), d, ctx)
      | Some path \<Rightarrow>
     (case as_str (json_index input ''content'') of
        None \<Rightarrow> (Err (MissingParameter ''content''), d, ctx)
      | Some content \<Rightarrow>
     (case verify_path (io_fs io) (ctx_permissions ctx) path Write of
        Inl e \<Rightarrow> (Err (BadPath e), d, ctx)
      | Inr p \<Rightarrow>
     (case gate_existing lr io d p ctx of
        (Inl e, ctx1) \<Rightarrow> (Err e, d, ctx1)
      | (Inr _, ctx1) \<Rightarrow>
          (let d1 = (if stat io d p \<noteq> None then backup_by_copy io (ctx_permissions ctx) p d else d)
           in case write_bytes io p content d1 of
                (False, d2) \<Rightarrow> (Err WriteError, d2, ctx1)
              | (True, d2) \<Rightarrow>
                  (Ok (append_post_edit_diagnostics io p
                         (''Wrote '' @ nat_to_string (length content) @ '' bytes to '' @ path_to_string p)),
                   d2, record_written lr io d2 p ctx1))))))"

section \<open>Patching\<close>

definition stale_hint :: "'c lru \<Rightarrow> path \<Rightarrow> nat option \<Rightarrow> 'c exec_context \<Rightarrow> bool \<times> 'c exec_context" where
  "stale_hint lr p current ctx =
     (case lru_get lr (read_state ctx) p of
        (recorded, c) \<Rightarrow>
          ((case (current, recorded) of (Some t, Some (r, _)) \<Rightarrow> t \<noteq> r | _ \<Rightarrow> False), ctx\<lparr>read_state := c\<rparr>))"

definition stale_note :: string where
  "stale_note = LF_char # ''Note: the file was modified on disk since your last read '' @ em_dash @
     '' read_file it again before retrying.''"

definition not_found_error :: "path \<Rightarrow> string \<Rightarrow> string \<Rightarrow> string \<Rightarrow> file_error" where
  "not_found_error p view old hints =
     (case closest_match_pos view old of
        None \<Rightarrow> OldNotFound p hints
      | Some pos \<Rightarrow>
          (case context_around view pos of
             None \<Rightarrow> Panic
           | Some c \<Rightarrow> OldNotFound p ('' Closest match:'' @ c @ hints)))"

definition ambiguous_error :: "path \<Rightarrow> string \<Rightarrow> nat \<Rightarrow> nat \<Rightarrow> bool \<Rightarrow> file_error" where
  "ambiguous_error p view count second qf =
     (case (slice_to view second, context_around view second) of
        (Some front, Some c) \<Rightarrow>
          OldAmbiguous p count qf (length (filter (\<lambda>x. x = LF_char) front) + 1) c
      | _ \<Rightarrow> Panic)"

definition fallback_note :: "found \<Rightarrow> string" where
  "fallback_note f =
     (if f_quote_fallback f then '' [quote-normalized fallback: curly quotes matched as straight]'' else [])"

definition apply_match ::
  "'c lru \<Rightarrow> io \<Rightarrow> path \<Rightarrow> string \<Rightarrow> line_endings \<Rightarrow> string \<Rightarrow> found \<Rightarrow> disk \<Rightarrow> 'c exec_context \<Rightarrow>
   (file_error, string) result \<times> disk \<times> 'c exec_context" where
  "apply_match lr io p raw le new f d ctx =
     (let d1 = backup_bytes io (ctx_permissions ctx) (io_now io) p raw d
      in case patched_text le (view_of le raw) new f of
           None \<Rightarrow> (Err Panic, d1, ctx)
         | Some patched \<Rightarrow>
             (case write_bytes io p patched d1 of
                (False, d2) \<Rightarrow> (Err WriteError, d2, ctx)
              | (True, d2) \<Rightarrow>
                  (Ok (append_post_edit_diagnostics io p
                         (''Successfully edited '' @ path_to_string p @ '' (1 replacement)'' @ fallback_note f)),
                   d2, record_written lr io d2 p ctx)))"

definition patch_located ::
  "'c lru \<Rightarrow> io \<Rightarrow> path \<Rightarrow> nat option \<Rightarrow> string \<Rightarrow> string \<Rightarrow> string \<Rightarrow> disk \<Rightarrow> 'c exec_context \<Rightarrow>
   (file_error, string) result \<times> disk \<times> 'c exec_context" where
  "patch_located lr io p mtime raw old_string new_string d ctx =
     (let le = detect_line_endings raw; view = view_of le raw; old = view_of le old_string
      in case stale_hint lr p mtime ctx of
           (stale, ctx1) \<Rightarrow>
             (let hints = (if stale then stale_note else []) @ line_ending_hint le
              in case find_unique view old of
                   NotFound \<Rightarrow> (Err (not_found_error p view old hints), d, ctx1)
                 | Multiple n second qf \<Rightarrow> (Err (ambiguous_error p view n second qf), d, ctx1)
                 | One f \<Rightarrow> apply_match lr io p raw le (view_of le new_string) f d ctx1))"

definition patch_file ::
  "'c lru \<Rightarrow> io \<Rightarrow> json \<Rightarrow> disk \<Rightarrow> 'c exec_context \<Rightarrow>
   (file_error, string) result \<times> disk \<times> 'c exec_context" where
  "patch_file lr io input d ctx =
     (case as_str (json_index input ''path'') of
        None \<Rightarrow> (Err (MissingParameter ''path''), d, ctx)
      | Some path \<Rightarrow>
     (case as_str (json_index input ''old_string'') of
        None \<Rightarrow> (Err (MissingParameter ''old_string''), d, ctx)
      | Some old_string \<Rightarrow>
     (case as_str (json_index input ''new_string'') of
        None \<Rightarrow> (Err (MissingParameter ''new_string''), d, ctx)
      | Some new_string \<Rightarrow>
     (case verify_path (io_fs io) (ctx_permissions ctx) path Write of
        Inl e \<Rightarrow> (Err (BadPath e), d, ctx)
      | Inr p \<Rightarrow>
     (case stat io d p of
        None \<Rightarrow> (Err CannotStat, d, ctx)
      | Some n \<Rightarrow>
     (case gate_existing lr io d p ctx of
        (Inl e, ctx1) \<Rightarrow> (Err e, d, ctx1)
      | (Inr _, ctx1) \<Rightarrow>
     (case read_to_string io d p of
        None \<Rightarrow> (Err ReadError, d, ctx1)
      | Some raw \<Rightarrow> patch_located lr io p (node_mtime n) raw old_string new_string d ctx1)))))))"

section \<open>Reverting\<close>

record backup_entry =
  be_ts :: nat
  be_size :: nat

definition list_backups :: "io \<Rightarrow> permission_matrix \<Rightarrow> disk \<Rightarrow> string \<Rightarrow> backup_entry list" where
  "list_backups io m d fname =
     rev (sort_key be_ts (rev
       (List.map_filter
          (\<lambda>name.
             (case parse_unsigned 64 name of
                None \<Rightarrow> None
              | Some ts \<Rightarrow>
                  (case stat io d (path_join (path_join (backup_dir m) [Normal name]) [Normal fname]) of
                     Some (FileNode s _) \<Rightarrow> Some \<lparr>be_ts = ts, be_size = length s\<rparr>
                   | _ \<Rightarrow> None)))
          (read_dir io d (backup_dir m)))))"

definition backup_param :: "json \<Rightarrow> string option" where
  "backup_param v = (case as_str v of Some s \<Rightarrow> Some s | None \<Rightarrow> map_option nat_to_string (as_u64 v))"

fun position :: "('a \<Rightarrow> bool) \<Rightarrow> 'a list \<Rightarrow> nat option" where
  "position P [] = None"
| "position P (x # xs) = (if P x then Some 0 else map_option Suc (position P xs))"

definition select_backup :: "backup_entry list \<Rightarrow> json option \<Rightarrow> (file_error, nat) result" where
  "select_backup entries backup =
     (case backup of
        None \<Rightarrow> Ok 0
      | Some JNull \<Rightarrow> Ok 0
      | Some v \<Rightarrow>
          (case backup_param v of
             None \<Rightarrow> Err BadBackup
           | Some s \<Rightarrow>
               (case parse_unsigned 64 (trim s) of
                  None \<Rightarrow> Err BadBackup
                | Some n \<Rightarrow>
                    (case position (\<lambda>e. be_ts e = n) entries of
                       Some i \<Rightarrow> Ok i
                     | None \<Rightarrow>
                         (if 1 \<le> n \<and> n \<le> length entries then Ok (n - 1)
                          else Err (NoSuchBackup s (length entries)))))))"

text \<open>The first second from now on without a backup of the file.\<close>

fun free_slot :: "nat \<Rightarrow> io \<Rightarrow> permission_matrix \<Rightarrow> disk \<Rightarrow> string \<Rightarrow> nat \<Rightarrow> nat option" where
  "free_slot 0 io m d f ts = None"
| "free_slot (Suc fuel) io m d f ts =
     (if stat io d (backup_path m ts f) = None then Some ts else free_slot fuel io m d f (Suc ts))"

definition listing :: "path \<Rightarrow> backup_entry list \<Rightarrow> string" where
  "listing p bs =
     ''Backups for '' @ [CHR 0x27] @ path_to_string p @ [CHR 0x27] @ '' (newest first):'' @ [LF_char] @
     concat (map (\<lambda>(i, b). ''  ['' @ nat_to_string (Suc i) @ ''] ts='' @ nat_to_string (be_ts b) @ '' size='' @
        nat_to_string (be_size b) @ '' bytes'' @ [LF_char]) (zip [0..<length bs] bs)) @
     ''Pass backup=<ts or index> without dry_run to restore one.''"

definition no_backups_text :: "path \<Rightarrow> string" where
  "no_backups_text p =
     ''No backups found for '' @ [CHR 0x27] @ path_to_string p @ [CHR 0x27] @
     ''. Backups are created automatically before write_file/patch_file modifies a file.''"

definition restore_backup ::
  "'c lru \<Rightarrow> io \<Rightarrow> path \<Rightarrow> string \<Rightarrow> backup_entry \<Rightarrow> disk \<Rightarrow> 'c exec_context \<Rightarrow>
   (file_error, string) result \<times> disk \<times> 'c exec_context" where
  "restore_backup lr io p f chosen d ctx =
     (let m = ctx_permissions ctx;
          d1 = (case read_bytes io d p of
                  None \<Rightarrow> d
                | Some current \<Rightarrow>
                    (case free_slot (Suc (length d)) io m d f (io_now io) of
                       None \<Rightarrow> d
                     | Some ts \<Rightarrow> backup_bytes io m ts p current d))
      in case copy_file io (backup_path m (be_ts chosen) f) p d1 of
           (False, d2) \<Rightarrow> (Err WriteError, d2, ctx)
         | (True, d2) \<Rightarrow>
             (Ok (''Reverted '' @ path_to_string p @ '' to backup ts='' @ nat_to_string (be_ts chosen) @ '' ('' @
                    nat_to_string (be_size chosen) @ '' bytes)''),
              d2, record_written lr io d2 p ctx))"

definition revert_file ::
  "'c lru \<Rightarrow> io \<Rightarrow> json \<Rightarrow> disk \<Rightarrow> 'c exec_context \<Rightarrow>
   (file_error, string) result \<times> disk \<times> 'c exec_context" where
  "revert_file lr io input d ctx =
     (case as_str (json_index input ''path'') of
        None \<Rightarrow> (Err (MissingParameter ''path''), d, ctx)
      | Some path \<Rightarrow>
     (let dry_run = (case as_bool (json_index input ''dry_run'') of Some b \<Rightarrow> b | None \<Rightarrow> False) in
      case verify_path (io_fs io) (ctx_permissions ctx) path Write of
        Inl e \<Rightarrow> (Err (BadPath e), d, ctx)
      | Inr p \<Rightarrow>
     (case file_name p of
        None \<Rightarrow> (Err BadFileName, d, ctx)
      | Some f \<Rightarrow>
     (let backups = list_backups io (ctx_permissions ctx) d f in
      if backups = [] then (if dry_run then Ok (no_backups_text p) else Err (NoBackups p), d, ctx)
      else if dry_run then (Ok (listing p backups), d, ctx)
      else
     (case select_backup backups (json_get input ''backup'') of
        Inl e \<Rightarrow> (Err e, d, ctx)
      | Inr i \<Rightarrow>
     (case gate_existing lr io d p ctx of
        (Inl e, ctx1) \<Rightarrow> (Err e, d, ctx1)
      | (Inr _, ctx1) \<Rightarrow> restore_backup lr io p f (backups ! i) d ctx1))))))"

end
