(* ===== verification/FileEdits.thy ===== *)
theory FileEdits
  imports FileTools
begin

text \<open>
  Properties of the file tools: what an edit may touch and when, what a patch writes, that a revert undoes
  a write, and that reading shows the text patching matches in.
\<close>

section \<open>Decimal names\<close>

lemma digit_value_char: "n < 10 \<Longrightarrow> digit_value (digit_char n) = Some n"
  by (simp add: digit_value_def digit_char_def)

lemma parse_digits_append:
  "parse_digits acc (s @ t) = (case parse_digits acc s of None \<Rightarrow> None | Some n \<Rightarrow> parse_digits n t)"
  by (induction acc s rule: parse_digits.induct) (simp_all split: option.splits)

lemma parse_digits_nat: "parse_digits 0 (nat_to_string n) = Some n"
proof (induction n rule: nat_to_string.induct)
  case (1 n)
  show ?case
  proof (cases "n < 10")
    case True
    then show ?thesis by (simp add: nat_to_string.simps [of n] digit_value_char)
  next
    case False
    then have "parse_digits 0 (nat_to_string n) = parse_digits (n div 10) [digit_char (n mod 10)]"
      using 1 by (simp add: nat_to_string.simps [of n] parse_digits_append)
    then show ?thesis by (simp add: digit_value_char)
  qed
qed

lemma nat_to_string_hd: "nat_to_string n \<noteq> [] \<and> hd (nat_to_string n) \<noteq> CHR ''+''"
proof (induction n rule: nat_to_string.induct)
  case (1 n)
  have "digit_char k \<noteq> CHR ''+''" if "k < 10" for k
    using digit_value_char [OF that] by (auto simp: digit_value_def)
  then show ?case using 1 by (cases "n < 10") (auto simp: nat_to_string.simps [of n] hd_append)
qed

lemma parse_nat_to_string: "n < 2 ^ w \<Longrightarrow> parse_unsigned w (nat_to_string n) = Some n"
proof -
  assume n: "n < 2 ^ w"
  obtain c cs where "nat_to_string n = c # cs" "c \<noteq> CHR ''+''"
    using nat_to_string_hd [of n] by (metis list.collapse)
  then show ?thesis using parse_digits_nat [of n] n
    by (simp only: parse_unsigned_def Let_def list.case if_False option.case if_True list.distinct)
qed

lemma nat_to_string_inj: "nat_to_string m = nat_to_string n \<Longrightarrow> m = n"
  by (metis parse_digits_nat option.inject)

section \<open>What an edit touches\<close>

lemma path_join_Normal [simp]: "path_join b [Normal x] = b @ [Normal x]"
  by (simp add: path_join_def)

lemma write_bytes_frame: "q \<noteq> p \<Longrightarrow> map_of (snd (write_bytes io p s d)) q = map_of d q"
  by (auto simp: write_bytes_def update_conv' split: option.splits node.splits)

lemma write_bytes_Ok:
  "write_bytes io p s d = (True, d') \<Longrightarrow> map_of d' p = Some (FileNode s (io_mtime io))"
  by (auto simp: write_bytes_def update_conv' split: option.splits node.splits if_splits)

text \<open>Creating directories leaves every file as it was.\<close>

lemma mkdirs_keep:
  "map_of (fold (\<lambda>q d'. if map_of d' q = None then AList.update q (DirNode t) d' else d') qs d) q =
     (if map_of d q = None \<and> q \<in> set qs then Some (DirNode t) else map_of d q)"
  by (induction qs arbitrary: d) (auto simp: update_conv')

lemma create_dir_all_keep:
  "map_of (snd (create_dir_all io p d)) q =
     (if map_of d q = None \<and> fst (create_dir_all io p d) \<and> q \<noteq> [] \<and> prefix q p
      then Some (DirNode (io_mtime io)) else map_of d q)"
  by (auto simp: create_dir_all_def mkdirs_keep)

definition same_files :: "(path \<Rightarrow> bool) \<Rightarrow> disk \<Rightarrow> disk \<Rightarrow> bool" where
  "same_files P d d' =
     (\<forall>q s t. P q \<longrightarrow> (map_of d' q = Some (FileNode s t) \<longleftrightarrow> map_of d q = Some (FileNode s t)))"

lemma same_files_refl [simp]: "same_files P d d"
  by (simp add: same_files_def)

lemma same_files_trans: "same_files P d d1 \<Longrightarrow> same_files P d1 d2 \<Longrightarrow> same_files P d d2"
  by (simp add: same_files_def)

lemma same_files_write: "(\<And>q. P q \<Longrightarrow> q \<noteq> p) \<Longrightarrow> same_files P d (snd (write_bytes io p s d))"
  by (auto simp: same_files_def write_bytes_frame)

lemma same_files_copy: "(\<And>q. P q \<Longrightarrow> q \<noteq> p) \<Longrightarrow> same_files P d (snd (copy_file io src p d))"
  by (auto simp: copy_file_def same_files_write split: option.splits)

lemma same_files_mkdir: "same_files P d (snd (create_dir_all io p d))"
  by (auto simp: same_files_def create_dir_all_keep)

text \<open>The files an edit of \<open>p\<close> may not touch.\<close>

definition bystander :: "permission_matrix \<Rightarrow> path \<Rightarrow> path \<Rightarrow> bool" where
  "bystander m p q = (q \<noteq> p \<and> \<not> path_starts_with q (backup_dir m))"

lemma bystander_backup: "bystander m p q \<Longrightarrow> q \<noteq> backup_path m ts f"
  by (auto simp: bystander_def path_starts_with_def backup_path_def prefix_def)

lemma same_files_backup_copy: "same_files (bystander m p) d (backup_by_copy io m p d)"
proof -
  obtain ok d1 where c: "create_dir_all io (backup_slot m (io_now io)) d = (ok, d1)" by fastforce
  then have "same_files (bystander m p) d d1" using same_files_mkdir by (metis snd_conv)
  moreover have "same_files (bystander m p) d1 (snd (copy_file io p (backup_path m (io_now io) f) d1))" for f
    by (rule same_files_copy) (rule bystander_backup)
  ultimately show ?thesis using same_files_trans
    by (cases ok) (auto simp: backup_by_copy_def c split: option.splits)
qed

lemma same_files_backup_bytes: "same_files (bystander m p) d (backup_bytes io m ts p s d)"
proof -
  obtain ok d1 where c: "create_dir_all io (backup_slot m ts) d = (ok, d1)" by fastforce
  then have "same_files (bystander m p) d d1" using same_files_mkdir by (metis snd_conv)
  moreover have "same_files (bystander m p) d1 (snd (write_bytes io (backup_path m ts f) s d1))" for f
    by (rule same_files_write) (rule bystander_backup)
  ultimately show ?thesis using same_files_trans
    by (cases ok) (auto simp: backup_bytes_def c split: option.splits)
qed

lemma same_files_target: "same_files (bystander m p) d (snd (write_bytes io p s d))"
  by (rule same_files_write) (simp add: bystander_def)

section \<open>The freshness gate\<close>

text \<open>What is relied on of the cache: looking an entry up does not change the entries, a new entry is
  there, and other entries stay or are evicted.\<close>

definition lru_laws :: "'c lru \<Rightarrow> bool" where
  "lru_laws lr =
     (\<forall>c k. fst (lru_get lr c k) = lru_peek lr c k \<and>
        (\<forall>k'. lru_peek lr (snd (lru_get lr c k)) k' = lru_peek lr c k') \<and>
        (\<forall>v. lru_peek lr (lru_put lr k v c) k = Some v \<and>
           (\<forall>k'. k' \<noteq> k \<longrightarrow> lru_peek lr (lru_put lr k v c) k' \<in> {None, lru_peek lr c k'})))"

text \<open>The file on disk is the one that was last read or written in the session.\<close>

definition fresh :: "'c lru \<Rightarrow> io \<Rightarrow> disk \<Rightarrow> path \<Rightarrow> 'c exec_context \<Rightarrow> bool" where
  "fresh lr io d p ctx =
     (case stat io d p of
        None \<Rightarrow> True
      | Some n \<Rightarrow>
          (case node_mtime n of
             None \<Rightarrow> True
           | Some t \<Rightarrow> (case lru_peek lr (read_state ctx) p of Some (r, _) \<Rightarrow> r = t | None \<Rightarrow> False)))"

lemma gate_existing_fresh:
  assumes "lru_laws lr"
  shows "is_ok (fst (gate_existing lr io d p ctx)) \<longleftrightarrow> fresh lr io d p ctx"
proof -
  have "fst (lru_get lr (read_state ctx) p) = lru_peek lr (read_state ctx) p"
    using assms by (simp add: lru_laws_def)
  then show ?thesis
    by (auto simp: gate_existing_def fresh_def check_freshness_def is_ok_def split: option.splits prod.splits)
qed

lemma gate_existing_context:
  "ctx_permissions (snd (gate_existing lr io d p ctx)) = ctx_permissions ctx"
  by (auto simp: gate_existing_def check_freshness_def split: option.splits prod.splits)

text \<open>An edit either changes nothing, or it passed the path check and the freshness gate for one
  file, and then every other file outside the backups stays as it was.\<close>

definition guarded_change ::
  "'c lru \<Rightarrow> io \<Rightarrow> json \<Rightarrow> disk \<Rightarrow> 'c exec_context \<Rightarrow> disk \<Rightarrow> bool" where
  "guarded_change lr io input d ctx d' =
     (d' = d \<or>
      (\<exists>path p. as_str (json_index input ''path'') = Some path \<and>
         verify_path (io_fs io) (ctx_permissions ctx) path Write = Ok p \<and>
         is_ok (fst (gate_existing lr io d p ctx)) \<and>
         same_files (bystander (ctx_permissions ctx) p) d d'))"

lemma write_file_guarded: "guarded_change lr io input d ctx (fst (snd (write_file lr io input d ctx)))"
proof (cases "as_str (json_index input ''path'')"; cases "as_str (json_index input ''content'')")
  fix path content
  assume a: "as_str (json_index input ''path'') = Some path" "as_str (json_index input ''content'') = Some content"
  show ?thesis
  proof (cases "verify_path (io_fs io) (ctx_permissions ctx) path Write")
    case (Inr p)
    obtain r ctx1 where g: "gate_existing lr io d p ctx = (r, ctx1)" by fastforce
    let ?d1 = "if stat io d p \<noteq> None then backup_by_copy io (ctx_permissions ctx) p d else d"
    have "same_files (bystander (ctx_permissions ctx) p) d (snd (write_bytes io p content ?d1))"
      using same_files_trans [OF same_files_backup_copy same_files_target] same_files_target by auto
    then show ?thesis using a Inr g
      by (cases r) (auto simp: write_file_def guarded_change_def is_ok_def Let_def split: prod.splits bool.splits)
  qed (use a in \<open>simp add: write_file_def guarded_change_def\<close>)
qed (simp_all add: write_file_def guarded_change_def)

lemma apply_match_same: "same_files (bystander (ctx_permissions ctx) p) d (fst (snd (apply_match lr io p raw le new f d ctx)))"
proof -
  let ?d1 = "backup_bytes io (ctx_permissions ctx) (io_now io) p raw d"
  have "same_files (bystander (ctx_permissions ctx) p) d (snd (write_bytes io p s ?d1))" for s
    by (rule same_files_trans [OF same_files_backup_bytes same_files_target])
  then show ?thesis using same_files_backup_bytes
    by (auto simp: apply_match_def Let_def split: option.splits prod.splits bool.splits) (metis snd_conv)+
qed

lemma stale_hint_permissions: "ctx_permissions (snd (stale_hint lr p t ctx)) = ctx_permissions ctx"
  by (simp add: stale_hint_def split: prod.splits)

lemma patch_located_same:
  "same_files (bystander (ctx_permissions ctx) p) d (fst (snd (patch_located lr io p t raw a b d ctx)))"
  using apply_match_same [of "snd (stale_hint lr p t ctx)"] stale_hint_permissions [of lr p t ctx]
  by (auto simp: patch_located_def Let_def split: prod.splits match_result.splits)

lemma patch_file_guarded: "guarded_change lr io input d ctx (fst (snd (patch_file lr io input d ctx)))"
proof -
  let ?m = "ctx_permissions ctx"
  have "same_files (bystander ?m p) d (fst (snd (patch_located lr io p t raw a b d (snd (gate_existing lr io d p ctx)))))"
    for p t raw a b using patch_located_same gate_existing_context by metis
  then have "same_files (bystander ?m p) d (fst (snd (patch_located lr io p t raw a b d ctx1)))"
    if "gate_existing lr io d p ctx = (r, ctx1)" for p t raw a b r ctx1 using that by (metis snd_conv)
  then show ?thesis
    unfolding patch_file_def guarded_change_def is_ok_def
    by (auto split: option.splits sum.splits prod.splits)
qed

lemma restore_backup_same: "same_files (bystander (ctx_permissions ctx) p) d (fst (snd (restore_backup lr io p f chosen d ctx)))"
proof -
  let ?m = "ctx_permissions ctx"
  have c: "same_files (bystander ?m p) d1 (snd (copy_file io src p d1))" for src d1
    by (rule same_files_copy) (simp add: bystander_def)
  have "same_files (bystander ?m p) d (snd (copy_file io src p (backup_bytes io ?m ts p s d)))" for src ts s
    by (rule same_files_trans [OF same_files_backup_bytes c])
  then show ?thesis using c
    by (auto simp: restore_backup_def Let_def split: option.splits prod.splits bool.splits) (metis snd_conv)+
qed

lemma revert_file_guarded: "guarded_change lr io input d ctx (fst (snd (revert_file lr io input d ctx)))"
proof -
  let ?m = "ctx_permissions ctx"
  have "same_files (bystander ?m p) d (fst (snd (restore_backup lr io p f b d ctx1)))"
    if "gate_existing lr io d p ctx = (r, ctx1)" for p f b r ctx1
    using that restore_backup_same [of ctx1 p d lr io f b] gate_existing_context [of lr io d p ctx] by simp
  then show ?thesis
    unfolding revert_file_def guarded_change_def is_ok_def Let_def
    by (auto split: option.splits sum.splits prod.splits)
qed

datatype edit = WriteEdit | PatchEdit | RevertEdit

fun run_edit ::
  "edit \<Rightarrow> 'c lru \<Rightarrow> io \<Rightarrow> json \<Rightarrow> disk \<Rightarrow> 'c exec_context \<Rightarrow>
   (file_error, string) result \<times> disk \<times> 'c exec_context" where
  "run_edit WriteEdit = write_file"
| "run_edit PatchEdit = patch_file"
| "run_edit RevertEdit = revert_file"

lemma run_edit_guarded: "guarded_change lr io input d ctx (fst (snd (run_edit e lr io input d ctx)))"
  by (cases e) (simp_all add: write_file_guarded patch_file_guarded revert_file_guarded)


section \<open>Patches\<close>

lemma backup_bytes_slot:
  assumes "fst (create_dir_all io (backup_slot m ts) d)" "io_write_ok io (backup_path m ts f)" "file_name p = Some f"
    and "\<forall>t. map_of (snd (create_dir_all io (backup_slot m ts) d)) (backup_path m ts f) \<noteq> Some (DirNode t)"
  shows "map_of (backup_bytes io m ts p s d) (backup_path m ts f) = Some (FileNode s (io_mtime io))"
  using assms
  by (auto simp: backup_bytes_def write_bytes_def update_conv' split: prod.splits option.splits node.splits bool.splits)

text \<open>C22: what a successful \<open>patch_file\<close> has done. The file it was allowed to write was valid text; in it one
  place, the old text in the view the tool matches in or, when that does not occur, a text that differs
  from it in quotes only, was replaced by the new text, with the file's line endings, and every other byte
  is as before. When the backup could be made, it holds the file as it was.\<close>

theorem patch_file_edits:
  assumes "patch_file lr io input d ctx = (Ok out, d', ctx')"
    and "as_str (json_index input ''old_string'') = Some old_string" "utf8_valid old_string"
  shows "\<exists>path p raw new_string a m b. as_str (json_index input ''path'') = Some path \<and>
    verify_path (io_fs io) (ctx_permissions ctx) path Write = Ok p \<and>
    as_str (json_index input ''new_string'') = Some new_string \<and> read_to_string io d p = Some raw \<and>
    (let le = detect_line_endings raw; old = view_of le old_string in
     raw = restore le a @ restore le m @ restore le b \<and>
     map_of d' p = Some (FileNode (restore le a @ restore le (view_of le new_string) @ restore le b) (io_mtime io)) \<and>
     (m = old \<or> \<not> sublist old (view_of le raw) \<and> fst (normalize_quotes m) = fst (normalize_quotes old))) \<and>
    (\<forall>f. let B = backup_path (ctx_permissions ctx) (io_now io) f;
            c = create_dir_all io (backup_slot (ctx_permissions ctx) (io_now io)) d in
       file_name p = Some f \<and> p \<noteq> B \<and> fst c \<and> io_write_ok io B \<and> (\<forall>t. map_of (snd c) B \<noteq> Some (DirNode t)) \<longrightarrow>
       map_of d' B = Some (FileNode raw (io_mtime io)))"
proof -
  let ?m = "ctx_permissions ctx"
  obtain path p n raw new_string ctx1 where
    a: "as_str (json_index input ''path'') = Some path"
      "verify_path (io_fs io) ?m path Write = Ok p" "as_str (json_index input ''new_string'') = Some new_string"
      "read_to_string io d p = Some raw" "gate_existing lr io d p ctx = (Ok (), ctx1)"
    and l: "patch_located lr io p (node_mtime n) raw old_string new_string d ctx1 = (Ok out, d', ctx')"
    using assms(1,2) by (auto simp: patch_file_def split: option.splits sum.splits prod.splits)
  let ?le = "detect_line_endings raw"
  let ?new = "view_of ?le new_string"
  obtain ctx2 hint where h: "stale_hint lr p (node_mtime n) ctx1 = (hint, ctx2)" by fastforce
  have perm: "ctx_permissions ctx2 = ?m"
    using stale_hint_permissions [of lr p "node_mtime n" ctx1] gate_existing_context [of lr io d p ctx] a(5) h by simp
  obtain f where f: "find_unique (view_of ?le raw) (view_of ?le old_string) = One f"
    and m: "apply_match lr io p raw ?le ?new f d ctx2 = (Ok out, d', ctx')"
    using l h by (auto simp: patch_located_def Let_def split: match_result.splits)
  let ?d1 = "backup_bytes io ?m (io_now io) p raw d"
  obtain patched where w: "patched_text ?le (view_of ?le raw) ?new f = Some patched"
    "write_bytes io p patched ?d1 = (True, d')"
    using m perm by (auto simp: apply_match_def Let_def split: option.splits prod.splits bool.splits)
  have "utf8_valid raw" using a(4) by (auto simp: read_to_string_def split: option.splits if_splits)
  from patch_splits [OF this assms(3) refl refl refl f, of new_string]
  obtain x y z where s: "raw = restore ?le x @ restore ?le y @ restore ?le z"
    "patched_text ?le (view_of ?le raw) ?new f = Some (restore ?le x @ restore ?le ?new @ restore ?le z)"
    "if f_quote_fallback f then fst (normalize_quotes y) = fst (normalize_quotes (view_of ?le old_string)) \<and>
       \<not> sublist (view_of ?le old_string) (view_of ?le raw) else y = view_of ?le old_string" by blast
  have "map_of d' p = Some (FileNode (restore ?le x @ restore ?le ?new @ restore ?le z) (io_mtime io))"
    using write_bytes_Ok [OF w(2)] w(1) s(2) by simp
  moreover have "map_of d' (backup_path ?m (io_now io) g) = Some (FileNode raw (io_mtime io))"
    if "file_name p = Some g" "p \<noteq> backup_path ?m (io_now io) g"
      "fst (create_dir_all io (backup_slot ?m (io_now io)) d)" "io_write_ok io (backup_path ?m (io_now io) g)"
      "\<forall>t. map_of (snd (create_dir_all io (backup_slot ?m (io_now io)) d)) (backup_path ?m (io_now io) g) \<noteq> Some (DirNode t)"
    for g
    using backup_bytes_slot [OF that(3,4,1,5), of raw] write_bytes_frame [of _ p io patched ?d1] w(2) that(2) by fastforce
  ultimately show ?thesis using a s(1,3) unfolding Let_def by (metis (no_types, lifting))
qed

section \<open>Backups and reverts\<close>

lemma free_slot_free: "free_slot fuel io m d f ts = Some k \<Longrightarrow> stat io d (backup_path m k f) = None"
  by (induction fuel io m d f ts rule: free_slot.induct) (auto split: if_splits)

lemma free_slot_None:
  "free_slot fuel io m d f ts = None \<Longrightarrow> k < fuel \<Longrightarrow> stat io d (backup_path m (ts + k) f) \<noteq> None"
proof (induction fuel io m d f ts arbitrary: k rule: free_slot.induct)
  case (2 fuel io m d f ts)
  then show ?case by (cases k) (auto split: if_splits)
qed simp

lemma backup_path_inj: "backup_path m a f = backup_path m b f \<Longrightarrow> a = b"
  by (auto simp: backup_path_def dest: nat_to_string_inj)

text \<open>The search for a free second cannot use up its fuel: the disk has fewer nodes than it has steps.\<close>

lemma free_slot_total: "\<exists>k. free_slot (Suc (length d)) io m d f ts = Some k"
proof (rule ccontr)
  assume "\<nexists>k. free_slot (Suc (length d)) io m d f ts = Some k"
  then have n: "free_slot (Suc (length d)) io m d f ts = None" by (cases "free_slot (Suc (length d)) io m d f ts") auto
  let ?g = "\<lambda>k. backup_path m (ts + k) f"
  have "?g ` {..<Suc (length d)} \<subseteq> fst ` set d"
  proof (rule image_subsetI)
    fix k assume "k \<in> {..<Suc (length d)}"
    then have "stat io d (?g k) \<noteq> None" using free_slot_None [OF n] by simp
    then obtain v where "map_of d (?g k) = Some v" by (auto simp: stat_def split: if_splits)
    from map_of_SomeD [OF this] show "?g k \<in> fst ` set d" by (rule rev_image_eqI) simp
  qed
  moreover have "inj_on ?g {..<Suc (length d)}" by (auto intro!: inj_onI dest: backup_path_inj)
  ultimately have "Suc (length d) \<le> card (fst ` set d)"
    by (metis card_image card_lessThan card_mono finite_imageI finite_set)
  also have "\<dots> \<le> length d" using card_length [of "map fst d"] by simp
  finally show False by simp
qed

definition all_ok :: "io \<Rightarrow> bool" where
  "all_ok io = (\<forall>p. io_stat_ok io p \<and> io_read_ok io p \<and> io_write_ok io p \<and> io_mkdir_ok io p \<and> io_list_ok io p)"

text \<open>The newest backup of a name on a disk.\<close>

definition newest_backup :: "permission_matrix \<Rightarrow> disk \<Rightarrow> string \<Rightarrow> nat \<Rightarrow> string \<Rightarrow> bool" where
  "newest_backup m d f ts s =
     (ts < 2 ^ 64 \<and> map_of d (backup_slot m ts) \<noteq> None \<and>
      (\<exists>t. map_of d (backup_path m ts f) = Some (FileNode s t)) \<and>
      (\<forall>name k s' t. parse_unsigned 64 name = Some k \<and>
         map_of d (backup_dir m @ [Normal name, Normal f]) = Some (FileNode s' t) \<longrightarrow> k \<le> ts))"

lemma sorted_last_max: "sorted (map g xs) \<Longrightarrow> x \<in> set xs \<Longrightarrow> g x \<le> g (last xs)"
  by (induction xs) auto

lemma list_backups_newest:
  assumes "newest_backup m d f ts s" "all_ok io"
  shows "list_backups io m d f \<noteq> []" "be_ts (list_backups io m d f ! 0) = ts"
proof -
  let ?g = "\<lambda>name. case parse_unsigned 64 name of None \<Rightarrow> None
    | Some k \<Rightarrow> (case stat io d (path_join (path_join (backup_dir m) [Normal name]) [Normal f]) of
        Some (FileNode s _) \<Rightarrow> Some \<lparr>be_ts = k, be_size = length s\<rparr> | _ \<Rightarrow> None)"
  let ?xs = "List.map_filter ?g (read_dir io d (backup_dir m))"
  have st: "stat io d q = map_of d q" for q using assms(2) by (simp add: stat_def all_ok_def)
  obtain n where n: "map_of d (backup_slot m ts) = Some n" using assms(1) by (auto simp: newest_backup_def)
  have "file_name (backup_slot m ts) = Some (nat_to_string ts)" "backup_slot m ts \<noteq> []"
      "butlast (backup_slot m ts) = backup_dir m"
    by (simp_all add: backup_slot_def file_name_def)
  then have "nat_to_string ts \<in> set (read_dir io d (backup_dir m))"
    using map_of_SomeD [OF n] assms(2) unfolding read_dir_def all_ok_def
    by (simp add: mem_map_filter) (rule bexI [of _ "(backup_slot m ts, n)"], simp_all)
  moreover have "\<exists>e. ?g (nat_to_string ts) = Some e \<and> be_ts e = ts"
    using assms(1) parse_nat_to_string [of ts 64] st by (auto simp: newest_backup_def backup_path_def)
  ultimately obtain e where e: "e \<in> set ?xs" "be_ts e = ts" by (auto simp: mem_map_filter)
  have le: "be_ts x \<le> ts" if x: "x \<in> set ?xs" for x
  proof -
    obtain name where g: "?g name = Some x" using x unfolding mem_map_filter by blast
    then obtain k where k: "parse_unsigned 64 name = Some k" by (cases "parse_unsigned 64 name") simp_all
    then obtain s' t where q: "map_of d (backup_dir m @ [Normal name, Normal f]) = Some (FileNode s' t)"
      using g st by (cases "map_of d (backup_dir m @ [Normal name, Normal f])") (simp_all split: node.splits)
    then have "be_ts x = k" using g k st by auto
    then show ?thesis using assms(1) k q unfolding newest_backup_def by blast
  qed
  define ys where "ys = sort_key be_ts (rev ?xs)"
  have b: "list_backups io m d f = rev ys" by (simp only: list_backups_def ys_def)
  have y: "set ys = set ?xs" "sorted (map be_ts ys)" by (simp_all only: ys_def set_sort set_rev sorted_sort_key)
  have ne: "ys \<noteq> []" using e(1) y(1) by force
  then show "list_backups io m d f \<noteq> []" by (simp add: b)
  have "be_ts e \<le> be_ts (last ys)" using sorted_last_max [OF y(2)] e(1) y(1) by blast
  moreover have "be_ts (last ys) \<le> ts" using last_in_set [OF ne] y(1) le by blast
  ultimately have "be_ts (last ys) = ts" using e(2) by simp
  then show "be_ts (list_backups io m d f ! 0) = ts" using ne by (simp add: b rev_nth last_conv_nth)
qed

text \<open>A revert without a choice restores the newest backup that has the file's name.\<close>

lemma revert_newest:
  assumes "lru_laws lr" "all_ok io" "newest_backup (ctx_permissions ctx) d f ts s"
    and "as_str (json_index input ''path'') = Some path" "json_get input ''backup'' = None"
    and "as_bool (json_index input ''dry_run'') \<noteq> Some True"
    and "verify_path (io_fs io) (ctx_permissions ctx) path Write = Ok p" "file_name p = Some f"
    and "\<not> path_starts_with p (backup_dir (ctx_permissions ctx))" "\<forall>t. map_of d p \<noteq> Some (DirNode t)"
    and "fresh lr io d p ctx"
  shows "\<exists>out d' ctx'. revert_file lr io input d ctx = (Ok out, d', ctx') \<and>
    map_of d' p = Some (FileNode s (io_mtime io))"
proof -
  let ?m = "ctx_permissions ctx" and ?bs = "list_backups io (ctx_permissions ctx) d f"
  note bs = list_backups_newest [OF assms(3,2)]
  have dry: "(case as_bool (json_index input ''dry_run'') of Some b \<Rightarrow> b | None \<Rightarrow> False) = False"
    using assms(6) by (auto split: option.splits)
  obtain ctx1 where g: "gate_existing lr io d p ctx = (Ok (), ctx1)"
    using gate_existing_fresh [OF assms(1), of io d p ctx] assms(11)
    by (cases "gate_existing lr io d p ctx") (auto simp: is_ok_def split: sum.splits)
  have perm: "ctx_permissions ctx1 = ?m" using gate_existing_context [of lr io d p ctx] g by simp
  have r: "revert_file lr io input d ctx = restore_backup lr io p f (?bs ! 0) d ctx1"
    using assms(4,5,7,8) bs(1) g dry by (simp add: revert_file_def select_backup_def)
  let ?B = "backup_path ?m ts f"
  obtain t where B: "map_of d ?B = Some (FileNode s t)" using assms(3) by (auto simp: newest_backup_def)
  have pB: "p \<noteq> backup_path ?m k f" for k
    using assms(9) by (auto simp: path_starts_with_def backup_path_def prefix_def)
  let ?d1 = "case read_bytes io d p of None \<Rightarrow> d | Some current \<Rightarrow>
    (case free_slot (Suc (length d)) io ?m d f (io_now io) of None \<Rightarrow> d | Some k \<Rightarrow> backup_bytes io ?m k p current d)"
  have keep: "map_of (backup_bytes io ?m k p c d) q = map_of d q"
    if "map_of d q \<noteq> None \<or> \<not> prefix q (backup_slot ?m k)" "q \<noteq> backup_path ?m k f" for k c q
    using that write_bytes_frame [of q "backup_path ?m k f"] create_dir_all_keep [of io "backup_slot ?m k" d q]
    by (auto simp: backup_bytes_def assms(8) split: prod.splits bool.splits)
  have "?B \<noteq> backup_path ?m k f" if "free_slot (Suc (length d)) io ?m d f (io_now io) = Some k" for k
  proof -
    have "map_of d (backup_path ?m k f) = None"
      using free_slot_free [OF that] assms(2) by (simp add: stat_def all_ok_def)
    then show ?thesis using B by auto
  qed
  then have B1: "map_of ?d1 ?B = Some (FileNode s t)"
    using B keep by (auto split: option.splits)
  have "read_bytes io d p = Some c \<Longrightarrow> map_of d p \<noteq> None" for c
    by (auto simp: read_bytes_def split: if_splits option.splits)
  then have p1: "map_of ?d1 p = map_of d p"
    using keep pB by (auto split: option.splits)
  have rb: "read_bytes io ?d1 ?B = Some s"
    using B1 assms(2) unfolding read_bytes_def all_ok_def by simp
  have ok: "io_write_ok io p" using assms(2) by (simp add: all_ok_def)
  have nd: "map_of ?d1 p \<noteq> Some (DirNode t')" for t' using assms(10) p1 by simp
  have "copy_file io ?B p ?d1 = (True, AList.update p (FileNode s (io_mtime io)) ?d1)"
    using rb ok nd unfolding copy_file_def write_bytes_def
    by (cases "map_of ?d1 p") (auto split: node.splits)
  then show ?thesis unfolding r restore_backup_def perm bs(2) Let_def
    by (simp add: update_conv')
qed

text \<open>A write to an existing file that was read leaves the newest backup of its name behind.\<close>

lemma write_leaves_backup:
  assumes "lru_laws lr" "all_ok io" "io_mtime io = Some t1" "io_now io < 2 ^ 64"
    and "as_str (json_index input ''path'') = Some path" "as_str (json_index input ''content'') = Some content"
    and "verify_path (io_fs io) (ctx_permissions ctx) path Write = Ok p" "file_name p = Some f"
    and "\<not> path_starts_with p (backup_dir (ctx_permissions ctx))"
    and "map_of d p = Some (FileNode s t)" "fresh lr io d p ctx"
    and "fst (create_dir_all io (backup_slot (ctx_permissions ctx) (io_now io)) d)"
    and "\<forall>t. map_of d (backup_path (ctx_permissions ctx) (io_now io) f) \<noteq> Some (DirNode t)"
    and "\<forall>name k s' t. parse_unsigned 64 name = Some k \<and>
      map_of d (backup_dir (ctx_permissions ctx) @ [Normal name, Normal f]) = Some (FileNode s' t) \<longrightarrow> k \<le> io_now io"
  shows "\<exists>out d' ctx'. write_file lr io input d ctx = (Ok out, d', ctx') \<and>
    newest_backup (ctx_permissions ctx) d' f (io_now io) s \<and> map_of d' p = Some (FileNode content (Some t1)) \<and>
    ctx_permissions ctx' = ctx_permissions ctx \<and>
    (\<exists>n. lru_peek lr (read_state ctx') p = Some (t1, n)) \<and>
    (\<forall>q. bystander (ctx_permissions ctx) p q \<longrightarrow> is_file (map_of d q) \<longrightarrow> map_of d' q = map_of d q)"
proof -
  let ?m = "ctx_permissions ctx"
  let ?B = "backup_path ?m (io_now io) f" and ?S = "backup_slot ?m (io_now io)"
  obtain ctx1 where g: "gate_existing lr io d p ctx = (Ok (), ctx1)"
    using gate_existing_fresh [OF assms(1), of io d p ctx] assms(11)
    by (cases "gate_existing lr io d p ctx") (auto simp: is_ok_def split: sum.splits)
  have perm: "ctx_permissions ctx1 = ?m" using gate_existing_context [of lr io d p ctx] g by simp
  have S: "?S \<noteq> []" "prefix ?S ?S" "\<not> prefix ?B ?S" "?S \<noteq> ?B"
    by (simp_all add: backup_slot_def backup_path_def)
  have pB: "p \<noteq> ?B" "p \<noteq> ?S" using assms(9)
    by (auto simp: path_starts_with_def backup_path_def backup_slot_def prefix_def)
  obtain d1 where c: "create_dir_all io ?S d = (True, d1)"
    using assms(12) by (cases "create_dir_all io ?S d") simp
  note keep = create_dir_all_keep [of io ?S d, unfolded c snd_conv fst_conv]
  have d1: "map_of d1 p = Some (FileNode s t)" "map_of d1 ?B = map_of d ?B" "map_of d1 ?S \<noteq> None"
    using keep assms(10) S by auto
  have "read_bytes io d1 p = Some s" using d1(1) assms(2) by (simp add: read_bytes_def all_ok_def)
  moreover have "map_of d1 ?B \<noteq> Some (DirNode t')" for t' using d1(2) assms(13) by simp
  ultimately have "copy_file io p ?B d1 = (True, AList.update ?B (FileNode s (Some t1)) d1)"
    using assms(2,3) by (cases "map_of d1 ?B") (auto simp: copy_file_def write_bytes_def all_ok_def split: node.splits)
  then have b: "backup_by_copy io ?m p d = AList.update ?B (FileNode s (Some t1)) d1"
    using assms(8) c by (simp add: backup_by_copy_def)
  let ?d2 = "AList.update ?B (FileNode s (Some t1)) d1"
  let ?d3 = "AList.update p (FileNode content (Some t1)) ?d2"
  have st: "stat io x q = map_of x q" for x q using assms(2) by (simp add: stat_def all_ok_def)
  have w: "write_bytes io p content ?d2 = (True, ?d3)"
    using d1(1) pB(1) assms(2,3) by (simp add: write_bytes_def update_conv' all_ok_def)
  have f: "write_file lr io input d ctx =
    (Ok (append_post_edit_diagnostics io p (''Wrote '' @ nat_to_string (length content) @ '' bytes to '' @ path_to_string p)),
     ?d3, record_written lr io ?d3 p ctx1)"
    using assms(5,6,7,10) g b w by (simp add: write_file_def st)
  have r: "record_written lr io ?d3 p ctx1 = record_read lr (io_nanos io) p t1 ctx1"
    by (simp add: record_written_def st update_conv')
  have peek: "lru_peek lr (read_state (record_read lr (io_nanos io) p t1 ctx1)) p = Some (t1, io_nanos io)"
    using assms(1) by (simp add: record_read_def lru_laws_def)
  have new: "k \<le> io_now io" if k: "parse_unsigned 64 name = Some k"
      and q: "map_of ?d3 (backup_dir ?m @ [Normal name, Normal f]) = Some (FileNode s' t')" for name k s' t'
  proof (cases "backup_dir ?m @ [Normal name, Normal f] = ?B")
    case True
    then have "name = nat_to_string (io_now io)" by (simp add: backup_path_def)
    then show ?thesis using k parse_nat_to_string [OF assms(4)] by simp
  next
    case False
    have "backup_dir ?m @ [Normal name, Normal f] \<noteq> p" using assms(9) by (auto simp: path_starts_with_def)
    then have "map_of d1 (backup_dir ?m @ [Normal name, Normal f]) = Some (FileNode s' t')"
      using q False by (simp add: update_conv')
    then have "map_of d (backup_dir ?m @ [Normal name, Normal f]) = Some (FileNode s' t')"
      using keep by (auto split: if_splits)
    then show ?thesis using assms(14) k by blast
  qed
  have n: "newest_backup ?m ?d3 f (io_now io) s"
    using assms(4) d1(3) pB S(4) new unfolding newest_backup_def by (auto simp: update_conv')
  have others: "map_of ?d3 q = map_of d q" if "bystander ?m p q" "is_file (map_of d q)" for q
    using that bystander_backup [OF that(1), of "io_now io" f] keep [of q]
    by (auto simp: update_conv' bystander_def is_file_def split: option.splits)
  show ?thesis unfolding f r using n peek others perm pB(1)
    by (auto simp: update_conv' record_read_def)
qed

text \<open>C23: an edit can be undone. After \<open>write_file\<close> has replaced a file the session had read, \<open>revert_file\<close>
  without a choice of backup succeeds and puts the bytes back, provided the system calls work and no
  backup under the file's name carries a later time.\<close>

theorem write_revert_round_trip:
  assumes "lru_laws lr" "all_ok io" "all_ok io2" "io_mtime io = Some t1" "io_now io < 2 ^ 64"
    and "as_str (json_index input ''path'') = Some path" "as_str (json_index input ''content'') = Some content"
    and "verify_path (io_fs io) (ctx_permissions ctx) path Write = Ok p" "file_name p = Some f"
    and "\<not> path_starts_with p (backup_dir (ctx_permissions ctx))"
    and "map_of d p = Some (FileNode s t)" "fresh lr io d p ctx"
    and "fst (create_dir_all io (backup_slot (ctx_permissions ctx) (io_now io)) d)"
    and "\<forall>t. map_of d (backup_path (ctx_permissions ctx) (io_now io) f) \<noteq> Some (DirNode t)"
    and "\<forall>name k s' t. parse_unsigned 64 name = Some k \<and>
      map_of d (backup_dir (ctx_permissions ctx) @ [Normal name, Normal f]) = Some (FileNode s' t) \<longrightarrow> k \<le> io_now io"
    and "as_str (json_index input2 ''path'') = Some path2" "json_get input2 ''backup'' = None"
    and "as_bool (json_index input2 ''dry_run'') \<noteq> Some True"
    and "verify_path (io_fs io2) (ctx_permissions ctx) path2 Write = Ok p"
  shows "\<exists>out d1 ctx1 out2 d2 ctx2.
    write_file lr io input d ctx = (Ok out, d1, ctx1) \<and> map_of d1 p = Some (FileNode content (Some t1)) \<and>
    revert_file lr io2 input2 d1 ctx1 = (Ok out2, d2, ctx2) \<and> map_of d2 p = Some (FileNode s (io_mtime io2))"
proof -
  obtain out d1 ctx1 n where w: "write_file lr io input d ctx = (Ok out, d1, ctx1)"
    "newest_backup (ctx_permissions ctx) d1 f (io_now io) s" "map_of d1 p = Some (FileNode content (Some t1))"
    "ctx_permissions ctx1 = ctx_permissions ctx" "lru_peek lr (read_state ctx1) p = Some (t1, n)"
    using write_leaves_backup [OF assms(1,2,4-15)] by blast
  have "fresh lr io2 d1 p ctx1" using w(3,5) by (simp add: fresh_def stat_def)
  then show ?thesis
    using revert_newest [OF assms(1,3), of ctx1 d1 f "io_now io" s input2 path2 p] w assms(9,10,16-19) by auto
qed

section \<open>A concrete session\<close>

text \<open>An LRU cache of 64 entries, most recent first, meets the laws.\<close>

type_synonym cache = "(path \<times> nat \<times> nat) list"

definition sample_lru :: "cache lru" where
  "sample_lru =
     \<lparr>lru_get = (\<lambda>c k. case map_of c k of
        None \<Rightarrow> (None, c) | Some v \<Rightarrow> (Some v, (k, v) # filter (\<lambda>(k', _). k' \<noteq> k) c)),
      lru_peek = map_of,
      lru_put = (\<lambda>k v c. (k, v) # take 63 (filter (\<lambda>(k', _). k' \<noteq> k) c))\<rparr>"

lemma map_of_take: "map_of (take n c) k = Some v \<Longrightarrow> map_of c k = Some v"
  by (induction c arbitrary: n) (auto simp: take_Cons' split: if_splits)

lemma map_of_without: "map_of (filter (\<lambda>(k', _). k' \<noteq> k) c) k' = (if k' = k then None else map_of c k')"
  by (induction c) auto

lemma sample_lru_laws: "lru_laws sample_lru"
proof -
  have "map_of (take 63 (filter (\<lambda>(x, _). x \<noteq> k) c)) k' \<in> {None, map_of c k'}" if "k' \<noteq> k" for k k' and c :: cache
    using map_of_take [of 63 "filter (\<lambda>(x, _). x \<noteq> k) c" k'] map_of_without [of k c k'] that
    by (cases "map_of (take 63 (filter (\<lambda>(x, _). x \<noteq> k) c)) k'") auto
  then show ?thesis
    by (auto simp: lru_laws_def sample_lru_def map_of_without split: option.splits)
qed

definition sample_io :: "nat \<Rightarrow> io" where
  "sample_io now =
     \<lparr>io_fs = plain_fs, io_stat_ok = (\<lambda>_. True), io_read_ok = (\<lambda>_. True), io_write_ok = (\<lambda>_. True),
      io_mkdir_ok = (\<lambda>_. True), io_list_ok = (\<lambda>_. True), io_torn = (\<lambda>_. FileNode [] None),
      io_mtime = Some now, io_now = now, io_nanos = now, io_diag = (\<lambda>_. None)\<rparr>"

abbreviation sample_path :: "string \<Rightarrow> path" where
  "sample_path dir \<equiv> [RootDir, Normal ''w'', Normal dir, Normal ''x'']"

definition sample_disk :: disk where
  "sample_disk = [(sample_path ''a'', FileNode ''old'' (Some 1)), (sample_path ''b'', FileNode ''other'' (Some 1))]"

definition sample_ctx :: "cache exec_context" where
  "sample_ctx =
     (ctx_new [(sample_path ''a'', (1, 1)), (sample_path ''b'', (1, 1))] sample_matrix)"

definition sample_write :: json where
  "sample_write = JObject [(''path'', JString ''a/x''), (''content'', JString ''new'')]"

definition sample_revert :: "string \<Rightarrow> json" where
  "sample_revert dir = JObject [(''path'', JString (dir @ ''/x''))]"

lemma sample_verify:
  "verify_path plain_fs sample_matrix ''a/x'' Write = Ok (sample_path ''a'')"
  "verify_path plain_fs sample_matrix ''b/x'' Write = Ok (sample_path ''b'')"
  by code_simp+

lemma sample_setup:
  "all_ok (sample_io n)" "io_mtime (sample_io n) = Some n" "io_now (sample_io n) = n" "io_fs (sample_io n) = plain_fs"
  "ctx_permissions sample_ctx = sample_matrix"
  "as_str (json_index sample_write ''path'') = Some ''a/x''" "as_str (json_index sample_write ''content'') = Some ''new''"
  "as_str (json_index (sample_revert dir) ''path'') = Some (dir @ ''/x'')"
  "json_get (sample_revert dir) ''backup'' = None" "as_bool (json_index (sample_revert dir) ''dry_run'') \<noteq> Some True"
  "file_name (sample_path dir) = Some ''x''" "\<not> path_starts_with (sample_path dir) (backup_dir sample_matrix)"
  "map_of sample_disk (sample_path ''a'') = Some (FileNode ''old'' (Some 1))"
  "map_of sample_disk (sample_path ''b'') = Some (FileNode ''other'' (Some 1))"
  by (simp_all add: sample_io_def all_ok_def sample_ctx_def ctx_new_def sample_write_def sample_revert_def json_index_def
      file_name_def path_starts_with_def sample_matrix_def sample_disk_def)

lemma sample_gate:
  "fresh sample_lru (sample_io 7) sample_disk (sample_path ''a'') sample_ctx"
  "fst (create_dir_all (sample_io 7) (backup_slot sample_matrix 7) sample_disk)"
  "map_of sample_disk (backup_path sample_matrix 7 ''x'') = None"
  "map_of sample_disk (backup_dir sample_matrix @ [Normal name, Normal f]) = None"
  by (simp_all add: fresh_def stat_def sample_io_def sample_disk_def sample_lru_def sample_ctx_def ctx_new_def
      create_dir_all_def backup_slot_def backup_path_def sample_matrix_def is_file_def)

lemmas sample_write_ok = write_leaves_backup [of sample_lru "sample_io 7" 7 sample_write "''a/x''" "''new''" sample_ctx
  "sample_path ''a''" "''x''" sample_disk "''old''" "Some 1", OF sample_lru_laws]

theorem write_revert_round_trip_witness:
  "\<exists>out d1 ctx1 out2 d2 ctx2.
    write_file sample_lru (sample_io 7) sample_write sample_disk sample_ctx = (Ok out, d1, ctx1) \<and>
    map_of d1 (sample_path ''a'') = Some (FileNode ''new'' (Some 7)) \<and>
    revert_file sample_lru (sample_io 9) (sample_revert ''a'') d1 ctx1 = (Ok out2, d2, ctx2) \<and>
    map_of d2 (sample_path ''a'') = Some (FileNode ''old'' (Some 9))"
  using write_revert_round_trip [of sample_lru "sample_io 7" "sample_io 9" 7 sample_write "''a/x''" "''new''" sample_ctx
      "sample_path ''a''" "''x''" sample_disk "''old''" "Some 1" "sample_revert ''a''" "''a/x''"]
    sample_lru_laws sample_setup sample_gate sample_verify by simp


definition sample_patch :: json where
  "sample_patch = JObject [(''path'', JString ''a/x''), (''old_string'', JString ''l''), (''new_string'', JString ''L'')]"

theorem patch_file_edits_witness:
  "\<exists>out d' ctx' p s. patch_file sample_lru (sample_io 7) sample_patch sample_disk sample_ctx = (Ok out, d', ctx') \<and>
     map_of d' p = Some (FileNode s (Some 7))"
proof -
  have "is_ok (fst (patch_file sample_lru (sample_io 7) sample_patch sample_disk sample_ctx))" by code_simp
  then obtain out d' ctx' where r: "patch_file sample_lru (sample_io 7) sample_patch sample_disk sample_ctx = (Ok out, d', ctx')"
    by (cases "patch_file sample_lru (sample_io 7) sample_patch sample_disk sample_ctx") (auto simp: is_ok_def split: sum.splits)
  have "as_str (json_index sample_patch ''old_string'') = Some ''l''" "utf8_valid ''l''" by code_simp+
  from patch_file_edits [OF r this] show ?thesis using r sample_setup(2) unfolding Let_def by auto
qed

text \<open>Backups are kept by file name alone. After \<open>a/x\<close> has been written, a revert of \<open>b/x\<close>, which was
  never edited, succeeds and replaces it by the old content of \<open>a/x\<close>.\<close>

theorem revert_restores_namesake:
  "\<exists>out d1 ctx1 out2 d2 ctx2.
    write_file sample_lru (sample_io 7) sample_write sample_disk sample_ctx = (Ok out, d1, ctx1) \<and>
    map_of d1 (sample_path ''b'') = Some (FileNode ''other'' (Some 1)) \<and>
    revert_file sample_lru (sample_io 9) (sample_revert ''b'') d1 ctx1 = (Ok out2, d2, ctx2) \<and>
    map_of d2 (sample_path ''b'') = Some (FileNode ''old'' (Some 9))"
proof -
  let ?b = "sample_path ''b''"
  have "bystander sample_matrix (sample_path ''a'') ?b" "is_file (map_of sample_disk ?b)"
    by (simp_all add: bystander_def path_starts_with_def sample_matrix_def sample_setup is_file_def)
  then obtain out d1 ctx1 where w: "write_file sample_lru (sample_io 7) sample_write sample_disk sample_ctx = (Ok out, d1, ctx1)"
    "newest_backup sample_matrix d1 ''x'' 7 ''old''" "ctx_permissions ctx1 = sample_matrix"
    "map_of d1 ?b = Some (FileNode ''other'' (Some 1))"
    using sample_write_ok sample_setup sample_gate sample_verify by auto
  have "lru_peek sample_lru (read_state (snd (snd (write_file sample_lru (sample_io 7) sample_write sample_disk sample_ctx)))) ?b =
      Some (1, 1)" by code_simp
  then have "lru_peek sample_lru (read_state ctx1) ?b = Some (1, 1)" by (simp only: w(1) snd_conv)
  then have "fresh sample_lru (sample_io 9) d1 ?b ctx1" using w(4) by (simp add: fresh_def stat_def)
  then show ?thesis
    using revert_newest [OF sample_lru_laws sample_setup(1) [of 9], of ctx1 d1 "''x''" 7 "''old''" "sample_revert ''b''" "''b/x''" ?b]
      w sample_setup sample_verify(2) by simp
qed

section \<open>What is read\<close>

definition join_terminated :: "string list \<Rightarrow> string" where
  "join_terminated ls = concat (map (\<lambda>l. l @ [LF_char]) ls)"

text \<open>The view without carriage returns, line by line.\<close>

lemma to_lf_lines:
  "to_lf s = join_terminated (map strip_cr (butlast (split_char LF_char s))) @ last (split_char LF_char s)"
proof (induction s rule: to_lf.induct)
  case (3 c d s)
  obtain w ws where sp: "split_char LF_char (d # s) = w # ws" by (metis neq_Nil_conv split_char_nonempty)
  show ?case
  proof (cases "c = CR_char \<and> d = LF_char")
    case True
    then show ?thesis using 3(1) by (simp add: join_terminated_def strip_cr_def)
  next
    case False
    have strip: "strip_cr (c # w) = c # strip_cr w" if "ws \<noteq> []"
    proof (cases "w = []")
      case True
      then have "d = LF_char" using sp by (auto split: if_splits list.splits)
      then show ?thesis using False True by (simp add: strip_cr_def)
    qed (simp add: strip_cr_def)
    have "to_lf (c # d # s) = c # to_lf (d # s)" using False by simp
    also have "\<dots> = join_terminated (map strip_cr (butlast (split_char LF_char (c # d # s)))) @ last (split_char LF_char (c # d # s))"
    proof (cases "c = LF_char")
      case True
      then show ?thesis unfolding 3(2) [OF False] using sp by (simp add: join_terminated_def strip_cr_def del: split_char.simps(2))
          (simp add: join_terminated_def strip_cr_def)
    next
      case n: False
      then have "split_char LF_char (c # d # s) = (c # w) # ws" using sp by simp
      then show ?thesis unfolding 3(2) [OF False] sp using strip by (cases "ws = []") (simp_all add: join_terminated_def)
    qed
    finally show ?thesis .
  qed
qed (simp_all add: join_terminated_def strip_cr_def)

lemma last_split_char: "last (split_char d s) = [] \<longleftrightarrow> s = [] \<or> last s = d"
proof (induction s)
  case (Cons c s)
  obtain w ws where sp: "split_char d s = w # ws" by (cases "split_char d s") auto
  then show ?case using Cons by (cases s) (auto split: if_splits list.splits)
qed simp

lemma lines_are_view:
  "join_terminated (str_lines s) = to_lf s @ (if s = [] \<or> last s = LF_char then [] else [LF_char])"
  using to_lf_lines [of s] last_split_char [of LF_char s]
  by (auto simp: str_lines_def drop_final_empty_def join_terminated_def)

lemma no_crlf_view: "\<not> (\<exists>i < length s. crlf_at s i) \<Longrightarrow> to_lf s = s"
proof (induction s rule: to_lf.induct)
  case (3 c d s)
  have "\<not> (c = CR_char \<and> d = LF_char)"
    using 3(3) by (auto simp: crlf_at_def) (metis One_nat_def Suc_less_eq diff_Suc_1 length_Cons lessI nth_Cons_0 nth_Cons_Suc zero_less_Suc)
  moreover have "\<not> (\<exists>i < length (d # s). crlf_at (d # s) i)"
  proof
    assume "\<exists>i < length (d # s). crlf_at (d # s) i"
    then obtain i where i: "i < length (d # s)" "crlf_at (d # s) i" by blast
    then obtain j where "i = Suc j" by (cases i) (auto simp: crlf_at_def)
    then have "crlf_at (c # d # s) (Suc i)" using i by (simp add: crlf_at_def)
    then show False using 3(3) i(1) by (metis Suc_less_eq length_Cons)
  qed
  ultimately show ?case using 3(2) by simp
qed simp_all

lemma view_is_to_lf: "detect_line_endings s \<noteq> Mixed \<Longrightarrow> view_of (detect_line_endings s) s = to_lf s"
proof (cases "detect_line_endings s")
  case Lf
  then have "\<not> (\<exists>i < length s. crlf_at s i)"
    by (auto simp: detect_line_endings_def Let_def filter_empty_conv split: if_splits)
  then show ?thesis using Lf no_crlf_view by (simp add: view_of_def)
qed (simp_all add: view_of_def)

lemma read_loop_all:
  "read_loop n k acc ls = Some r \<Longrightarrow> k + length ls \<le> n \<Longrightarrow> r = (acc @ join_terminated ls, False)"
  by (induction n k acc ls rule: read_loop.induct) (auto simp: join_terminated_def split: if_splits)

text \<open>\<open>read_file\<close> shows the view \<open>patch_file\<close> matches in. When a file with uniform line endings is read in
  full, what the model gets is that view, with a line feed added when the last line has none.\<close>

theorem read_shows_patch_view:
  assumes "read_file lr io input d ctx = (Ok out, ctx')"
    and "as_str (json_index input ''path'') = Some path" "verify_path (io_fs io) (ctx_permissions ctx) path Read = Ok p"
    and "read_bytes io d p = Some raw" "out \<noteq> unchanged_stub p"
    and "length (str_lines raw) \<le> max_lines_of input" "detect_line_endings raw \<noteq> Mixed"
  shows "out = view_of (detect_line_endings raw) raw @ (if raw = [] \<or> last raw = LF_char then [] else [LF_char])"
proof -
  have c: "read_content io d p (max_lines_of input) = Ok out"
    using assms(1-3,5) by (auto simp: read_file_def Let_def split: if_splits)
  then obtain r where r: "read_loop (max_lines_of input) 0 [] (str_lines raw) = Some r"
    using assms(4) by (auto simp: read_content_def split: option.splits)
  from read_loop_all [OF this] assms(6) have "r = (join_terminated (str_lines raw), False)" by simp
  then show ?thesis using c r assms(4) lines_are_view [of raw] view_is_to_lf [OF assms(7)]
    by (simp add: read_content_def)
qed

definition sample_read :: json where
  "sample_read = JObject [(''path'', JString ''a/x'')]"

theorem read_shows_patch_view_witness:
  "fst (read_file sample_lru (sample_io 7) sample_read [(sample_path ''a'', FileNode (''p'' @ [CR_char, LF_char] @ ''q'') (Some 5))]
     sample_ctx) = Ok (''p'' @ [LF_char] @ ''q'' @ [LF_char])"
proof -
  let ?raw = "''p'' @ [CR_char, LF_char] @ ''q''"
  let ?d = "[(sample_path ''a'', FileNode ?raw (Some 5))]"
  define out where "out = ''p'' @ [LF_char] @ ''q'' @ [LF_char]"
  have "fst (read_file sample_lru (sample_io 7) sample_read ?d sample_ctx) = Ok out" unfolding out_def by code_simp
  then obtain ctx' where r: "read_file sample_lru (sample_io 7) sample_read ?d sample_ctx = (Ok out, ctx')"
    by (metis prod.collapse)
  have a: "as_str (json_index sample_read ''path'') = Some ''a/x''"
    "verify_path (io_fs (sample_io 7)) (ctx_permissions sample_ctx) ''a/x'' Read = Ok (sample_path ''a'')"
    "read_bytes (sample_io 7) ?d (sample_path ''a'') = Some ?raw" "out \<noteq> unchanged_stub (sample_path ''a'')"
    "length (str_lines ?raw) \<le> max_lines_of sample_read" "detect_line_endings ?raw \<noteq> Mixed"
    unfolding out_def by code_simp+
  have "view_of (detect_line_endings ?raw) ?raw = ''p'' @ [LF_char] @ ''q''" by code_simp
  then show ?thesis using read_shows_patch_view [OF r a] r by simp
qed

text \<open>A read that fails after the file was found still opens the gate for edits.\<close>

lemma failed_read_opens_gate:
  assumes "lru_laws lr" "read_file lr io input d ctx = (Err ReadError, ctx')"
    and "as_str (json_index input ''path'') = Some path" "verify_path (io_fs io) (ctx_permissions ctx) path Read = Ok p"
  shows "fresh lr io d p ctx'"
  using assms
  by (auto simp: read_file_def fresh_def record_read_def lru_laws_def Let_def split: if_splits option.splits)

end
