(* ===== verification/ToolParse.thy ===== *)
theory ToolParse
  imports TextUtil
begin

text \<open>
  Tool calls in model text (\<open>stems/tool_parse.rs\<close>): \<open>tool_call\<close> blocks, containers of them, fenced code
  blocks and raw tool tags. The JSON parser (\<open>serde_json::from_str\<close>) is the argument \<open>js\<close>, \<open>None\<close> for
  text that is not JSON; the objects it gives list their members in the order of the map. A call is its
  name and parameters: the identifier is a fresh UUID and carries nothing.
\<close>

record parsed_call =
  pc_name :: string
  pc_parameters :: json

section \<open>JSON bodies\<close>

fun as_object :: "json \<Rightarrow> (string \<times> json) list option" where
  "as_object (JObject kvs) = Some kvs"
| "as_object _ = None"

definition has_key :: "(string \<times> json) list \<Rightarrow> string \<Rightarrow> bool" where
  "has_key kvs k = (map_of kvs k \<noteq> None)"

definition obj_insert :: "string \<Rightarrow> json \<Rightarrow> (string \<times> json) list \<Rightarrow> (string \<times> json) list" where
  "obj_insert k v kvs = (k, v) # filter (\<lambda>(k', _). k' \<noteq> k) kvs"

text \<open>The name of a call, and whether it is the first key of the object.\<close>

definition json_call_name :: "json \<Rightarrow> string \<times> bool" where
  "json_call_name val =
     (case as_str (json_index val ''tool'') of
        Some t \<Rightarrow> (t, False)
      | None \<Rightarrow>
          (case as_str (json_index val ''name'') of
             Some t \<Rightarrow> (t, False)
           | None \<Rightarrow> (case as_object val of Some ((k, _) # _) \<Rightarrow> (k, True) | _ \<Rightarrow> (''unknown'', False))))"

definition explicit_params :: "json \<Rightarrow> (string \<times> json) list option" where
  "explicit_params val = (case json_get val ''parameters'' of Some v \<Rightarrow> as_object v | None \<Rightarrow> None)"

definition extra_params :: "string \<Rightarrow> bool \<Rightarrow> json \<Rightarrow> (string \<times> json) list" where
  "extra_params name from_key val =
     (case as_object val of
        None \<Rightarrow> []
      | Some kvs \<Rightarrow>
          filter (\<lambda>(k, _). k \<noteq> ''tool'' \<and> k \<noteq> ''name'' \<and> k \<noteq> ''parameters'' \<and> \<not> (from_key \<and> k = name)) kvs)"

definition merge_extra :: "(string \<times> json) list \<Rightarrow> (string \<times> json) list \<Rightarrow> (string \<times> json) list" where
  "merge_extra extra base = fold (\<lambda>(k, v) obj. if has_key obj k then obj else obj_insert k v obj) extra base"

definition json_call_params :: "string \<Rightarrow> bool \<Rightarrow> json \<Rightarrow> json" where
  "json_call_params name from_key val =
     (let extra = extra_params name from_key val in
      if extra = []
      then (case explicit_params val of
              Some base \<Rightarrow> JObject base
            | None \<Rightarrow> (case as_object val of Some ((_, v) # _) \<Rightarrow> v | _ \<Rightarrow> JNull))
      else (case explicit_params val of
              Some base \<Rightarrow> JObject (merge_extra extra base)
            | None \<Rightarrow> JObject extra))"

definition parse_tool_call_json :: "(string \<Rightarrow> json option) \<Rightarrow> string \<Rightarrow> parsed_call option" where
  "parse_tool_call_json js inner =
     map_option
       (\<lambda>val. case json_call_name val of
          (name, from_key) \<Rightarrow> \<lparr>pc_name = name, pc_parameters = json_call_params name from_key val\<rparr>)
       (js inner)"

section \<open>Tags\<close>

record tag_match =
  tm_container :: bool
  tm_name_attr :: "string option"
  tm_start :: nat
  tm_open_end :: nat

definition extract_attr :: "string \<Rightarrow> string \<Rightarrow> string option" where
  "extract_attr open_tag attr_name =
     (let pat = attr_name @ ''='' @ [CHR 0x22] in
      case str_find pat open_tag of
        None \<Rightarrow> None
      | Some i \<Rightarrow>
          (let rest = drop (i + length pat) open_tag in
           case str_find [CHR 0x22] rest of
             None \<Rightarrow> None
           | Some e \<Rightarrow> (if e = 0 then None else Some (take e rest))))"

lemma str_find_bound: "str_find pat s = Some i \<Longrightarrow> i + length pat \<le> length s"
  using str_find_Some [of pat s i] prefix_length_le [of pat "drop i s"] by auto

text \<open>The opening of a single call: an \<open>s\<close> after it makes it a container.\<close>

function find_tag_prefix :: "string \<Rightarrow> string \<Rightarrow> nat option" where
  "find_tag_prefix pre s =
     (case str_find pre s of
        None \<Rightarrow> None
      | Some pos \<Rightarrow>
          (case drop (pos + length pre) s of
             [] \<Rightarrow> Some pos
           | c # _ \<Rightarrow>
               (if c = CHR ''s'' then map_option (\<lambda>i. Suc (pos + i)) (find_tag_prefix pre (drop (Suc pos) s))
                else Some pos)))"
  by pat_completeness auto
termination
proof (relation "measure (length \<circ> snd)")
  fix pre s pos c rest
  assume "drop (pos + length (pre :: string)) s = (c :: char) # rest"
  then have "s \<noteq> []" by auto
  then show "((pre, drop (Suc pos) s), (pre, s)) \<in> measure (length \<circ> snd)" by simp
qed simp

declare find_tag_prefix.simps [simp del]

definition nearest_tag :: "string \<Rightarrow> (bool \<times> nat) option" where
  "nearest_tag s =
     (case (find_tag_prefix ''<tool_call'' s, str_find ''<tool_calls'' s) of
        (Some c, Some cs) \<Rightarrow> (if c \<le> cs then Some (False, c) else Some (True, cs))
      | (Some c, None) \<Rightarrow> Some (False, c)
      | (None, Some cs) \<Rightarrow> Some (True, cs)
      | (None, None) \<Rightarrow> None)"

definition valid_open :: "string \<Rightarrow> bool" where
  "valid_open open_tag =
     (prefix ''<tool_call>'' open_tag \<or> prefix ''<tool_call '' open_tag \<or>
      prefix ''<tool_calls>'' open_tag \<or> prefix ''<tool_calls '' open_tag)"

function find_next_tag :: "string \<Rightarrow> tag_match option" where
  "find_next_tag s =
     (case nearest_tag s of
        None \<Rightarrow> None
      | Some (container, pos) \<Rightarrow>
          (case str_find ''>'' (drop pos s) of
             None \<Rightarrow> None
           | Some gt \<Rightarrow>
               (let open_tag = take (Suc gt) (drop pos s) in
                if valid_open open_tag
                then Some \<lparr>tm_container = container, tm_name_attr = extract_attr open_tag ''name'',
                           tm_start = pos, tm_open_end = pos + gt + 1\<rparr>
                else map_option
                       (\<lambda>m. m\<lparr>tm_start := pos + 1 + tm_start m, tm_open_end := pos + 1 + tm_open_end m\<rparr>)
                       (find_next_tag (drop (Suc pos) s)))))"
  by pat_completeness auto
termination
proof (relation "measure length")
  fix s x container pos gt
  assume "str_find ''>'' (drop pos s) = Some gt"
  from str_find_bound [OF this] have "s \<noteq> []" by auto
  then show "(drop (Suc pos) s, s) \<in> measure length" by simp
qed simp

declare find_next_tag.simps [simp del]

definition open_tag_of :: "string \<Rightarrow> string" where "open_tag_of tag = ''<'' @ tag"
definition close_tag_of :: "string \<Rightarrow> string" where "close_tag_of tag = ''</'' @ tag @ ''>''"

lemma opening_length [simp]: "length (open_tag_of tag) = Suc (length tag)"
  and closing_length [simp]: "length (close_tag_of tag) = length tag + 3"
  by (simp_all add: open_tag_of_def close_tag_of_def)

lemma str_find_in_drop:
  "str_find pat (drop pos s) = Some i \<Longrightarrow> pat \<noteq> [] \<Longrightarrow> pos < length s \<and> pos + i + length pat \<le> length s"
  using str_find_bound [of pat "drop pos s" i] by (cases pat) auto

lemma tags_in_drop:
  "str_find (open_tag_of tag) (drop pos s) = Some i \<Longrightarrow> pos < length s \<and> pos + i + Suc (length tag) \<le> length s"
  "str_find (close_tag_of tag) (drop pos s) = Some i \<Longrightarrow> pos < length s \<and> pos + i + length tag + 3 \<le> length s"
  using str_find_in_drop [of "open_tag_of tag" pos s i] str_find_in_drop [of "close_tag_of tag" pos s i]
  by (auto simp: open_tag_of_def close_tag_of_def)

text \<open>The text up to the closing tag that matches, with the depth of nested opening tags.\<close>

function body_loop :: "string \<Rightarrow> string \<Rightarrow> nat \<Rightarrow> nat \<Rightarrow> string \<times> string" where
  "body_loop tag s depth pos =
     (case str_find (close_tag_of tag) (drop pos s) of
        None \<Rightarrow>
          (case str_find (open_tag_of tag) (drop pos s) of
             None \<Rightarrow> (s, [])
           | Some op \<Rightarrow> body_loop tag s depth (pos + op + length (open_tag_of tag)))
      | Some cp \<Rightarrow>
          (if depth = 1 \<and> (case str_find (open_tag_of tag) (drop pos s) of None \<Rightarrow> True | Some op \<Rightarrow> cp < op)
           then (take (pos + cp) s, drop (pos + cp + length (close_tag_of tag)) s)
           else (case str_find (open_tag_of tag) (drop pos s) of
                   None \<Rightarrow> body_loop tag s (depth - 1) (pos + cp + length (close_tag_of tag))
                 | Some op \<Rightarrow>
                     (if op < cp then body_loop tag s (depth + 1) (pos + op + length (open_tag_of tag))
                      else body_loop tag s (depth - 1) (pos + cp + length (close_tag_of tag))))))"
  by pat_completeness auto
termination
  by (relation "measure (\<lambda>(tag, s, depth, pos). length s - pos)") (auto dest!: tags_in_drop)

declare body_loop.simps [simp del]

definition find_tag_body :: "string \<Rightarrow> string \<Rightarrow> string \<times> string" where
  "find_tag_body s tag = body_loop tag s 1 0"

lemma body_loop_lengths:
  "length (fst (body_loop tag s depth pos)) \<le> length s \<and> length (snd (body_loop tag s depth pos)) \<le> length s"
proof (induction tag s depth pos rule: body_loop.induct)
  case (1 tag s depth pos)
  show ?case
    using 1 unfolding body_loop.simps [of tag s depth pos] by (auto split: option.splits)
qed

lemma find_tag_body_lengths:
  "length (fst (find_tag_body s tag)) \<le> length s" "length (snd (find_tag_body s tag)) \<le> length s"
  using body_loop_lengths [of tag s 1 0] by (simp_all add: find_tag_body_def)

section \<open>Fenced code blocks\<close>

definition build_tool_call :: "(string \<Rightarrow> json option) \<Rightarrow> string \<Rightarrow> string \<Rightarrow> parsed_call" where
  "build_tool_call js name txt =
     \<lparr>pc_name = name,
      pc_parameters =
        (if txt = [] then JObject [] else (case js txt of Some v \<Rightarrow> v | None \<Rightarrow> JObject []))\<rparr>"

definition build_tool_call_from_json :: "json \<Rightarrow> parsed_call option" where
  "build_tool_call_from_json val =
     (case as_object val of
        None \<Rightarrow> None
      | Some obj \<Rightarrow>
          (let params = (case map_of obj ''parameters'' of Some v \<Rightarrow> v | None \<Rightarrow> JNull) in
           case (case map_of obj ''tool'' of Some v \<Rightarrow> as_str v | None \<Rightarrow> None) of
             Some t \<Rightarrow> Some \<lparr>pc_name = t, pc_parameters = params\<rparr>
           | None \<Rightarrow>
               (case (case map_of obj ''name'' of Some v \<Rightarrow> as_str v | None \<Rightarrow> None) of
                  Some t \<Rightarrow> Some \<lparr>pc_name = t, pc_parameters = params\<rparr>
                | None \<Rightarrow> None)))"

text \<open>The inline code just before a position.\<close>

definition find_inline_code_tool_before :: "string \<Rightarrow> nat \<Rightarrow> string option" where
  "find_inline_code_tool_before s pos =
     (let front = take pos s in
      case str_rfind [CHR 0x60] front of
        None \<Rightarrow> None
      | Some e \<Rightarrow>
          (case str_rfind [CHR 0x60] (take e front) of
             None \<Rightarrow> None
           | Some b \<Rightarrow>
               (let candidate = trim (drop (Suc b) (take e front)) in
                if candidate = [] \<or> str_contains candidate '' '' then None else Some candidate)))"

definition fence :: string where "fence = replicate 3 (CHR 0x60)"

definition fenced_call :: "(string \<Rightarrow> json option) \<Rightarrow> string \<Rightarrow> nat \<Rightarrow> string \<Rightarrow> parsed_call list" where
  "fenced_call js s fence_pos code =
     (let inline = find_inline_code_tool_before s fence_pos in
      if code = [] then (case inline of Some t \<Rightarrow> [build_tool_call js t []] | None \<Rightarrow> [])
      else (case js code of
              None \<Rightarrow> []
            | Some val \<Rightarrow>
                (case build_tool_call_from_json val of
                   Some tc \<Rightarrow> [tc]
                 | None \<Rightarrow>
                     (if as_object val = Some []
                      then (case inline of Some t \<Rightarrow> [build_tool_call js t code] | None \<Rightarrow> [])
                      else []))))"

function markdown_loop :: "(string \<Rightarrow> json option) \<Rightarrow> string \<Rightarrow> nat \<Rightarrow> parsed_call list" where
  "markdown_loop js s search_start =
     (case str_find fence (drop search_start s) of
        None \<Rightarrow> []
      | Some i \<Rightarrow>
          (let after_fence = drop (search_start + i + 3) s;
               content_start = (case str_find [CHR 0x0A] after_fence of Some n \<Rightarrow> Suc n | None \<Rightarrow> 0);
               body = drop content_start after_fence
           in case str_find (CHR 0x0A # fence) body of
                None \<Rightarrow> []
              | Some e \<Rightarrow>
                  fenced_call js s (search_start + i) (trim (take e body)) @
                  markdown_loop js s (search_start + i + 3 + content_start + e + 4)))"
  by pat_completeness auto
termination
  by (relation "measure (\<lambda>(js, s, n). length s - n)")
     (auto simp: fence_def dest!: str_find_in_drop [of "replicate 3 (CHR 0x60)"])

declare markdown_loop.simps [simp del]

definition parse_markdown_tool_calls :: "(string \<Rightarrow> json option) \<Rightarrow> string \<Rightarrow> parsed_call list" where
  "parse_markdown_tool_calls js s = markdown_loop js s 0"

section \<open>Raw tool tags\<close>

fun replace_all :: "string \<Rightarrow> string \<Rightarrow> nat \<Rightarrow> string \<Rightarrow> string" where
  "replace_all pat rep skip [] = []"
| "replace_all pat rep (Suc skip) (c # s) = replace_all pat rep skip s"
| "replace_all pat rep 0 (c # s) =
     (if prefix pat (c # s) then rep @ replace_all pat rep (length pat - 1) s
      else c # replace_all pat rep 0 s)"

definition unescape_xml :: "string \<Rightarrow> string" where
  "unescape_xml s =
     replace_all ''&apos;'' [CHR 0x27] 0
       (replace_all ''&quot;'' [CHR 0x22] 0
          (replace_all ''&amp;'' ''&'' 0
             (replace_all ''&gt;'' ''>'' 0 (replace_all ''&lt;'' ''<'' 0 s))))"

text \<open>Attributes of an opening tag, from the text after the tag name.\<close>

lemma attr_rest_shorter:
  assumes "drop (Suc eq) (dropWhile is_whitespace s) = q # rest"
  shows "length rest - Suc e < length s"
proof -
  have "length (q # rest) \<le> length (dropWhile is_whitespace s)" using assms by (metis length_drop diff_le_self)
  also have "\<dots> \<le> length s" by (rule length_dropWhile_le)
  finally show ?thesis by simp
qed

function attr_loop :: "string \<Rightarrow> (string \<times> json) list \<Rightarrow> (string \<times> json) list" where
  "attr_loop s attrs =
     (let t = dropWhile is_whitespace s in
      case str_find ''='' t of
        None \<Rightarrow> attrs
      | Some eq \<Rightarrow>
          (let key = trim (take eq t) in
           case drop (Suc eq) t of
             [] \<Rightarrow> attrs
           | q # rest \<Rightarrow>
               (if q = CHR 0x22 \<or> q = CHR 0x27
                then (case str_find [q] rest of
                        None \<Rightarrow> attrs
                      | Some e \<Rightarrow>
                          attr_loop (drop (Suc e) rest)
                            (obj_insert key (JString (unescape_xml (take e rest))) attrs))
                else attrs)))"
  by pat_completeness auto
termination
  by (relation "measure (length \<circ> fst)") (simp_all add: attr_rest_shorter)

declare attr_loop.simps [simp del]

definition extract_all_attrs :: "string \<Rightarrow> (string \<times> json) list" where
  "extract_all_attrs open_tag =
     (let inner = (if open_tag \<noteq> [] \<and> hd open_tag = CHR ''<'' \<and> length open_tag \<ge> 2 \<and> last open_tag = CHR ''>''
                   then butlast (tl open_tag) else open_tag)
      in case str_find '' '' inner of None \<Rightarrow> attr_loop [] [] | Some p \<Rightarrow> attr_loop (drop (Suc p) inner) [])"

definition tag_end_char :: "char \<Rightarrow> bool" where
  "tag_end_char c = (c = CHR ''>'' \<or> c = CHR '' '' \<or> c = CHR 0x0A \<or> c = CHR 0x0D)"

text \<open>The first occurrence of the open_tag_of tag of a tool, if it is one.\<close>

definition raw_candidate :: "string \<Rightarrow> string \<Rightarrow> (nat \<times> nat) option" where
  "raw_candidate s name =
     (let pre = ''<'' @ name in
      case str_find pre s of
        None \<Rightarrow> None
      | Some pos \<Rightarrow>
          (let after = drop (pos + length pre) s in
           if after \<noteq> [] \<and> tag_end_char (hd after)
           then map_option (\<lambda>gt. (pos, pos + length pre + gt + 1)) (str_find ''>'' after)
           else None))"

fun best_raw :: "string \<Rightarrow> string list \<Rightarrow> (nat \<times> nat \<times> string) option \<Rightarrow> (nat \<times> nat \<times> string) option" where
  "best_raw s [] best = best"
| "best_raw s (name # ns) best =
     (case raw_candidate s name of
        None \<Rightarrow> best_raw s ns best
      | Some (pos, open_end) \<Rightarrow>
          best_raw s ns
            (case best of
               None \<Rightarrow> Some (pos, open_end, name)
             | Some (b, _, _) \<Rightarrow> if pos < b then Some (pos, open_end, name) else best))"

lemma raw_candidate_bounds: "raw_candidate s name = Some (a, b) \<Longrightarrow> a < b \<and> b \<le> length s"
  by (auto simp: raw_candidate_def Let_def split: option.splits if_splits dest: str_find_bound)

lemma best_raw_bounds:
  "best_raw s ns best = Some (a, b, n) \<Longrightarrow> (\<And>a b n. best = Some (a, b, n) \<Longrightarrow> a < b \<and> b \<le> length s) \<Longrightarrow>
     a < b \<and> b \<le> length s"
proof (induction ns arbitrary: best)
  case (Cons name ns)
  show ?case
  proof (cases "raw_candidate s name")
    case (Some ab)
    obtain a' b' where ab: "ab = (a', b')" by fastforce
    show ?thesis using Cons Some raw_candidate_bounds [of s name a' b'] ab
      by (fastforce split: option.splits if_splits)
  qed (use Cons in simp)
qed simp

definition raw_call :: "string \<Rightarrow> string \<Rightarrow> string \<Rightarrow> parsed_call" where
  "raw_call name open_tag body =
     (let params = extract_all_attrs open_tag; b = trim body in
      \<lparr>pc_name = name,
       pc_parameters =
         JObject (if b \<noteq> [] \<and> \<not> has_key params ''input'' then obj_insert ''input'' (JString b) params else params)\<rparr>)"

text \<open>The text before the first raw tag, its call and the text after it.\<close>

definition raw_step :: "string list \<Rightarrow> string \<Rightarrow> (string \<times> parsed_call \<times> string) option" where
  "raw_step names remaining =
     (case best_raw remaining names None of
        None \<Rightarrow> None
      | Some (start, open_end, name) \<Rightarrow>
          (case find_tag_body (drop open_end remaining) name of
             (body, rest) \<Rightarrow>
               Some (take start remaining, raw_call name (drop start (take open_end remaining)) body, rest)))"

lemma raw_step_shorter:
  assumes "raw_step names remaining = Some (front, call, rest)"
  shows "length rest < length remaining"
proof -
  obtain start open_end name where b: "best_raw remaining names None = Some (start, open_end, name)"
    using assms by (auto simp: raw_step_def split: option.splits)
  then have "rest = snd (find_tag_body (drop open_end remaining) name)"
    using assms by (auto simp: raw_step_def split: prod.splits)
  then show ?thesis
    using best_raw_bounds [OF b] find_tag_body_lengths(2) [of "drop open_end remaining" name] by auto
qed

function raw_loop :: "string list \<Rightarrow> string \<Rightarrow> string \<Rightarrow> parsed_call list \<Rightarrow> string \<times> parsed_call list" where
  "raw_loop names remaining clean calls =
     (case raw_step names remaining of
        None \<Rightarrow> (clean @ remaining, calls)
      | Some (front, call, rest) \<Rightarrow> raw_loop names rest (clean @ front) (calls @ [call]))"
  by pat_completeness auto
termination
  by (relation "measure (\<lambda>(names, remaining, _). length remaining)") (auto simp: raw_step_shorter)

declare raw_loop.simps [simp del]

definition parse_raw_tool_tags :: "string list \<Rightarrow> string \<Rightarrow> string \<times> parsed_call list" where
  "parse_raw_tool_tags names s = (case raw_loop names s [] [] of (clean, calls) \<Rightarrow> (trim clean, calls))"

section \<open>Calls in a text\<close>

lemma find_next_tag_bounds:
  "find_next_tag s = Some m \<Longrightarrow> tm_start m < tm_open_end m \<and> tm_open_end m \<le> length s"
proof (induction s arbitrary: m rule: find_next_tag.induct)
  case (1 s)
  obtain container pos where t: "nearest_tag s = Some (container, pos)"
    using "1.prems" by (subst (asm) find_next_tag.simps) (auto split: option.splits)
  obtain gt where g: "str_find ''>'' (drop pos s) = Some gt"
    using "1.prems" t by (subst (asm) find_next_tag.simps) (auto split: option.splits)
  have b: "pos + gt + 1 \<le> length s" using str_find_in_drop [OF g] by simp
  show ?case
  proof (cases "valid_open (take (Suc gt) (drop pos s))")
    case True
    then show ?thesis using "1.prems" t g b by (subst (asm) find_next_tag.simps) auto
  next
    case False
    then obtain m' where m: "find_next_tag (drop (Suc pos) s) = Some m'"
      "m = m'\<lparr>tm_start := pos + 1 + tm_start m', tm_open_end := pos + 1 + tm_open_end m'\<rparr>"
      using "1.prems" t g by (subst (asm) find_next_tag.simps) auto
    have "tm_start m' < tm_open_end m' \<and> tm_open_end m' \<le> length (drop (Suc pos) s)"
      using "1.IH" [OF t refl g refl False m(1)] .
    then show ?thesis using m(2) b by auto
  qed
qed

definition attr_params :: "(string \<Rightarrow> json option) \<Rightarrow> string \<Rightarrow> json" where
  "attr_params js body =
     (let b = trim body in
      if b = [] then JObject []
      else (case js b of
              Some (JObject kvs) \<Rightarrow>
                JObject (if \<not> has_key kvs ''tool'' \<and> \<not> has_key kvs ''name''
                         then obj_insert ''input'' (JString b) kvs else kvs)
            | _ \<Rightarrow> JObject [(''input'', JString b)]))"

definition tag_calls :: "(string \<Rightarrow> json option) \<Rightarrow> tag_match \<Rightarrow> string \<Rightarrow> parsed_call list" where
  "tag_calls js m body =
     (case tm_name_attr m of
        Some name \<Rightarrow> [\<lparr>pc_name = name, pc_parameters = attr_params js body\<rparr>]
      | None \<Rightarrow> (case parse_tool_call_json js (trim body) of Some tc \<Rightarrow> [tc] | None \<Rightarrow> []))"

text \<open>The next block of a text: what precedes it, whether it is a container, its content and what
  follows; or the text with an opening that is never closed.\<close>

datatype block = NoBlock | Unclosed | Container string string string | Single string tag_match string string

definition next_block :: "string \<Rightarrow> block" where
  "next_block remaining =
     (case find_next_tag remaining of
        None \<Rightarrow> NoBlock
      | Some m \<Rightarrow>
          (let front = take (tm_start m) remaining; after_open = drop (tm_open_end m) remaining in
           if tm_container m
           then (case find_tag_body after_open ''tool_calls'' of (inner, rest) \<Rightarrow> Container front inner rest)
           else (case find_tag_body after_open ''tool_call'' of
                   (body, rest) \<Rightarrow>
                     if rest = [] \<and> body = after_open then Unclosed else Single front m body rest)))"

lemma next_block_shorter:
  "next_block s = Container front inner rest \<Longrightarrow> length inner < length s \<and> length rest < length s"
  "next_block s = Single front m body rest \<Longrightarrow> length rest < length s"
proof -
  have l: "length (fst (find_tag_body (drop (tm_open_end t) s) tag)) < length s"
      "length (snd (find_tag_body (drop (tm_open_end t) s) tag)) < length s"
    if "find_next_tag s = Some t" for t tag
    using find_next_tag_bounds [OF that] find_tag_body_lengths [of "drop (tm_open_end t) s" tag] by auto
  show "next_block s = Container front inner rest \<Longrightarrow> length inner < length s \<and> length rest < length s"
    using l(1,2) [where tag = "''tool_calls''"]
    by (auto simp: next_block_def Let_def split: option.splits if_splits prod.splits)
  show "next_block s = Single front m body rest \<Longrightarrow> length rest < length s"
    using l(2) [where tag = "''tool_call''"]
    by (auto simp: next_block_def Let_def split: option.splits if_splits prod.splits)
qed

text \<open>The fallbacks when no block gave a call.\<close>

definition with_fallbacks ::
  "(string \<Rightarrow> json option) \<Rightarrow> string list \<Rightarrow> string \<Rightarrow> string \<times> parsed_call list \<Rightarrow> string \<times> parsed_call list" where
  "with_fallbacks js names s scanned =
     (let clean = trim (fst scanned);
          calls = (if snd scanned = [] then parse_markdown_tool_calls js s else snd scanned)
      in if calls = [] \<and> names \<noteq> [] \<and> snd (parse_raw_tool_tags names s) \<noteq> []
         then parse_raw_tool_tags names s
         else (clean, calls))"

function parse_tool_calls :: "(string \<Rightarrow> json option) \<Rightarrow> string list \<Rightarrow> string \<Rightarrow> string \<times> parsed_call list"
and scan_calls ::
  "(string \<Rightarrow> json option) \<Rightarrow> string list \<Rightarrow> string \<Rightarrow> string \<Rightarrow> parsed_call list \<Rightarrow> string \<times> parsed_call list" where
  "parse_tool_calls js names s = with_fallbacks js names s (scan_calls js names s [] [])"
| "scan_calls js names remaining clean calls =
     (case next_block remaining of
        NoBlock \<Rightarrow> (clean @ remaining, calls)
      | Unclosed \<Rightarrow> (clean @ remaining, calls)
      | Container front inner rest \<Rightarrow>
          scan_calls js names rest (clean @ front)
            (calls @ (if inner = [] then [] else snd (parse_tool_calls js names inner)))
      | Single front m body rest \<Rightarrow>
          scan_calls js names rest (clean @ front) (calls @ tag_calls js m body))"
  by pat_completeness auto
termination
  by (relation "measure (\<lambda>x. case x of Inl (_, _, s) \<Rightarrow> Suc (2 * length s) | Inr (_, _, s, _) \<Rightarrow> 2 * length s)")
     (auto dest: next_block_shorter)

declare parse_tool_calls.simps [simp del] scan_calls.simps [simp del]

section \<open>Printed calls are read back\<close>

lemma str_find_here:
  assumes "\<not> sublist (c # cs) pre" "c \<notin> set cs"
  shows "str_find (c # cs) (pre @ (c # cs) @ rest) = Some (length pre)"
  using assms(1)
proof (induction pre)
  case (Cons x xs)
  have "\<not> prefix (c # cs) ((x # xs) @ (c # cs) @ rest)"
  proof
    assume p: "prefix (c # cs) ((x # xs) @ (c # cs) @ rest)"
    show False
    proof (cases "length (c # cs) \<le> length (x # xs)")
      case True
      then have "prefix (c # cs) (x # xs)" using p by (metis prefix_length_prefix prefixI)
      then show False using Cons.prems prefix_imp_sublist by blast
    next
      case False
      then have l: "length xs < length cs" by simp
      have "(c # cs) ! Suc (length xs) = ((x # xs) @ (c # cs) @ rest) ! Suc (length xs)"
        using p l by (metis Suc_less_eq length_Cons prefix_def nth_append)
      then have "cs ! length xs = c" by (simp add: nth_append)
      then show False using l assms(2) nth_mem by blast
    qed
  qed
  moreover have "\<not> sublist (c # cs) xs" using Cons.prems by (meson sublist_Cons_right)
  ultimately show ?case using Cons.IH by simp
qed (simp add: prefix_def)

text \<open>A pattern that starts a character occurring once in it cannot reach over the end of a text.\<close>

lemma str_find_past:
  assumes "\<not> sublist (c # cs) pre" "str_find (c # cs) (pre @ s) = Some i" "c \<notin> set cs" "s = [] \<or> hd s = c"
  shows "length pre \<le> i"
  using assms(1,2)
proof (induction pre arbitrary: i)
  case (Cons x xs)
  have "\<not> prefix (c # cs) ((x # xs) @ s)"
  proof
    assume p: "prefix (c # cs) ((x # xs) @ s)"
    show False
    proof (cases "length (c # cs) \<le> length (x # xs)")
      case True
      then have "prefix (c # cs) (x # xs)" using p by (metis prefix_length_prefix prefixI)
      then show False using Cons.prems(1) prefix_imp_sublist by blast
    next
      case False
      then have l: "length xs < length cs" by simp
      then have "s \<noteq> []" using p prefix_length_le [OF p] by auto
      then obtain s' where s: "s = c # s'" using assms(4) by (cases s) auto
      have "(c # cs) ! Suc (length xs) = ((x # xs) @ s) ! Suc (length xs)"
        using p l by (metis Suc_less_eq length_Cons prefix_def nth_append)
      then have "cs ! length xs = c" by (simp add: nth_append s)
      then show False using l assms(3) nth_mem by blast
    qed
  qed
  then obtain j where "str_find (c # cs) (xs @ s) = Some j" "i = Suc j"
    using Cons.prems(2) by (auto split: if_splits)
  moreover have "\<not> sublist (c # cs) xs" using Cons.prems(1) by (meson sublist_Cons_right)
  ultimately show ?case using Cons.IH by simp
qed simp

abbreviation call_open :: string where "call_open \<equiv> ''<tool_call>''"
abbreviation call_close :: string where "call_close \<equiv> ''</tool_call>''"

definition quiet :: "string \<Rightarrow> bool" where
  "quiet s = (\<not> str_contains s ''<tool_call'')"

definition plain_body :: "string \<Rightarrow> bool" where
  "plain_body s = (quiet s \<and> \<not> str_contains s call_close)"

lemma quiet_find: "quiet s \<longleftrightarrow> \<not> sublist ''<tool_call'' s"
  by (simp add: quiet_def str_contains_iff_sublist)

lemma next_block_quiet: "quiet s \<Longrightarrow> next_block s = NoBlock"
proof -
  assume q: "quiet s"
  then have "str_find ''<tool_call'' s = None" by (simp add: quiet_def str_contains_def)
  moreover have "\<not> sublist ''<tool_calls'' s"
    using q sublist_order.order_trans [of "''<tool_call''" "''<tool_calls''" s] by (auto simp: quiet_find sublist_code)
  then have "str_find ''<tool_calls'' s = None" by (simp flip: str_contains_iff_sublist add: str_contains_def)
  ultimately have "nearest_tag s = None" by (simp add: nearest_tag_def find_tag_prefix.simps [of _ s])
  then show ?thesis by (simp add: next_block_def find_next_tag.simps [of s])
qed

lemma find_next_tag_call:
  assumes "quiet pre"
  shows "find_next_tag (pre @ call_open @ rest) =
    Some \<lparr>tm_container = False, tm_name_attr = None, tm_start = length pre, tm_open_end = length pre + 11\<rparr>"
proof -
  let ?s = "pre @ call_open @ rest"
  have o: "str_find ''<tool_call'' ?s = Some (length pre)"
    using str_find_here [of "CHR ''<''" "''tool_call''" pre "CHR ''>'' # rest"] assms by (simp add: quiet_find)
  then have c: "find_tag_prefix ''<tool_call'' ?s = Some (length pre)"
    by (subst find_tag_prefix.simps) simp
  have "length pre \<le> i" if "str_find ''<tool_calls'' ?s = Some i" for i
  proof (rule ccontr)
    assume "\<not> length pre \<le> i"
    then have "\<not> prefix ''<tool_call'' (drop i ?s)" using str_find_least [OF o] by simp
    moreover have "prefix ''<tool_calls'' (drop i ?s)" using str_find_Some [OF that] by blast
    then have "prefix ''<tool_call'' (drop i ?s)" by (rule prefix_order.order_trans [rotated]) simp
    ultimately show False by blast
  qed
  then have n: "nearest_tag ?s = Some (False, length pre)"
    using c by (auto simp: nearest_tag_def split: option.splits)
  have "extract_attr call_open ''name'' = None" "valid_open call_open" by code_simp+
  moreover have "str_find ''>'' (drop (length pre) ?s) = Some 10" by simp
  moreover have "take (Suc 10) (drop (length pre) ?s) = call_open" by simp
  ultimately show ?thesis using n by (subst find_next_tag.simps) (simp add: Let_def)
qed

lemma find_tag_body_call:
  assumes "plain_body body"
  shows "find_tag_body (body @ call_close @ rest) ''tool_call'' = (body, rest)"
proof -
  let ?s = "body @ call_close @ rest"
  have cl: "close_tag_of ''tool_call'' = call_close" and op: "open_tag_of ''tool_call'' = ''<tool_call''"
    by (simp_all add: close_tag_of_def open_tag_of_def)
  have b: "\<not> sublist call_close body" "\<not> sublist ''<tool_call'' body"
    using assms by (simp_all add: plain_body_def quiet_find str_contains_iff_sublist)
  have c: "str_find call_close ?s = Some (length body)"
    using str_find_here [of "CHR ''<''" "''/tool_call>''" body rest] b(1) by simp
  have "length body < i" if i: "str_find ''<tool_call'' ?s = Some i" for i
  proof -
    have "length body \<le> i" using str_find_past [OF b(2) i] by simp
    moreover have "i \<noteq> length body" using str_find_Some [OF i] by auto
    ultimately show ?thesis by simp
  qed
  then show ?thesis
    using c unfolding find_tag_body_def by (subst body_loop.simps) (auto simp: cl op split: option.splits)
qed

lemma next_block_call:
  assumes "quiet pre" "plain_body body"
  shows "\<exists>m. next_block (pre @ call_open @ body @ call_close @ rest) = Single pre m body rest \<and> tm_name_attr m = None"
  using find_next_tag_call [OF assms(1), of "body @ call_close @ rest"] find_tag_body_call [OF assms(2), of rest]
  by (auto simp: next_block_def)

text \<open>A call as a model writes it, and a reply with calls in it.\<close>

definition call_json :: "parsed_call \<Rightarrow> json" where
  "call_json c = JObject [(''parameters'', pc_parameters c), (''tool'', JString (pc_name c))]"

definition render :: "(json \<Rightarrow> string) \<Rightarrow> (string \<times> parsed_call) list \<Rightarrow> string \<Rightarrow> string" where
  "render pr segs post =
     concat (map (\<lambda>(pre, c). pre @ call_open @ pr (call_json c) @ call_close) segs) @ post"

lemma call_json_back: "pc_parameters c = JObject kvs \<Longrightarrow> js s = Some (call_json c) \<Longrightarrow> parse_tool_call_json js s = Some c"
  by (simp add: parse_tool_call_json_def call_json_def json_call_name_def json_index_def json_call_params_def
      extra_params_def explicit_params_def)

definition printable :: "(string \<Rightarrow> json option) \<Rightarrow> (json \<Rightarrow> string) \<Rightarrow> string \<times> parsed_call \<Rightarrow> bool" where
  "printable js pr seg =
     (quiet (fst seg) \<and> plain_body (pr (call_json (snd seg))) \<and> as_object (pc_parameters (snd seg)) \<noteq> None \<and>
      js (trim (pr (call_json (snd seg)))) = Some (call_json (snd seg)))"

lemma scan_calls_render:
  "list_all (printable js pr) segs \<Longrightarrow> quiet post \<Longrightarrow>
     scan_calls js names (render pr segs post) clean calls = (clean @ concat (map fst segs) @ post, calls @ map snd segs)"
proof (induction segs arbitrary: clean calls)
  case Nil
  then show ?case by (simp add: render_def scan_calls.simps [of _ _ post] next_block_quiet)
next
  case (Cons seg segs)
  obtain pre c where seg: "seg = (pre, c)" by fastforce
  let ?body = "pr (call_json c)"
  have p: "quiet pre" "plain_body ?body" "js (trim ?body) = Some (call_json c)"
    using Cons.prems(1) seg by (simp_all add: printable_def)
  obtain kvs where o: "pc_parameters c = JObject kvs"
    using Cons.prems(1) seg by (cases "pc_parameters c") (simp_all add: printable_def)
  have r: "render pr (seg # segs) post = pre @ call_open @ ?body @ call_close @ render pr segs post"
    by (simp add: render_def seg)
  obtain m where m: "next_block (render pr (seg # segs) post) = Single pre m ?body (render pr segs post)"
    "tm_name_attr m = None" using next_block_call [OF p(1,2)] unfolding r by blast
  have "tag_calls js m ?body = [c]" using m(2) call_json_back [OF o, of js "trim ?body"] p(3) by (simp add: tag_calls_def)
  then have "scan_calls js names (render pr (seg # segs) post) clean calls =
      scan_calls js names (render pr segs post) (clean @ pre) (calls @ [c])"
    using m(1) by (simp add: scan_calls.simps [of _ _ "render pr (seg # segs) post"])
  then show ?case using Cons.IH Cons.prems seg by simp
qed

text \<open>C21: calls written as JSON inside \<open>tool_call\<close> tags are read back. From a reply that mixes text and
  calls, the parser returns the calls in their order with their names and parameters, and the text around
  them, whatever tools are known, provided the JSON parser reads what the printer wrote and neither the
  text nor the JSON contains the tags themselves.\<close>

theorem tool_calls_round_trip:
  assumes "segs \<noteq> []" "list_all (printable js pr) segs" "quiet post"
  shows "parse_tool_calls js names (render pr segs post) = (trim (concat (map fst segs) @ post), map snd segs)"
  using scan_calls_render [OF assms(2,3), of names "[]" "[]"] assms(1)
  by (simp add: parse_tool_calls.simps with_fallbacks_def)

definition sample_print :: "json \<Rightarrow> string" where
  "sample_print v = ''{..}''"

definition sample_parsed :: parsed_call where
  "sample_parsed = \<lparr>pc_name = ''ls'', pc_parameters = JObject []\<rparr>"

theorem tool_calls_round_trip_witness:
  "parse_tool_calls (\<lambda>s. if s = ''{..}'' then Some (call_json sample_parsed) else None) [''shell'']
     (render sample_print [(''Look: '', sample_parsed)] '' done'') = (''Look:  done'', [sample_parsed])"
proof -
  let ?js = "\<lambda>s. if s = ''{..}'' then Some (call_json sample_parsed) else None"
  have "list_all (printable ?js sample_print) [(''Look: '', sample_parsed)]" "quiet '' done''"
    by code_simp+
  from tool_calls_round_trip [OF _ this] have
    "parse_tool_calls ?js [''shell''] (render sample_print [(''Look: '', sample_parsed)] '' done'') =
       (trim (concat (map fst [(''Look: '', sample_parsed)]) @ '' done''), map snd [(''Look: '', sample_parsed)])"
    by blast
  moreover have "trim (concat (map fst [(''Look: '', sample_parsed)]) @ '' done'') = ''Look:  done''" by code_simp
  ultimately show ?thesis by simp
qed

text \<open>A text without a tag, a fence or a known tool name gives no call.\<close>

lemma plain_text_has_no_calls:
  assumes "quiet s" "\<not> str_contains s fence" "\<forall>n \<in> set names. \<not> str_contains s (''<'' @ n)"
  shows "parse_tool_calls js names s = (trim s, [])"
proof -
  have "scan_calls js names s [] [] = (s, [])"
    by (simp add: scan_calls.simps [of _ _ s] next_block_quiet [OF assms(1)])
  moreover have "parse_markdown_tool_calls js s = []"
    using assms(2) by (simp add: parse_markdown_tool_calls_def markdown_loop.simps [of _ s] str_contains_def)
  moreover have "best_raw s ns b = b" if "set ns \<subseteq> set names" for ns b
    using that assms(3)
  proof (induction ns)
    case (Cons n ns)
    then have "raw_candidate s n = None" by (simp add: raw_candidate_def str_contains_def)
    then show ?case using Cons by simp
  qed simp
  then have "snd (parse_raw_tool_tags names s) = []"
    by (simp add: parse_raw_tool_tags_def raw_loop.simps [of _ s] raw_step_def)
  ultimately show ?thesis by (simp add: parse_tool_calls.simps with_fallbacks_def)
qed

end
