(* ===== verification/Cron.thy ===== *)
theory Cron
  imports Prelude "HOL-Library.AList"
begin

text \<open>
  Scheduled jobs (\<open>builtin/cron/mod.rs\<close>, \<open>builtin/cron/cron_tool.rs\<close>): the job list in memory, one JSON
  file per job, the cache of modification times that detects edits from outside, and the \<open>cron\<close> tool.

  The directory of job files is a list of entries by file stem: a validated name and the stem of a directory
  entry have no path separator, so \<open>dir.join(name.json)\<close> is the entry of that stem. An entry is its text and its
  modification time in seconds, \<open>None\<close> where the system gives none. A listing and the iteration of a hash map have
  no specified order; here it is the order of the list, and the theorems hold for every order of it.

  Fields of \<open>cron_io\<close> are what lies outside: the JSON form of a job file (\<open>serde_json\<close>), the date parser of
  the \<open>time\<close> crate, which system calls succeed, and what a failed write leaves.
\<close>

section \<open>Jobs and their files\<close>

definition MAX_JOBS :: nat where "MAX_JOBS = 100"

datatype trigger_mode = Schedule | Once

record cron_job =
  job_name :: string
  schedule :: string
  job_prompt :: string
  enabled :: bool
  last_fired_at :: "nat option"
  last_response :: "string option"
  cooldown_secs :: "nat option"
  trigger :: trigger_mode

record cron_job_file =
  file_job :: string
  file_schedule :: string
  file_prompt :: string
  file_enabled :: bool
  file_cooldown :: "nat option"
  file_trigger :: trigger_mode
  file_last_fired :: "nat option"

definition effective_cooldown :: "cron_job \<Rightarrow> nat" where
  "effective_cooldown j = (case cooldown_secs j of Some s \<Rightarrow> s | None \<Rightarrow> 72000)"

definition to_file :: "cron_job \<Rightarrow> cron_job_file" where
  "to_file j = \<lparr>file_job = job_name j, file_schedule = schedule j, file_prompt = job_prompt j,
     file_enabled = enabled j, file_cooldown = cooldown_secs j, file_trigger = trigger j,
     file_last_fired = last_fired_at j\<rparr>"

definition merged_last_fired :: "nat option \<Rightarrow> nat option \<Rightarrow> nat option" where
  "merged_last_fired mem on_disk =
     (case mem of
        Some m \<Rightarrow> (case on_disk of Some d \<Rightarrow> Some (max d m) | None \<Rightarrow> Some m)
      | None \<Rightarrow> on_disk)"

definition into_job :: "cron_job_file \<Rightarrow> cron_job option \<Rightarrow> cron_job" where
  "into_job f existing = \<lparr>job_name = file_job f, schedule = file_schedule f, job_prompt = file_prompt f,
     enabled = file_enabled f,
     last_fired_at = merged_last_fired (Option.bind existing last_fired_at) (file_last_fired f),
     last_response = Option.bind existing last_response,
     cooldown_secs = file_cooldown f, trigger = file_trigger f\<rparr>"

section \<open>The directory of job files\<close>

type_synonym job_dir = "(string \<times> string \<times> nat option) list"

record cron_io =
  ci_print :: "cron_job_file \<Rightarrow> string option"
  ci_parse :: "string \<Rightarrow> cron_job_file option"
  ci_datetime :: "string \<Rightarrow> (string, nat) result"
  ci_write_ok :: "string \<Rightarrow> bool"
  ci_torn :: "string \<Rightarrow> string \<times> nat option"
  ci_stat_ok :: "string \<Rightarrow> bool"
  ci_read_ok :: "string \<Rightarrow> bool"
  ci_list_ok :: bool
  ci_mtime :: "nat option"

record cron_files =
  job_files :: job_dir
  mtimes :: "(string \<times> nat) list"

definition entry_mtime :: "cron_io \<Rightarrow> string \<Rightarrow> nat option \<Rightarrow> nat option" where
  "entry_mtime io name t = (if ci_stat_ok io name then t else None)"

text \<open>The job a file holds: readable, well-formed, and named as the file is.\<close>

definition file_content :: "cron_io \<Rightarrow> job_dir \<Rightarrow> string \<Rightarrow> cron_job_file option" where
  "file_content io d name =
     (case map_of d name of
        None \<Rightarrow> None
      | Some (s, _) \<Rightarrow>
          (if ci_read_ok io name
           then (case ci_parse io s of
                   None \<Rightarrow> None
                 | Some f \<Rightarrow> if file_job f = name then Some f else None)
           else None))"

definition load_step :: "cron_io \<Rightarrow> job_dir \<Rightarrow> string \<times> string \<times> nat option \<Rightarrow>
  cron_job list \<times> (string \<times> nat) list \<Rightarrow> cron_job list \<times> (string \<times> nat) list" where
  "load_step io d e acc =
     (case file_content io d (fst e) of
        None \<Rightarrow> acc
      | Some f \<Rightarrow>
          (fst acc @ [into_job f None],
           (case entry_mtime io (fst e) (snd (snd e)) of
              None \<Rightarrow> snd acc
            | Some t \<Rightarrow> AList.update (fst e) t (snd acc))))"

definition load_all_sync :: "cron_io \<Rightarrow> cron_files \<Rightarrow> cron_job list \<times> cron_files" where
  "load_all_sync io fs =
     (if ci_list_ok io
      then (case fold (load_step io (job_files fs)) (job_files fs) ([], mtimes fs) of
              (js, ms) \<Rightarrow> (js, fs\<lparr>mtimes := ms\<rparr>))
      else ([], fs))"

text \<open>The flag says whether \<open>persist_one\<close> returns \<open>Ok\<close>; its callers only log the error.\<close>

definition persist_one :: "cron_io \<Rightarrow> cron_job_file \<Rightarrow> cron_files \<Rightarrow> bool \<times> cron_files" where
  "persist_one io f fs =
     (let n = file_job f in
      case ci_print io f of
        None \<Rightarrow> (False, fs)
      | Some s \<Rightarrow>
          (if \<not> ci_write_ok io n
           then (False, fs\<lparr>job_files := AList.update n (ci_torn io n) (job_files fs)\<rparr>)
           else (let fs1 = fs\<lparr>job_files := AList.update n (s, ci_mtime io) (job_files fs)\<rparr> in
             case entry_mtime io n (ci_mtime io) of
               None \<Rightarrow> (False, fs1)
             | Some t \<Rightarrow> (True, fs1\<lparr>mtimes := AList.update n t (mtimes fs)\<rparr>))))"

text \<open>A removal that fails leaves the file; the cached time goes in any case.\<close>

definition remove_file :: "cron_io \<Rightarrow> string \<Rightarrow> cron_files \<Rightarrow> cron_files" where
  "remove_file io name fs =
     fs\<lparr>job_files := (if ci_write_ok io name then AList.delete name (job_files fs) else job_files fs),
        mtimes := AList.delete name (mtimes fs)\<rparr>"

definition current_files :: "cron_io \<Rightarrow> job_dir \<Rightarrow> (string \<times> nat) list" where
  "current_files io d =
     (if ci_list_ok io
      then map (\<lambda>(n, _, t). (n, case entry_mtime io n t of Some s \<Rightarrow> s | None \<Rightarrow> 0)) d
      else [])"

definition scan_changes_sync ::
  "cron_io \<Rightarrow> cron_files \<Rightarrow> (cron_job_file list \<times> string list) \<times> cron_files" where
  "scan_changes_sync io fs =
     (let cur = current_files io (job_files fs);
          changed = filter (\<lambda>(n, t). map_of (mtimes fs) n \<noteq> Some t) cur;
          added_or_modified = List.map_filter (\<lambda>(n, _). file_content io (job_files fs) n) changed;
          removed_names = filter (\<lambda>n. map_of cur n = None) (map fst (mtimes fs))
      in ((added_or_modified, removed_names),
          fs\<lparr>mtimes := fold (\<lambda>(n, t). AList.update n t) cur
                          (filter (\<lambda>(n, _). n \<notin> set removed_names) (mtimes fs))\<rparr>))"

section \<open>Validation\<close>

definition validate_cron_name :: "string \<Rightarrow> (string, unit) result" where
  "validate_cron_name name =
     (if name = [] then Err ''Cron job name must not be empty''
      else if CHR ''/'' \<in> set name \<or> CHR 0x5C \<in> set name \<or> str_contains name ''..''
      then Err (''Invalid cron job name '' @ [CHR 0x27] @ name @ [CHR 0x27] @ '': must not contain path separators'')
      else if list_ex is_whitespace name
      then Err (''Invalid cron job name '' @ [CHR 0x27] @ name @ [CHR 0x27] @ '': must not contain whitespace'')
      else Ok ())"

definition cron_ranges :: "(nat \<times> nat \<times> string) list" where
  "cron_ranges = [(0, 59, ''minute''), (0, 23, ''hour''), (1, 31, ''day''), (1, 12, ''month''), (0, 6, ''weekday'')]"

definition strip_prefix :: "string \<Rightarrow> string \<Rightarrow> string option" where
  "strip_prefix pre s = (if prefix pre s then Some (drop (length pre) s) else None)"

definition quoted :: "string \<Rightarrow> string" where
  "quoted s = [CHR 0x27] @ s @ [CHR 0x27]"

definition validate_field :: "nat \<times> nat \<times> string \<Rightarrow> string \<Rightarrow> (string, unit) result" where
  "validate_field rg field =
     (case rg of (lo, hi, fname) \<Rightarrow>
        if field = ''*'' then Ok ()
        else (case strip_prefix ''*/'' field of
          Some rest \<Rightarrow>
            (case parse_unsigned 32 rest of
               None \<Rightarrow> Err (''Invalid step value in '' @ fname @ '' field: '' @ quoted field)
             | Some step \<Rightarrow>
                 if step = 0 then Err (''Step value must be > 0 in '' @ fname @ '' field: '' @ quoted field)
                 else Ok ())
        | None \<Rightarrow>
            (case parse_unsigned 32 field of
               None \<Rightarrow> Err (''Invalid '' @ fname @ '' field '' @ quoted field @ '': must be *, */N, or a number'')
             | Some v \<Rightarrow>
                 if v < lo \<or> v > hi
                 then Err (''Value '' @ nat_to_string v @ '' in '' @ fname @ '' field out of range ['' @
                   nat_to_string lo @ '', '' @ nat_to_string hi @ '']'')
                 else Ok ())))"

fun validate_fields :: "(nat \<times> nat \<times> string) list \<Rightarrow> string list \<Rightarrow> (string, unit) result" where
  "validate_fields (r # rs) (f # fs) =
     (case validate_field r f of Inl e \<Rightarrow> Err e | Inr _ \<Rightarrow> validate_fields rs fs)"
| "validate_fields _ _ = Ok ()"

definition validate_cron_schedule :: "string \<Rightarrow> (string, unit) result" where
  "validate_cron_schedule s =
     (let fields = split_whitespace s in
      if length fields \<noteq> 5
      then Err (''Cron schedule must have 5 fields (minute hour day month weekday), got '' @
             nat_to_string (length fields))
      else validate_fields cron_ranges fields)"

definition validate_once_schedule :: "cron_io \<Rightarrow> string \<Rightarrow> (string, unit) result" where
  "validate_once_schedule io s =
     (case ci_datetime io s of
        Inl e \<Rightarrow> Err (''Invalid one-shot datetime: '' @ e @
                     ''. Expected format: YYYY-MM-DDTHH:MM:SS (local time)'')
      | Inr _ \<Rightarrow> Ok ())"

section \<open>The store\<close>

record cron_store =
  jobs :: "cron_job list"
  file_store :: cron_files

definition cron_store_new :: "cron_io \<Rightarrow> job_dir \<Rightarrow> cron_store" where
  "cron_store_new io d =
     (case load_all_sync io \<lparr>job_files = d, mtimes = []\<rparr> of
        (js, fs) \<Rightarrow> \<lparr>jobs = js, file_store = fs\<rparr>)"

definition persist :: "cron_io \<Rightarrow> cron_job_file \<Rightarrow> cron_store \<Rightarrow> cron_store" where
  "persist io f st = st\<lparr>file_store := snd (persist_one io f (file_store st))\<rparr>"

definition cron_add :: "cron_io \<Rightarrow> string \<Rightarrow> string \<Rightarrow> string \<Rightarrow> nat option \<Rightarrow> trigger_mode \<Rightarrow>
  cron_store \<Rightarrow> (string, unit) result \<times> cron_store" where
  "cron_add io name sched prompt cooldown trig st =
     (case validate_cron_name name of
        Inl e \<Rightarrow> (Err e, st)
      | Inr _ \<Rightarrow>
          (case (case trig of Schedule \<Rightarrow> validate_cron_schedule sched | Once \<Rightarrow> validate_once_schedule io sched) of
             Inl e \<Rightarrow> (Err e, st)
           | Inr _ \<Rightarrow>
               if length (jobs st) \<ge> MAX_JOBS
               then (Err (''Max '' @ nat_to_string MAX_JOBS @ '' cron jobs reached''), st)
               else (let job = \<lparr>job_name = name, schedule = sched, job_prompt = prompt, enabled = True,
                             last_fired_at = None, last_response = None, cooldown_secs = cooldown, trigger = trig\<rparr>
                     in (Ok (), persist io (to_file job)
                           (st\<lparr>jobs := filter (\<lambda>j. job_name j \<noteq> name) (jobs st) @ [job]\<rparr>)))))"

definition cron_remove :: "cron_io \<Rightarrow> string \<Rightarrow> cron_store \<Rightarrow> (string, unit) result \<times> cron_store" where
  "cron_remove io name st =
     (let kept = filter (\<lambda>j. job_name j \<noteq> name) (jobs st) in
      if length kept \<ge> length (jobs st) then (Err (''Cron job '' @ quoted name @ '' not found''), st\<lparr>jobs := kept\<rparr>)
      else (Ok (), st\<lparr>jobs := kept, file_store := remove_file io name (file_store st)\<rparr>))"

text \<open>\<open>iter_mut().find\<close>: the first job of a name, and the list with that job replaced.\<close>

definition find_job :: "string \<Rightarrow> cron_job list \<Rightarrow> cron_job option" where
  "find_job name js = find (\<lambda>j. job_name j = name) js"

fun set_job :: "string \<Rightarrow> cron_job \<Rightarrow> cron_job list \<Rightarrow> cron_job list" where
  "set_job name new [] = []"
| "set_job name new (j # js) = (if job_name j = name then new # js else j # set_job name new js)"

definition cron_update :: "cron_io \<Rightarrow> string \<Rightarrow> string option \<Rightarrow> string option \<Rightarrow> nat option \<Rightarrow>
  cron_store \<Rightarrow> (string, unit) result \<times> cron_store" where
  "cron_update io name sched prompt cooldown st =
     (case find_job name (jobs st) of
        None \<Rightarrow> (Err (''Cron job '' @ quoted name @ '' not found''), st)
      | Some j \<Rightarrow>
          (case (case sched of None \<Rightarrow> Ok () | Some s \<Rightarrow> validate_cron_schedule s) of
             Inl e \<Rightarrow> (Err e, st)
           | Inr _ \<Rightarrow>
               (let j1 = (case sched of None \<Rightarrow> j | Some s \<Rightarrow> j\<lparr>schedule := s\<rparr>);
                    j2 = (case prompt of None \<Rightarrow> j1 | Some p \<Rightarrow> j1\<lparr>job_prompt := p\<rparr>);
                    j3 = (case cooldown of None \<Rightarrow> j2 | Some c \<Rightarrow> j2\<lparr>cooldown_secs := Some c\<rparr>)
                in (Ok (), persist io (to_file j3) (st\<lparr>jobs := set_job name j3 (jobs st)\<rparr>)))))"

definition set_enabled :: "cron_io \<Rightarrow> string \<Rightarrow> bool \<Rightarrow> cron_store \<Rightarrow> (string, unit) result \<times> cron_store" where
  "set_enabled io name on st =
     (case find_job name (jobs st) of
        None \<Rightarrow> (Err (''Cron job '' @ quoted name @ '' not found''), st)
      | Some j \<Rightarrow>
          (let j1 = j\<lparr>enabled := on\<rparr>
           in (Ok (), persist io (to_file j1) (st\<lparr>jobs := set_job name j1 (jobs st)\<rparr>))))"

definition record_fired :: "cron_io \<Rightarrow> nat \<Rightarrow> string \<Rightarrow> cron_store \<Rightarrow> cron_store" where
  "record_fired io now name st =
     (case find_job name (jobs st) of
        None \<Rightarrow> st
      | Some j \<Rightarrow>
          (let j1 = j\<lparr>last_fired_at := Some now\<rparr>
           in persist io (to_file j1) (st\<lparr>jobs := set_job name j1 (jobs st)\<rparr>)))"

definition set_last_response :: "string \<Rightarrow> string \<Rightarrow> cron_store \<Rightarrow> cron_store" where
  "set_last_response name response st =
     (case find_job name (jobs st) of
        None \<Rightarrow> st
      | Some j \<Rightarrow> st\<lparr>jobs := set_job name (j\<lparr>last_response := Some response\<rparr>) (jobs st)\<rparr>)"

definition cron_upsert :: "cron_job \<Rightarrow> cron_store \<Rightarrow> cron_store" where
  "cron_upsert job st =
     (case find_job (job_name job) (jobs st) of
        Some e \<Rightarrow> st\<lparr>jobs := set_job (job_name job)
          (e\<lparr>schedule := schedule job, job_prompt := job_prompt job, enabled := enabled job,
             cooldown_secs := cooldown_secs job, trigger := trigger job\<rparr>) (jobs st)\<rparr>
      | None \<Rightarrow> st\<lparr>jobs := jobs st @ [job]\<rparr>)"

definition remove_by_names :: "string list \<Rightarrow> cron_store \<Rightarrow> cron_store" where
  "remove_by_names names st = st\<lparr>jobs := filter (\<lambda>j. job_name j \<notin> set names) (jobs st)\<rparr>"

definition enabled_jobs :: "cron_store \<Rightarrow> cron_job list" where
  "enabled_jobs st = filter enabled (jobs st)"

text \<open>The reload at the head of a tick of the runner (\<open>cron_runner.rs\<close>).\<close>

definition reload_one :: "cron_job_file \<Rightarrow> cron_store \<Rightarrow> cron_store" where
  "reload_one f st = cron_upsert (into_job f (find_job (file_job f) (jobs st))) st"

definition hot_reload :: "cron_io \<Rightarrow> cron_store \<Rightarrow> cron_store" where
  "hot_reload io st =
     (case scan_changes_sync io (file_store st) of
        ((changed, removed), fs) \<Rightarrow> fold reload_one changed (remove_by_names removed (st\<lparr>file_store := fs\<rparr>)))"

section \<open>The tool\<close>

definition shown_job :: "cron_job \<Rightarrow> string" where
  "shown_job j = ''  '' @ job_name j @ '' ['' @ (if enabled j then ''on'' else ''off'') @ ''] '' @ schedule j @
     '': '' @ job_prompt j @ ''  last_fired: '' @
     (case last_fired_at j of None \<Rightarrow> ''never'' | Some t \<Rightarrow> nat_to_string t)"

definition join_lines :: "string list \<Rightarrow> string" where
  "join_lines ls = concat (case ls of [] \<Rightarrow> [] | l # rest \<Rightarrow> l # map (\<lambda>x. CHR 0x0A # x) rest)"

definition answer :: "string \<Rightarrow> (string, unit) result \<times> cron_store \<Rightarrow> (string, string) result \<times> cron_store" where
  "answer s r = ((case fst r of Inl e \<Rightarrow> Err e | Inr _ \<Rightarrow> Ok s), snd r)"

definition tool_add :: "cron_io \<Rightarrow> json \<Rightarrow> cron_store \<Rightarrow> (string, string) result \<times> cron_store" where
  "tool_add io input st =
     (case as_str (json_index input ''name'') of
        None \<Rightarrow> (Err (''Missing '' @ quoted ''name'' @ '' for add''), st)
      | Some name \<Rightarrow>
      (case as_str (json_index input ''schedule'') of
         None \<Rightarrow> (Err (''Missing '' @ quoted ''schedule'' @ '' for add''), st)
       | Some sched \<Rightarrow>
       (case as_str (json_index input ''prompt'') of
          None \<Rightarrow> (Err (''Missing '' @ quoted ''prompt'' @ '' for add''), st)
        | Some prompt \<Rightarrow>
            (let once = as_str (json_index input ''trigger'') = Some ''once''
             in answer (''Cron job '' @ quoted name @ '' added: '' @ sched @ (if once then '' (one-shot)'' else []))
                  (cron_add io name sched prompt (as_u64 (json_index input ''cooldown_secs''))
                     (if once then Once else Schedule) st)))))"

definition tool_list :: "cron_store \<Rightarrow> string" where
  "tool_list st =
     (if jobs st = [] then ''No cron jobs configured.''
      else ''Cron jobs:'' @ [CHR 0x0A] @ join_lines (map shown_job (jobs st)))"

definition cron_tool :: "cron_io \<Rightarrow> json \<Rightarrow> cron_store \<Rightarrow> (string, string) result \<times> cron_store" where
  "cron_tool io input st =
     (case as_str (json_index input ''action'') of
        None \<Rightarrow> (Err (''Missing '' @ quoted ''action'' @ '' parameter''), st)
      | Some action \<Rightarrow>
          if action = ''add'' then tool_add io input st
          else if action = ''list'' then (Ok (tool_list st), st)
          else if action = ''remove'' then
            (case as_str (json_index input ''name'') of
               None \<Rightarrow> (Err (''Missing '' @ quoted ''name'' @ '' for remove''), st)
             | Some name \<Rightarrow> answer (''Removed cron job '' @ quoted name) (cron_remove io name st))
          else if action = ''enable'' \<or> action = ''disable'' then
            (case as_str (json_index input ''name'') of
               None \<Rightarrow> (Err (''Missing '' @ quoted ''name''), st)
             | Some name \<Rightarrow>
                 answer (''Cron job '' @ quoted name @ '' '' @ (if action = ''enable'' then ''enabled'' else ''disabled''))
                   (set_enabled io name (action = ''enable'') st))
          else (Err (''Unknown action: '' @ action @ ''. Valid: add, list, remove, enable, disable''), st))"

end
