(* ===== verification/CronSync.thy ===== *)
theory CronSync
  imports Cron
begin

text \<open>
  What the cron store promises: memory and directory agree through every operation, so a restart loses nothing
  but the last responses, and a reload takes over what was edited on disk. The invariants \<open>synced\<close>,
  \<open>plain_names\<close> and \<open>cached\<close> are preserved by every operation and hold in every store of \<open>cron_reaches\<close>.
\<close>

section \<open>Memory and directory agree\<close>

lemma find_job_Nil [simp]: "find_job n [] = None"
  by (simp add: find_job_def)

lemma find_job_Cons: "find_job n (j # js) = (if job_name j = n then Some j else find_job n js)"
  by (simp add: find_job_def)

lemma find_job_append:
  "find_job n (xs @ ys) = (case find_job n xs of Some j \<Rightarrow> Some j | None \<Rightarrow> find_job n ys)"
  by (induction xs) (auto simp: find_job_Cons)

lemma find_job_filter: "find_job n (filter (\<lambda>j. P (job_name j)) js) = (if P n then find_job n js else None)"
  by (induction js) (auto simp: find_job_Cons)

lemma find_job_SomeD: "find_job n js = Some j \<Longrightarrow> j \<in> set js \<and> job_name j = n"
  unfolding find_job_def by (auto dest: find_SomeD)

lemma find_job_None: "find_job n js = None \<longleftrightarrow> n \<notin> job_name ` set js"
  by (induction js) (auto simp: find_job_Cons)

lemma find_job_mem: "distinct (map job_name js) \<Longrightarrow> find_job n js = Some j \<longleftrightarrow> j \<in> set js \<and> job_name j = n"
  by (induction js) (auto simp: find_job_Cons)

lemma find_job_set_job:
  assumes "find_job n js \<noteq> None" "job_name new = n"
  shows "find_job m (set_job n new js) = (if m = n then Some new else find_job m js)"
  using assms by (induction js) (auto simp: find_job_Cons)

lemma names_set_job: "job_name new = n \<Longrightarrow> map job_name (set_job n new js) = map job_name js"
  by (induction js) auto

lemma distinct_names_filter: "distinct (map job_name js) \<Longrightarrow> distinct (map job_name (filter P js))"
  by (simp add: distinct_map_filter)

text \<open>Nothing outside fails and a printed job file is read back.\<close>

definition healthy :: "cron_io \<Rightarrow> bool" where
  "healthy io \<longleftrightarrow>
     (\<forall>f. \<exists>s. ci_print io f = Some s \<and> ci_parse io s = Some f) \<and>
     (\<forall>n. ci_write_ok io n \<and> ci_stat_ok io n \<and> ci_read_ok io n) \<and> ci_list_ok io \<and> ci_mtime io \<noteq> None"

text \<open>Each job of the list is the content of its file, and each file that holds a job is in the list.\<close>

definition synced :: "cron_io \<Rightarrow> cron_store \<Rightarrow> bool" where
  "synced io st \<longleftrightarrow>
     distinct (map job_name (jobs st)) \<and> distinct (map fst (job_files (file_store st))) \<and>
     (\<forall>n. map_option to_file (find_job n (jobs st)) = file_content io (job_files (file_store st)) n)"

lemma file_content_update:
  "healthy io \<Longrightarrow> ci_parse io s = Some f \<Longrightarrow> file_job f = m \<Longrightarrow>
     file_content io (AList.update m (s, t) d) n = (if n = m then Some f else file_content io d n)"
  by (auto simp: file_content_def healthy_def update_conv')

lemma file_content_delete:
  "file_content io (AList.delete m d) n = (if n = m then None else file_content io d n)"
  by (auto simp: file_content_def delete_conv')

lemma file_content_same_parse:
  "healthy io \<Longrightarrow> healthy io' \<Longrightarrow> ci_parse io = ci_parse io' \<Longrightarrow> file_content io = file_content io'"
proof (intro ext)
  fix d n assume "healthy io" "healthy io'" "ci_parse io = ci_parse io'"
  moreover from this have "ci_read_ok io n" "ci_read_ok io' n" by (auto simp: healthy_def)
  ultimately show "file_content io d n = file_content io' d n"
    by (cases "map_of d n") (auto simp: file_content_def)
qed

lemma synced_same_parse:
  "healthy io \<Longrightarrow> healthy io' \<Longrightarrow> ci_parse io = ci_parse io' \<Longrightarrow> synced io st = synced io' st"
  using file_content_same_parse [of io io'] by (simp only: synced_def simp_thms)

lemma persist_one_files:
  assumes "healthy io"
  shows "\<exists>s. ci_parse io s = Some f \<and>
    job_files (snd (persist_one io f fs)) = AList.update (file_job f) (s, ci_mtime io) (job_files fs)"
proof -
  obtain s where "ci_print io f = Some s" "ci_parse io s = Some f" using assms by (auto simp: healthy_def)
  then show ?thesis using assms by (auto simp: persist_one_def entry_mtime_def healthy_def Let_def)
qed

lemma synced_persist:
  assumes "healthy io" "synced io st" "distinct (map job_name js)"
    and "\<And>n. find_job n js = (if n = job_name j then Some j else find_job n (jobs st))"
  shows "synced io (persist io (to_file j) (st\<lparr>jobs := js\<rparr>))"
proof -
  obtain s where "ci_parse io s = Some (to_file j)"
    "job_files (snd (persist_one io (to_file j) (file_store st))) =
       AList.update (job_name j) (s, ci_mtime io) (job_files (file_store st))"
    using persist_one_files [OF assms(1), of "to_file j" "file_store st"] by (auto simp: to_file_def)
  moreover have "file_job (to_file j) = job_name j" by (simp add: to_file_def)
  ultimately show ?thesis
    using assms by (auto simp: synced_def persist_def distinct_update file_content_update)
qed

lemma synced_set_job:
  assumes "healthy io" "synced io st" "find_job n (jobs st) \<noteq> None" "job_name j = n"
  shows "synced io (persist io (to_file j) (st\<lparr>jobs := set_job n j (jobs st)\<rparr>))"
  using assms by (intro synced_persist) (auto simp: synced_def names_set_job find_job_set_job)

text \<open>Loading reads exactly the files that hold a job.\<close>

lemma load_fold:
  "fst (fold (load_step io d) es acc) =
     fst acc @ List.map_filter (\<lambda>e. map_option (\<lambda>f. into_job f None) (file_content io d (fst e))) es"
  by (induction es arbitrary: acc) (auto simp: load_step_def List.map_filter_simps split: option.splits)

lemma file_content_name: "file_content io d n = Some f \<Longrightarrow> file_job f = n \<and> n \<in> fst ` set d"
  by (auto simp: file_content_def dest!: map_of_SomeD split: option.splits if_splits intro: rev_image_eqI)

lemma job_name_content: "file_content io d n = Some f \<Longrightarrow> job_name (into_job f e) = n"
  by (simp add: into_job_def file_content_name)

lemma jobs_new:
  assumes "ci_list_ok io"
  shows "jobs (cron_store_new io d) =
      List.map_filter (\<lambda>e. map_option (\<lambda>f. into_job f None) (file_content io d (fst e))) d"
    and "job_files (file_store (cron_store_new io d)) = d"
  using assms load_fold [of io d d "([], [])"]
  by (cases "fold (load_step io d) d ([], [])"; simp add: cron_store_new_def load_all_sync_def)+

lemma find_content:
  assumes "\<And>n. file_content io d n = None \<Longrightarrow> h n = None"
  shows "Option.bind (find (\<lambda>e. fst e = n) d) (\<lambda>e. h (fst e)) = h n"
proof (cases "find (\<lambda>e. fst e = n) d")
  case None
  then have "n \<notin> fst ` set d" by (simp add: find_key_None)
  then have "file_content io d n = None"
    using file_content_name by (cases "file_content io d n") auto
  then show ?thesis using None assms by simp
qed (auto dest: find_SomeD)

lemma jobs_new_names:
  assumes "ci_list_ok io" "distinct (map fst d)"
  shows "distinct (map job_name (jobs (cron_store_new io d)))"
    and "find_job n (jobs (cron_store_new io d)) = map_option (\<lambda>f. into_job f None) (file_content io d n)"
proof -
  let ?get = "\<lambda>e. map_option (\<lambda>f. into_job f None) (file_content io d (fst e))"
  have nm: "job_name j = fst e" if "e \<in> set d" "?get e = Some j" for e j
    using that by (auto simp: job_name_content)
  show "distinct (map job_name (jobs (cron_store_new io d)))"
    using distinct_map_filter_key [OF assms(2), of ?get, OF nm] by (simp add: jobs_new [OF assms(1)])
  show "find_job n (jobs (cron_store_new io d)) = map_option (\<lambda>f. into_job f None) (file_content io d n)"
    using find_map_filter_key [OF assms(2), of ?get, OF nm]
      find_content [of io d "\<lambda>n. map_option (\<lambda>f. into_job f None) (file_content io d n)"]
    by (simp add: jobs_new [OF assms(1)] find_job_def)
qed

lemma to_file_into_job [simp]: "to_file (into_job f None) = f"
  by (simp add: to_file_def into_job_def merged_last_fired_def)

lemma into_job_to_file: "into_job (to_file j) None = j\<lparr>last_response := None\<rparr>"
  by (simp add: to_file_def into_job_def merged_last_fired_def)

lemma synced_new: "healthy io \<Longrightarrow> distinct (map fst d) \<Longrightarrow> synced io (cron_store_new io d)"
  using jobs_new_names [of io d] jobs_new(2) [of io d]
  by (simp add: synced_def healthy_def option.map_comp comp_def option.map_ident)

section \<open>Reloading\<close>

definition reloaded :: "cron_job_file \<Rightarrow> cron_job option \<Rightarrow> cron_job" where
  "reloaded f old =
     (case old of
        None \<Rightarrow> into_job f None
      | Some e \<Rightarrow> e\<lparr>schedule := file_schedule f, job_prompt := file_prompt f, enabled := file_enabled f,
          cooldown_secs := file_cooldown f, trigger := file_trigger f\<rparr>)"

lemma find_reload_one:
  "find_job n (jobs (reload_one f st)) =
     (if n = file_job f then Some (reloaded f (find_job n (jobs st))) else find_job n (jobs st))"
proof (cases "find_job (file_job f) (jobs st)")
  case None
  then show ?thesis
    by (auto simp: reload_one_def cron_upsert_def reloaded_def into_job_def find_job_append find_job_Cons
        split: option.splits)
next
  case (Some e)
  then have "job_name e = file_job f" by (simp add: find_job_SomeD)
  then show ?thesis using Some
    by (simp add: reload_one_def cron_upsert_def reloaded_def into_job_def find_job_set_job)
qed

lemma find_reloads:
  assumes "distinct (map file_job fs)"
  shows "find_job n (jobs (fold reload_one fs st)) =
    (case find (\<lambda>f. file_job f = n) fs of
       None \<Rightarrow> find_job n (jobs st) | Some f \<Rightarrow> Some (reloaded f (find_job n (jobs st))))"
  using assms
proof (induction fs arbitrary: st)
  case (Cons f fs)
  have "find (\<lambda>g. file_job g = n) fs = None" if "file_job f = n"
    using Cons.prems that by (auto simp: find_key_None)
  moreover have "find_job n (jobs (reload_one f st)) = find_job n (jobs st)" if "file_job f \<noteq> n"
    using that by (simp add: find_reload_one)
  moreover have "find_job n (jobs (reload_one f st)) = Some (reloaded f (find_job n (jobs st)))" if "file_job f = n"
    using that by (simp add: find_reload_one)
  ultimately show ?case using Cons by (auto split: option.splits)
qed simp

lemma distinct_upsert: "distinct (map job_name (jobs st)) \<Longrightarrow> distinct (map job_name (jobs (cron_upsert j st)))"
  by (auto simp: cron_upsert_def names_set_job find_job_None split: option.splits dest!: find_job_SomeD)

lemma distinct_reloads:
  "distinct (map job_name (jobs st)) \<Longrightarrow> distinct (map job_name (jobs (fold reload_one fs st)))"
  by (induction fs arbitrary: st) (simp_all add: reload_one_def distinct_upsert)

lemma reload_files: "file_store (fold reload_one fs st) = file_store st"
  by (induction fs arbitrary: st) (simp_all add: reload_one_def cron_upsert_def split: option.splits)

text \<open>What one reload does to the job of each name.\<close>

definition seen_time :: "cron_io \<Rightarrow> job_dir \<Rightarrow> string \<Rightarrow> nat option" where
  "seen_time io d n = map_of (current_files io d) n"

lemma keys_current: "ci_list_ok io \<Longrightarrow> map fst (current_files io d) = map fst d"
  by (simp add: current_files_def comp_def case_prod_unfold)

lemma seen_time_None: "ci_list_ok io \<Longrightarrow> seen_time io d n = None \<longleftrightarrow> n \<notin> fst ` set d"
  using keys_current [of io d] by (simp add: seen_time_def map_of_eq_None_iff flip: set_map)

lemma hot_reload_lookup:
  assumes "ci_list_ok io" "distinct (map fst (job_files (file_store st)))"
  defines "d \<equiv> job_files (file_store st)"
  shows "find_job n (jobs (hot_reload io st)) =
    (if n \<in> fst ` set (mtimes (file_store st)) \<and> n \<notin> fst ` set d then None
     else if map_of (mtimes (file_store st)) n = seen_time io d n then find_job n (jobs st)
     else case file_content io d n of None \<Rightarrow> find_job n (jobs st) | Some f \<Rightarrow> Some (reloaded f (find_job n (jobs st))))"
proof -
  let ?ms = "mtimes (file_store st)"
  let ?P = "\<lambda>(n, t). map_of ?ms n \<noteq> Some t"
  let ?cur = "current_files io d"
  let ?changed = "List.map_filter (\<lambda>(n, _). file_content io d n) (filter ?P ?cur)"
  have dc: "distinct (map fst ?cur)" using assms(2) keys_current [OF assms(1)] by (simp add: d_def)
  have nm: "file_job f = fst x" if "(\<lambda>(n, _). file_content io d n) x = Some f" for x f
    using that by (cases x) (simp add: file_content_name)
  have df: "distinct (map fst (filter ?P ?cur))" using dc by (rule distinct_map_filter)
  have f: "find (\<lambda>f. file_job f = n) ?changed =
      (if map_of ?ms n = seen_time io d n then None else file_content io d n)"
    using find_map_filter_key [OF df, of "\<lambda>(n, _). file_content io d n" file_job n, OF nm] find_filter_key [OF dc, of n ?P]
      seen_time_None [OF assms(1), of d n] file_content_name [of io d n]
    by (cases "file_content io d n") (auto simp: seen_time_def split: option.splits)
  have r: "n \<in> set (filter (\<lambda>n. map_of ?cur n = None) (map fst ?ms)) \<longleftrightarrow> n \<in> fst ` set ?ms \<and> n \<notin> fst ` set d"
    using keys_current [OF assms(1), of d] by (auto simp: map_of_eq_None_iff simp flip: set_map)
  let ?removed = "filter (\<lambda>n. map_of ?cur n = None) (map fst ?ms)"
  let ?st1 = "remove_by_names ?removed (st\<lparr>file_store := snd (scan_changes_sync io (file_store st))\<rparr>)"
  have s1: "find_job n (jobs ?st1) = (if n \<in> set ?removed then None else find_job n (jobs st))"
    using find_job_filter [of n "\<lambda>m. m \<notin> set ?removed" "jobs st"] by (simp only: remove_by_names_def) simp
  have "hot_reload io st = fold reload_one ?changed ?st1"
    by (simp add: hot_reload_def scan_changes_sync_def Let_def d_def)
  then have "find_job n (jobs (hot_reload io st)) =
      (case (if map_of ?ms n = seen_time io d n then None else file_content io d n) of
         None \<Rightarrow> find_job n (jobs ?st1) | Some f \<Rightarrow> Some (reloaded f (find_job n (jobs ?st1))))"
    using find_reloads [OF distinct_map_filter_key [OF df, of "\<lambda>(n, _). file_content io d n" file_job, OF nm]]
    by (simp only: f)
  moreover have "file_content io d n = None" if "n \<notin> fst ` set d"
    using that file_content_name [of io d n] by (cases "file_content io d n") auto
  ultimately show ?thesis unfolding s1 r by (auto split: option.splits)
qed

section \<open>Runs of the store\<close>

datatype cron_op =
  AddJob string string string "nat option" trigger_mode
| RemoveJob string
| UpdateJob string "string option" "string option" "nat option"
| EnableJob string bool
| FiredJob nat string
| RespondJob string string
| Reload

fun run_op :: "cron_io \<times> cron_op \<Rightarrow> cron_store \<Rightarrow> cron_store" where
  "run_op (io, AddJob n s p c t) st = snd (cron_add io n s p c t st)"
| "run_op (io, RemoveJob n) st = snd (cron_remove io n st)"
| "run_op (io, UpdateJob n s p c) st = snd (cron_update io n s p c st)"
| "run_op (io, EnableJob n b) st = snd (set_enabled io n b st)"
| "run_op (io, FiredJob now n) st = record_fired io now n st"
| "run_op (io, RespondJob n r) st = set_last_response n r st"
| "run_op (io, Reload) st = hot_reload io st"

lemma persist_jobs [simp]: "jobs (persist io f st) = jobs st"
  by (simp add: persist_def)

lemma synced_add:
  assumes "healthy io" "synced io st"
  shows "synced io (snd (cron_add io n s p c t st))"
proof -
  let ?j = "\<lparr>job_name = n, schedule = s, job_prompt = p, enabled = True, last_fired_at = None,
    last_response = None, cooldown_secs = c, trigger = t\<rparr>"
  have "synced io (persist io (to_file ?j) (st\<lparr>jobs := filter (\<lambda>j. job_name j \<noteq> n) (jobs st) @ [?j]\<rparr>))"
  proof (rule synced_persist [OF assms])
    show "distinct (map job_name (filter (\<lambda>j. job_name j \<noteq> n) (jobs st) @ [?j]))"
      using assms(2) by (auto simp: synced_def distinct_names_filter)
    show "find_job m (filter (\<lambda>j. job_name j \<noteq> n) (jobs st) @ [?j]) =
        (if m = job_name ?j then Some ?j else find_job m (jobs st))" for m
      using find_job_filter [of m "\<lambda>x. x \<noteq> n" "jobs st"]
      by (simp add: find_job_append find_job_Cons split: option.split)
  qed
  then show ?thesis
    using assms by (auto simp: cron_add_def Let_def split: sum.splits)
qed

lemma synced_remove:
  assumes "healthy io" "synced io st"
  shows "synced io (snd (cron_remove io n st))"
proof (cases "length (filter (\<lambda>j. job_name j \<noteq> n) (jobs st)) \<ge> length (jobs st)")
  case True
  then have "filter (\<lambda>j. job_name j \<noteq> n) (jobs st) = jobs st"
    using length_filter_less [of _ "jobs st" "\<lambda>j. job_name j \<noteq> n"] by (force intro!: filter_True)
  then show ?thesis using assms(2) by (simp add: cron_remove_def)
next
  case False
  then show ?thesis
    using assms find_job_filter [of _ "\<lambda>x. x \<noteq> n" "jobs st"]
    by (simp add: cron_remove_def Let_def synced_def remove_file_def distinct_names_filter file_content_delete
        healthy_def distinct_delete)
qed

lemma synced_changes:
  assumes "healthy io" "synced io st"
  shows "synced io (snd (cron_update io n s p c st))" "synced io (snd (set_enabled io n b st))"
    "synced io (record_fired io now n st)"
  using assms find_job_SomeD [of n "jobs st"]
  by (auto simp: cron_update_def set_enabled_def record_fired_def Let_def
      intro!: synced_set_job split: option.splits sum.splits)

lemma synced_respond:
  assumes "synced io st"
  shows "synced io (set_last_response n r st)"
proof (cases "find_job n (jobs st)")
  case (Some j)
  have "map_option to_file (find_job m (set_job n (j\<lparr>last_response := Some r\<rparr>) (jobs st))) =
      map_option to_file (find_job m (jobs st))" for m
    using Some find_job_SomeD [OF Some] by (simp add: find_job_set_job to_file_def)
  then show ?thesis
    using assms Some find_job_SomeD [OF Some] by (simp add: set_last_response_def synced_def names_set_job)
qed (use assms in \<open>simp add: set_last_response_def\<close>)

lemma reloaded_same: "reloaded (to_file j) (Some j) = j"
  by (simp add: reloaded_def to_file_def)

lemma reload_keeps_jobs:
  assumes "healthy io" "synced io st"
  shows "find_job n (jobs (hot_reload io st)) = find_job n (jobs st)"
proof -
  have l: "ci_list_ok io" "distinct (map fst (job_files (file_store st)))"
    using assms by (auto simp: healthy_def synced_def)
  have c: "map_option to_file (find_job n (jobs st)) = file_content io (job_files (file_store st)) n"
    using assms(2) by (simp add: synced_def)
  show ?thesis
  proof (cases "find_job n (jobs st)")
    case None
    then show ?thesis using c by (simp add: hot_reload_lookup [OF l])
  next
    case (Some j)
    then have "file_content io (job_files (file_store st)) n = Some (to_file j)" using c by simp
    then show ?thesis
      using Some file_content_name by (auto simp: hot_reload_lookup [OF l] reloaded_same)
  qed
qed

lemma hot_reload_frame:
  "job_files (file_store (hot_reload io st)) = job_files (file_store st)"
  "distinct (map job_name (jobs st)) \<Longrightarrow> distinct (map job_name (jobs (hot_reload io st)))"
  by (simp_all add: hot_reload_def scan_changes_sync_def Let_def reload_files remove_by_names_def
      distinct_reloads distinct_names_filter)

lemma synced_reload: "healthy io \<Longrightarrow> synced io st \<Longrightarrow> synced io (hot_reload io st)"
  using reload_keeps_jobs [of io st] by (simp add: synced_def hot_reload_frame)

text \<open>File stems and job names have no path separator, so every job file lies in the directory.\<close>

definition plain_name :: "string \<Rightarrow> bool" where
  "plain_name n = (CHR ''/'' \<notin> set n)"

definition plain_names :: "cron_store \<Rightarrow> bool" where
  "plain_names st \<longleftrightarrow> list_all plain_name (map job_name (jobs st)) \<and>
     list_all plain_name (map fst (job_files (file_store st)))"

lemma keys_update: "set (map fst (AList.update k v al)) = insert k (set (map fst al))"
  by (simp only: set_map dom_map_of_conv_image_fst [symmetric] update_conv' dom_fun_upd) simp

lemma keys_delete: "set (map fst (AList.delete k al)) = set (map fst al) - {k}"
  by (simp only: delete_keys set_removeAll)

lemma list_all_update: "list_all P (map fst (AList.update k v al)) \<longleftrightarrow> P k \<and> list_all P (map fst al)"
  unfolding list_all_iff keys_update by simp

lemma plain_persist:
  "plain_names st \<Longrightarrow> plain_name (file_job f) \<Longrightarrow> plain_names (persist io f st)"
  by (simp add: plain_names_def persist_def persist_one_def Let_def list_all_update split: option.splits)

lemma plain_set_job:
  assumes "plain_names st" "find_job n (jobs st) = Some j" "job_name new = n"
  shows "plain_names (persist io (to_file new) (st\<lparr>jobs := set_job n new (jobs st)\<rparr>))"
proof (rule plain_persist)
  show "plain_names (st\<lparr>jobs := set_job n new (jobs st)\<rparr>)"
    using assms by (simp add: plain_names_def names_set_job)
  have "n \<in> set (map job_name (jobs st))" using find_job_SomeD [OF assms(2)] by (auto simp: image_iff)
  then show "plain_name (file_job (to_file new))"
    using assms(1,3) unfolding plain_names_def list_all_iff by (auto simp: to_file_def)
qed

lemma validate_cron_name_plain: "validate_cron_name n = Inr u \<Longrightarrow> plain_name n"
  by (simp add: validate_cron_name_def plain_name_def split: if_splits)

lemma plain_add:
  assumes "plain_names st"
  shows "plain_names (snd (cron_add io n s p c t st))"
proof (cases "fst (cron_add io n s p c t st)")
  case (Inl e)
  then show ?thesis using assms by (auto simp: cron_add_def Let_def split: sum.splits if_splits)
next
  case (Inr u)
  then have n: "plain_name n" using validate_cron_name_plain by (auto simp: cron_add_def split: sum.splits)
  have "plain_names (persist io (to_file j) (st\<lparr>jobs := filter (\<lambda>j. job_name j \<noteq> n) (jobs st) @ [j]\<rparr>))"
    if "job_name j = n" for j
    using that assms n by (intro plain_persist) (auto simp: plain_names_def to_file_def list_all_iff)
  then show ?thesis using assms by (auto simp: cron_add_def Let_def split: sum.splits)
qed

lemma plain_changes:
  assumes "plain_names st"
  shows "plain_names (snd (cron_update io n s p c st))" "plain_names (snd (set_enabled io n b st))"
    "plain_names (record_fired io now n st)"
  using assms find_job_SomeD [of n "jobs st"]
  by (auto simp: cron_update_def set_enabled_def record_fired_def Let_def
      intro!: plain_set_job split: option.splits sum.splits)

lemma plain_respond: "plain_names st \<Longrightarrow> plain_names (set_last_response n r st)"
  by (auto simp: set_last_response_def plain_names_def names_set_job dest: find_job_SomeD split: option.splits)

lemma list_all_filtered: "list_all P (map f xs) \<Longrightarrow> list_all P (map f (filter q xs))"
  by (auto simp: list_all_iff)

lemma plain_remove: "plain_names st \<Longrightarrow> plain_names (snd (cron_remove io n st))"
  unfolding plain_names_def cron_remove_def Let_def remove_file_def
  by (auto simp: list_all_filtered) (auto simp only: list_all_iff keys_delete)

lemma plain_reload:
  assumes "healthy io" "synced io st" "plain_names st"
  shows "plain_names (hot_reload io st)"
proof -
  have "job_name ` set (jobs (hot_reload io st)) = job_name ` set (jobs st)"
    using reload_keeps_jobs [OF assms(1,2)] find_job_None by (metis set_eqI)
  then show ?thesis
    using assms(3) by (simp add: plain_names_def hot_reload_frame list_all_iff flip: image_image)
qed

lemma jobs_set: "distinct (map job_name js) \<Longrightarrow> set js = {j. find_job (job_name j) js = Some j}"
  using find_job_mem by auto

text \<open>The cache of modification times knows the file of every job.\<close>

definition cached :: "cron_store \<Rightarrow> bool" where
  "cached st \<longleftrightarrow> set (map job_name (jobs st)) \<subseteq> set (map fst (mtimes (file_store st)))"

lemma persist_mtimes:
  assumes "healthy io"
  shows "set (map fst (mtimes (file_store (persist io f st)))) =
    insert (file_job f) (set (map fst (mtimes (file_store st))))"
proof -
  obtain s where "ci_print io f = Some s" using assms by (auto simp: healthy_def)
  moreover obtain t where "ci_mtime io = Some t" using assms by (auto simp: healthy_def)
  moreover have "ci_write_ok io n" "ci_stat_ok io n" for n using assms by (auto simp: healthy_def)
  ultimately have "mtimes (file_store (persist io f st)) = AList.update (file_job f) t (mtimes (file_store st))"
    by (simp add: persist_def persist_one_def entry_mtime_def Let_def)
  then show ?thesis by (simp only: keys_update)
qed

lemma cached_persist:
  "healthy io \<Longrightarrow> cached st \<Longrightarrow> set (map job_name js) \<subseteq> insert (file_job f) (set (map job_name (jobs st))) \<Longrightarrow>
     cached (persist io f (st\<lparr>jobs := js\<rparr>))"
  unfolding cached_def persist_jobs by (simp only: persist_mtimes) (simp, blast)

lemma cached_set_job:
  assumes "healthy io" "cached st" "job_name j = n"
  shows "cached (persist io (to_file j) (st\<lparr>jobs := set_job n j (jobs st)\<rparr>))"
  using assms by (intro cached_persist) (simp_all only: names_set_job subset_insertI)

lemma cached_add:
  assumes "healthy io" "cached st"
  shows "cached (snd (cron_add io n s p c t st))"
proof -
  have "cached (persist io (to_file j) (st\<lparr>jobs := filter (\<lambda>j. job_name j \<noteq> n) (jobs st) @ [j]\<rparr>))" for j
    using assms by (intro cached_persist) (auto simp: to_file_def)
  then show ?thesis using assms(2) by (auto simp: cron_add_def Let_def split: sum.splits)
qed

lemma cached_changes:
  assumes "healthy io" "cached st"
  shows "cached (snd (cron_update io n s p c st))" "cached (snd (set_enabled io n b st))"
    "cached (record_fired io now n st)"
  using assms find_job_SomeD [of n "jobs st"]
  by (auto simp: cron_update_def set_enabled_def record_fired_def Let_def
      intro!: cached_set_job split: option.splits sum.splits)

lemma cached_respond: "cached st \<Longrightarrow> cached (set_last_response n r st)"
  using find_job_SomeD [of n "jobs st"]
  by (auto simp: set_last_response_def cached_def names_set_job simp del: set_map split: option.splits)

lemma cached_remove:
  assumes "cached st"
  shows "cached (snd (cron_remove io n st))"
proof (cases "fst (cron_remove io n st)")
  case (Inl e)
  then show ?thesis using assms by (auto simp: cron_remove_def cached_def Let_def split: if_splits)
next
  case (Inr u)
  then have "snd (cron_remove io n st) = st\<lparr>jobs := filter (\<lambda>j. job_name j \<noteq> n) (jobs st),
      file_store := remove_file io n (file_store st)\<rparr>"
    by (auto simp: cron_remove_def Let_def split: if_splits)
  moreover have "set (map job_name (filter (\<lambda>j. job_name j \<noteq> n) (jobs st))) \<subseteq>
      set (map fst (AList.delete n (mtimes (file_store st))))"
    using assms unfolding keys_delete cached_def by auto
  ultimately show ?thesis by (simp add: cached_def remove_file_def)
qed

lemma keys_fold_update: "set (map fst (fold (\<lambda>(n, t). AList.update n t) xs al)) = set (map fst xs) \<union> set (map fst al)"
  by (induction xs arbitrary: al) (auto simp del: set_map simp: keys_update)

lemma cached_reload:
  assumes "healthy io" "synced io st"
  shows "cached (hot_reload io st)"
proof -
  have "set (map job_name (jobs (hot_reload io st))) \<subseteq> set (map fst (job_files (file_store st)))"
  proof
    fix n assume "n \<in> set (map job_name (jobs (hot_reload io st)))"
    then have "find_job n (jobs (hot_reload io st)) \<noteq> None" by (simp add: find_job_None)
    then have "file_content io (job_files (file_store st)) n \<noteq> None"
      using reload_keeps_jobs [OF assms] assms(2) unfolding synced_def by (metis option.map_disc_iff)
    then show "n \<in> set (map fst (job_files (file_store st)))" using file_content_name by fastforce
  qed
  moreover have "set (map fst (job_files (file_store st))) \<subseteq> set (map fst (mtimes (file_store (hot_reload io st))))"
    using assms(1) unfolding hot_reload_def scan_changes_sync_def Let_def
    by (simp add: reload_files remove_by_names_def healthy_def keys_fold_update keys_current del: set_map)
  ultimately show ?thesis unfolding cached_def by blast
qed

section \<open>Reachable stores\<close>

text \<open>A store is opened on a directory and then used; nothing outside fails and nobody else writes the files.\<close>

inductive cron_reaches :: "cron_io \<Rightarrow> cron_store \<Rightarrow> bool" for io where
  opened: "distinct (map fst d) \<Longrightarrow> list_all plain_name (map fst d) \<Longrightarrow> list_all (\<lambda>e. snd (snd e) \<noteq> None) d \<Longrightarrow>
    cron_reaches io (cron_store_new io d)"
| used: "cron_reaches io st \<Longrightarrow> healthy i \<Longrightarrow> ci_parse i = ci_parse io \<Longrightarrow> cron_reaches io (run_op (i, op) st)"

lemma load_mtimes:
  assumes "\<forall>n. ci_stat_ok io n" "list_all (\<lambda>e. snd (snd e) \<noteq> None) es"
  shows "fst ` set es \<inter> {n. file_content io d n \<noteq> None} \<subseteq> set (map fst (snd (fold (load_step io d) es acc))) \<and>
    set (map fst (snd acc)) \<subseteq> set (map fst (snd (fold (load_step io d) es acc)))"
  using assms(2)
proof (induction es arbitrary: acc)
  case (Cons e es)
  obtain n s t where e: "e = (n, s, Some t)" using Cons.prems by (cases e) auto
  let ?acc = "load_step io d e acc"
  have "set (map fst (snd acc)) \<subseteq> set (map fst (snd ?acc))"
    "file_content io d n \<noteq> None \<longrightarrow> n \<in> set (map fst (snd ?acc))"
    using assms(1) by (auto simp: load_step_def entry_mtime_def e keys_update simp del: set_map split: option.splits)
  moreover have "fst ` set es \<inter> {n. file_content io d n \<noteq> None} \<subseteq> set (map fst (snd (fold (load_step io d) es ?acc)))"
    "set (map fst (snd ?acc)) \<subseteq> set (map fst (snd (fold (load_step io d) es ?acc)))"
    using Cons.IH [of ?acc] Cons.prems by simp_all
  ultimately show ?case unfolding e by (simp del: set_map) blast
qed simp

lemma cached_new:
  assumes "healthy io" "list_all (\<lambda>e. snd (snd e) \<noteq> None) d"
  shows "cached (cron_store_new io d)"
proof -
  have l: "ci_list_ok io" "\<forall>n. ci_stat_ok io n" using assms(1) by (auto simp: healthy_def)
  have "n \<in> fst ` set d \<inter> {n. file_content io d n \<noteq> None}" if "n \<in> set (map job_name (jobs (cron_store_new io d)))" for n
    using that by (auto simp: jobs_new [OF l(1)] mem_map_filter job_name_content) (auto intro: rev_image_eqI)
  moreover have "mtimes (file_store (cron_store_new io d)) = snd (fold (load_step io d) d ([], []))"
    using l(1) by (simp add: cron_store_new_def load_all_sync_def split: prod.split)
  ultimately show ?thesis
    using load_mtimes [OF l(2) assms(2), of d "([], [])"] unfolding cached_def by auto
qed

lemma reaches_ok:
  assumes "cron_reaches io st" "healthy io"
  shows "synced io st \<and> plain_names st \<and> cached st"
  using assms(1)
proof (induction rule: cron_reaches.induct)
  case (opened d)
  have "ci_list_ok io" using assms(2) by (simp add: healthy_def)
  then have "plain_names (cron_store_new io d)"
    using opened(2) by (fastforce simp: plain_names_def jobs_new list_all_iff mem_map_filter job_name_content)
  then show ?case using opened assms(2) by (simp add: synced_new cached_new)
next
  case (used st i op)
  then have "synced i st" using synced_same_parse [of i io st] assms(2) by simp
  then have "synced i (run_op (i, op) st) \<and> plain_names (run_op (i, op) st) \<and> cached (run_op (i, op) st)"
    using used by (cases op) (simp_all add: synced_add synced_remove synced_changes synced_respond synced_reload
      plain_add plain_remove plain_changes plain_respond plain_reload
      cached_add cached_remove cached_changes cached_respond cached_reload)
  then show ?case using synced_same_parse [of i io] assms(2) used(2,3) by simp
qed

text \<open>C29: Restart. After any use of the store, opening its directory again gives the same jobs, with all they
  carry except the last response, which is kept in memory only; names are distinct and name files of the directory.\<close>

theorem cron_restart_round_trip:
  assumes "healthy io" "cron_reaches io st"
  shows "set (jobs (cron_store_new io (job_files (file_store st)))) =
      (\<lambda>j. j\<lparr>last_response := None\<rparr>) ` set (jobs st) \<and>
    distinct (map job_name (jobs st)) \<and> list_all plain_name (map job_name (jobs st))"
proof -
  let ?d = "job_files (file_store st)" and ?new = "jobs (cron_store_new io (job_files (file_store st)))"
  have ok: "synced io st" "plain_names st" using reaches_ok [OF assms(2,1)] by auto
  then have d: "distinct (map job_name (jobs st))" "distinct (map fst ?d)" by (auto simp: synced_def)
  have l: "ci_list_ok io" using assms(1) by (simp add: healthy_def)
  have "find_job n ?new = map_option (\<lambda>j. j\<lparr>last_response := None\<rparr>) (find_job n (jobs st))" for n
    using ok(1) unfolding jobs_new_names(2) [OF l d(2)] synced_def
    by (metis (no_types, lifting) comp_apply into_job_to_file option.map_comp option.map_cong)
  then have "j \<in> set ?new \<longleftrightarrow> (\<exists>j'. find_job (job_name j) (jobs st) = Some j' \<and> j = j'\<lparr>last_response := None\<rparr>)" for j
    using find_job_mem [OF jobs_new_names(1) [OF l d(2)], of "job_name j" j] by auto
  then have "set ?new = (\<lambda>j. j\<lparr>last_response := None\<rparr>) ` set (jobs st)"
    using find_job_mem [OF d(1)] by (auto simp: image_iff)
  then show ?thesis using d(1) ok(2) by (simp add: plain_names_def)
qed

text \<open>Hot reload. Someone replaces the contents of the directory, each edit with a new modification time. The
  next reload drops the jobs whose file is gone, takes new jobs from their files, and gives every other job the
  configuration its file has now; a file that holds no job leaves the old one in force.\<close>

theorem cron_reload_follows_directory:
  assumes "healthy io" "cron_reaches io st" "distinct (map fst d)"
    and "\<And>n. map_of d n \<noteq> map_of (job_files (file_store st)) n \<Longrightarrow> map_of d n \<noteq> None \<Longrightarrow>
      seen_time io d n \<noteq> map_of (mtimes (file_store st)) n"
  shows "find_job n (jobs (hot_reload io (st\<lparr>file_store := (file_store st)\<lparr>job_files := d\<rparr>\<rparr>))) =
    (if n \<in> fst ` set d
     then case file_content io d n of
            None \<Rightarrow> find_job n (jobs st) | Some f \<Rightarrow> Some (reloaded f (find_job n (jobs st)))
     else None)"
proof -
  let ?st = "st\<lparr>file_store := (file_store st)\<lparr>job_files := d\<rparr>\<rparr>"
  have ok: "synced io st" "cached st" using reaches_ok [OF assms(2,1)] by auto
  have l: "ci_list_ok io" using assms(1) by (simp add: healthy_def)
  have look: "find_job n (jobs (hot_reload io ?st)) =
    (if n \<in> fst ` set (mtimes (file_store st)) \<and> n \<notin> fst ` set d then None
     else if map_of (mtimes (file_store st)) n = seen_time io d n then find_job n (jobs st)
     else case file_content io d n of None \<Rightarrow> find_job n (jobs st) | Some f \<Rightarrow> Some (reloaded f (find_job n (jobs st))))"
    using hot_reload_lookup [OF l, of ?st n] assms(3) by (simp cong: option.case_cong)
  show ?thesis
  proof (cases "n \<in> fst ` set d")
    case False
    then have "find_job n (jobs st) = None" if "n \<notin> fst ` set (mtimes (file_store st))"
      using that ok(2) by (auto simp: find_job_None cached_def)
    moreover have "file_content io d n = None" using False file_content_name [of io d n] by (cases "file_content io d n") auto
    ultimately show ?thesis using look False by auto
  next
    case True
    show ?thesis
    proof (cases "map_of (mtimes (file_store st)) n = seen_time io d n")
      case same: True
      then have "map_of d n = map_of (job_files (file_store st)) n"
        using assms(4) True by (metis map_of_eq_None_iff)
      then have "file_content io d n = map_option to_file (find_job n (jobs st))"
        using ok(1) by (simp add: synced_def file_content_def)
      then show ?thesis using look True same reloaded_same by (cases "find_job n (jobs st)") auto
    qed (use look True in simp)
  qed
qed

section \<open>A concrete directory\<close>

text \<open>A faultless environment: the fields of a job are written one after the other.\<close>

definition count_field :: "nat option \<Rightarrow> string" where
  "count_field n = (case n of None \<Rightarrow> [] | Some k \<Rightarrow> replicate (Suc k) (CHR ''x''))"

definition field_count :: "string \<Rightarrow> nat option" where
  "field_count s = (case length s of 0 \<Rightarrow> None | Suc k \<Rightarrow> Some k)"

lemma field_count_field [simp]: "field_count (count_field n) = n"
  by (cases n) (simp_all add: field_count_def count_field_def)

definition sample_job_text :: "cron_job_file \<Rightarrow> string" where
  "sample_job_text f = concat (map put_field [file_job f, file_schedule f, file_prompt f,
     if file_enabled f then ''x'' else [], count_field (file_cooldown f),
     if file_trigger f = Once then ''x'' else [], count_field (file_last_fired f)])"

definition sample_job_parse :: "string \<Rightarrow> cron_job_file option" where
  "sample_job_parse s =
     (case get_field s of (n, s1) \<Rightarrow> case get_field s1 of (sch, s2) \<Rightarrow> case get_field s2 of (p, s3) \<Rightarrow>
      case get_field s3 of (e, s4) \<Rightarrow> case get_field s4 of (c, s5) \<Rightarrow> case get_field s5 of (t, s6) \<Rightarrow>
      case get_field s6 of (l, _) \<Rightarrow>
        Some \<lparr>file_job = n, file_schedule = sch, file_prompt = p, file_enabled = (e \<noteq> []),
          file_cooldown = field_count c, file_trigger = (if t = [] then Schedule else Once),
          file_last_fired = field_count l\<rparr>)"

lemma sample_job_round_trip: "sample_job_parse (sample_job_text f) = Some f"
proof -
  have "get_field (put_field s) = (s, [])" for s using get_put_field [of s "[]"] by simp
  then show ?thesis by (cases "file_trigger f") (simp_all add: sample_job_parse_def sample_job_text_def del: put_field.simps get_field.simps)
qed

definition sample_io :: cron_io where
  "sample_io = \<lparr>ci_print = (\<lambda>f. Some (sample_job_text f)), ci_parse = sample_job_parse,
     ci_datetime = (\<lambda>s. if s = ''2026-05-31T21:14:00'' then Ok 1780262040 else Err ''no date''),
     ci_write_ok = (\<lambda>_. True), ci_torn = (\<lambda>_. ([], None)), ci_stat_ok = (\<lambda>_. True), ci_read_ok = (\<lambda>_. True),
     ci_list_ok = True, ci_mtime = Some 100\<rparr>"

lemma healthy_sample: "healthy sample_io"
  by (simp add: healthy_def sample_io_def sample_job_round_trip)

definition sample_store :: cron_store where
  "sample_store =
     run_op (sample_io, AddJob ''daily'' ''0 9 * * *'' ''report'' None Schedule) (cron_store_new sample_io [])"

lemma sample_reaches: "cron_reaches sample_io sample_store"
  unfolding sample_store_def
  by (intro cron_reaches.used cron_reaches.opened healthy_sample) simp_all

definition sample_cron_job :: cron_job where
  "sample_cron_job = \<lparr>job_name = ''daily'', schedule = ''0 9 * * *'', job_prompt = ''report'', enabled = True,
     last_fired_at = None, last_response = None, cooldown_secs = None, trigger = Schedule\<rparr>"

lemma sample_valid:
  "validate_cron_name ''daily'' = Ok ()" "validate_cron_schedule ''0 9 * * *'' = Ok ()"
   apply (simp add: validate_cron_name_def str_contains_def is_whitespace_def)
  apply (simp add: validate_cron_schedule_def split_whitespace_def is_whitespace_def cron_ranges_def validate_field_def
    strip_prefix_def parse_unsigned_def digit_value_def)
  done

lemma sample_store_eq:
  "sample_store = \<lparr>jobs = [sample_cron_job],
     file_store = \<lparr>job_files = [(''daily'', sample_job_text (to_file sample_cron_job), Some 100)], mtimes = [(''daily'', 100)]\<rparr>\<rparr>"
  by (simp add: sample_store_def cron_add_def sample_valid cron_store_new_def load_all_sync_def MAX_JOBS_def
    persist_def persist_one_def sample_io_def sample_cron_job_def to_file_def entry_mtime_def Let_def)

lemma sample_store_jobs: "jobs sample_store = [sample_cron_job]"
  by (simp add: sample_store_eq)

theorem cron_restart_round_trip_witness:
  "set (jobs (cron_store_new sample_io (job_files (file_store sample_store)))) = {sample_cron_job}"
  using cron_restart_round_trip [OF healthy_sample sample_reaches]
  by (simp add: sample_store_jobs) (simp add: sample_cron_job_def)

definition sample_edit :: job_dir where
  "sample_edit = [(''daily'', sample_job_text ((to_file sample_cron_job)\<lparr>file_prompt := ''brief''\<rparr>), Some 200)]"

lemma sample_edit_time:
  "map_of (mtimes (file_store sample_store)) ''daily'' = Some 100" "seen_time sample_io sample_edit ''daily'' = Some 200"
  "file_content sample_io sample_edit ''daily'' = Some ((to_file sample_cron_job)\<lparr>file_prompt := ''brief''\<rparr>)"
  by (simp_all add: sample_store_eq seen_time_def current_files_def entry_mtime_def sample_edit_def file_content_def
      sample_io_def sample_job_round_trip) (simp add: to_file_def sample_cron_job_def)

theorem cron_reload_follows_directory_witness:
  "find_job ''daily'' (jobs (hot_reload sample_io
       (sample_store\<lparr>file_store := (file_store sample_store)\<lparr>job_files := sample_edit\<rparr>\<rparr>))) =
     Some (sample_cron_job\<lparr>job_prompt := ''brief''\<rparr>)"
proof -
  have "seen_time sample_io sample_edit n \<noteq> map_of (mtimes (file_store sample_store)) n"
    if "map_of sample_edit n \<noteq> None" for n
    using that sample_edit_time by (auto simp: sample_edit_def split: if_splits)
  moreover have "distinct (map fst sample_edit)" by (simp add: sample_edit_def)
  ultimately show ?thesis
    using cron_reload_follows_directory [OF healthy_sample sample_reaches, of sample_edit "''daily''"]
    by (simp add: sample_edit_time sample_store_jobs find_job_Cons reloaded_def)
       (simp add: sample_edit_def sample_cron_job_def to_file_def)
qed

end
