(* ===== verification/CronRun.thy ===== *)
theory CronRun
  imports CronSync
begin

text \<open>
  The cron runner (\<open>builtin/cron_runner.rs\<close>) and the jitter of fire times (\<open>builtin/cron/jitter.rs\<close>): the
  calendar, the matching of schedules, the one-shot jobs missed while the process was down, and a tick of
  the runner with the guards that keep a job from firing twice.

  Clock readings are arguments. A double is a natural number over a fixed power of two: the products the
  jitter computes are never below the smallest normal double, so rounding a double is rounding the numerator to
  53 significant bits.
\<close>

unbundle bit_operations_syntax

section \<open>Jitter\<close>

definition fnv1a_64 :: "string \<Rightarrow> nat" where
  "fnv1a_64 name = unat (foldl (\<lambda>hash b. (hash XOR of_nat (of_char b)) * 0x100000001b3)
     (0xcbf29ce484222325 :: 64 word) name)"

definition RECURRING_CAP_MS :: nat where "RECURRING_CAP_MS = 15 * 60 * 1000"
definition ONESHOT_MAX_MS :: nat where "ONESHOT_MAX_MS = 90000"
definition ONESHOT_MINUTE_MOD :: nat where "ONESHOT_MINUTE_MOD = 30"

text \<open>The number of binary digits, and rounding to 53 of them, to nearest, ties to even.\<close>

fun bit_length :: "nat \<Rightarrow> nat" where
  "bit_length n = (if n = 0 then 0 else Suc (bit_length (n div 2)))"

declare bit_length.simps [simp del]

definition round_shift :: "nat \<Rightarrow> nat \<Rightarrow> nat" where
  "round_shift k n =
     (let q = n div 2 ^ k; r = n mod 2 ^ k
      in (if 2 * r < 2 ^ k then q else if 2 ^ k < 2 * r then q + 1 else if even q then q else q + 1) * 2 ^ k)"

definition round_f64 :: "nat \<Rightarrow> nat" where
  "round_f64 n = (if bit_length n \<le> 53 then n else round_shift (bit_length n - 53) n)"

text \<open>\<open>jitter_frac\<close> is \<open>h as f64 / u64::MAX as f64\<close>, and \<open>u64::MAX as f64\<close> is \<open>2 ^ 64\<close>: the numerator over \<open>2 ^ 64\<close>.\<close>

definition jitter_frac :: "string \<Rightarrow> nat" where
  "jitter_frac name = round_f64 (fnv1a_64 name)"

text \<open>The double nearest to 0.1 is \<open>3602879701896397 / 2 ^ 55\<close>.\<close>

definition RECURRING_FRAC :: nat where "RECURRING_FRAC = 3602879701896397"

definition recurring_jitter :: "string \<Rightarrow> nat \<Rightarrow> nat" where
  "recurring_jitter name interval_ms =
     (let raw = round_f64 (round_f64 (jitter_frac name * RECURRING_FRAC) * round_f64 interval_ms)
      in min (min (raw div 2 ^ 119) u64_max) RECURRING_CAP_MS)"

definition oneshot_jitter :: "string \<Rightarrow> nat \<Rightarrow> nat" where
  "oneshot_jitter name target_minute =
     (if target_minute mod ONESHOT_MINUTE_MOD \<noteq> 0 then 0
      else round_f64 (jitter_frac name * ONESHOT_MAX_MS) div 2 ^ 64)"

definition within_minute_jitter_ms :: "string \<Rightarrow> nat \<Rightarrow> nat" where
  "within_minute_jitter_ms name interval_secs = recurring_jitter name (interval_secs * 1000 mod 2 ^ 64)"

section \<open>The calendar\<close>

text \<open>Days since 1970-01-01 to year, month and day (\<open>civil_from_days\<close>).\<close>

definition civil_from_days :: "int \<Rightarrow> int \<times> int \<times> int" where
  "civil_from_days days =
     (let z = days + 719468;
          era = (if z \<ge> 0 then z else z - 146096) div 146097;
          doe = z - era * 146097;
          yoe = (doe - doe div 1460 + doe div 36524 - doe div 146096) div 365;
          y = yoe + era * 400;
          doy = doe - (365 * yoe + yoe div 4 - yoe div 100);
          mp = (5 * doy + 2) div 153;
          day = doy - (153 * mp + 2) div 5 + 1;
          month = (if mp < 10 then mp + 3 else mp - 9);
          year = (if month \<le> 2 then y + 1 else y)
      in (year, month, day))"

definition now_local_components :: "int \<Rightarrow> int \<Rightarrow> nat list" where
  "now_local_components utc_ts offset_secs =
     (let local_ts = (utc_ts + offset_secs) mod 2 ^ 64;
          days = local_ts div 86400;
          time_of_day = local_ts mod 86400
      in case civil_from_days days of (_, month, day) \<Rightarrow>
        map nat [(time_of_day mod 3600) div 60, time_of_day div 3600, day, month, (days + 4) mod 7])"

section \<open>Matching\<close>

definition field_matches :: "string \<Rightarrow> nat \<Rightarrow> bool" where
  "field_matches field current =
     (if field = ''*'' then True
      else (case strip_prefix ''*/'' field of
        Some rest \<Rightarrow>
          (case parse_unsigned 32 rest of
             Some step \<Rightarrow> step > 0 \<and> current mod step = 0
           | None \<Rightarrow> False)
      | None \<Rightarrow> (case parse_unsigned 32 field of Some v \<Rightarrow> v = current | None \<Rightarrow> False)))"

definition cron_matches :: "string \<Rightarrow> nat list \<Rightarrow> bool" where
  "cron_matches expr current =
     (let fields = split_whitespace expr in length fields = 5 \<and> list_all2 field_matches fields current)"

text \<open>Local time is counted in nanoseconds, the target in seconds, the jitter in milliseconds.\<close>

definition once_matches :: "cron_io \<Rightarrow> string \<Rightarrow> string \<Rightarrow> nat option \<Rightarrow> bool" where
  "once_matches io sched name now_local =
     (case ci_datetime io sched of
        Inl _ \<Rightarrow> False
      | Inr target \<Rightarrow>
          (case now_local of
             None \<Rightarrow> False
           | Some now \<Rightarrow> now + oneshot_jitter name (target div 60 mod 60) * 1000000 \<ge> target * 1000000000))"

definition estimate_cron_interval_secs :: "string \<Rightarrow> nat" where
  "estimate_cron_interval_secs expr =
     (case split_whitespace expr of
        [minute, hour, day, month, weekday] \<Rightarrow>
          (case Option.bind (strip_prefix ''*/'' minute) (parse_unsigned 64) of
             Some n \<Rightarrow> n * 60 mod 2 ^ 64
           | None \<Rightarrow>
               (case Option.bind (strip_prefix ''*/'' hour) (parse_unsigned 64) of
                  Some n \<Rightarrow> n * 3600 mod 2 ^ 64
                | None \<Rightarrow>
                    if minute = ''*'' \<and> hour = ''*'' then 60
                    else if hour = ''*'' \<and> CHR ''*'' \<notin> set minute then 3600
                    else if CHR ''*'' \<notin> set hour \<and> CHR ''*'' \<notin> set minute \<and> day = ''*'' then 86400
                    else 3600))
      | _ \<Rightarrow> 60)"

section \<open>The runner\<close>

text \<open>\<open>u64\<close> subtraction as a release build computes it.\<close>

definition sub_u64 :: "nat \<Rightarrow> nat \<Rightarrow> nat" where
  "sub_u64 a b = (a + 2 ^ 64 - b) mod 2 ^ 64"

text \<open>
  The state of the runner: the clock in milliseconds, the store, and the jobs handed to \<open>spawn\<close> with the second
  their tick began. Handling a job takes \<open>cr_lag\<close> milliseconds besides the jitter it sleeps. The offset of local
  time is \<open>cr_offset\<close>, \<open>None\<close> where the \<open>time\<close> crate cannot determine it.
\<close>

record cron_env =
  cr_io :: cron_io
  cr_offset :: "int option"
  cr_lag :: "string \<Rightarrow> nat"

record runner =
  rn_clock :: nat
  rn_store :: cron_store
  rn_spawned :: "(string \<times> string \<times> nat) list"

definition local_offset :: "cron_env \<Rightarrow> int" where
  "local_offset env = (case cr_offset env of Some k \<Rightarrow> k | None \<Rightarrow> 0)"

definition local_nanos :: "cron_env \<Rightarrow> nat \<Rightarrow> nat option" where
  "local_nanos env clock = map_option (\<lambda>k. nat (int clock + k * 1000) * 1000000) (cr_offset env)"

text \<open>One-shot jobs whose time passed more than two minutes before the start are switched off.\<close>

definition is_missed :: "cron_env \<Rightarrow> nat \<Rightarrow> cron_job \<Rightarrow> bool" where
  "is_missed env now_secs j =
     (trigger j = Once \<and>
      (case ci_datetime (cr_io env) (schedule j) of
         Inl _ \<Rightarrow> False
       | Inr target \<Rightarrow> ((int target - local_offset env) mod 2 ^ 64 + 120) mod 2 ^ 64 < int now_secs))"

definition detect_and_notify_missed :: "cron_env \<Rightarrow> nat \<Rightarrow> cron_store \<Rightarrow> cron_store" where
  "detect_and_notify_missed env now_secs st =
     fold (\<lambda>j s. snd (set_enabled (cr_io env) (job_name j) False s))
       (filter (is_missed env now_secs) (enabled_jobs st)) st"

definition matches_now :: "cron_env \<Rightarrow> nat \<Rightarrow> cron_job \<Rightarrow> bool" where
  "matches_now env clock j =
     (if trigger j = Once then once_matches (cr_io env) (schedule j) (job_name j) (local_nanos env clock)
      else cron_matches (schedule j) (now_local_components (int (clock div 1000)) (local_offset env)))"

definition fired_recently :: "nat \<Rightarrow> cron_job \<Rightarrow> bool" where
  "fired_recently now_secs j =
     (case last_fired_at j of None \<Rightarrow> False | Some t \<Rightarrow> sub_u64 now_secs t < 45)"

definition cooling_down :: "nat \<Rightarrow> cron_job \<Rightarrow> bool" where
  "cooling_down now_secs j =
     (trigger j \<noteq> Once \<and>
      (case last_fired_at j of None \<Rightarrow> False | Some t \<Rightarrow> sub_u64 now_secs t < effective_cooldown j))"

definition fires :: "cron_env \<Rightarrow> nat \<Rightarrow> nat \<Rightarrow> cron_job \<Rightarrow> bool" where
  "fires env now_secs clock j \<longleftrightarrow>
     matches_now env clock j \<and> \<not> fired_recently now_secs j \<and> \<not> cooling_down now_secs j"

definition fire_delay :: "cron_job \<Rightarrow> nat" where
  "fire_delay j =
     (if trigger j = Once then 0
      else within_minute_jitter_ms (job_name j) (estimate_cron_interval_secs (schedule j)))"

definition run_job :: "cron_env \<Rightarrow> nat \<Rightarrow> cron_job \<Rightarrow> runner \<Rightarrow> runner" where
  "run_job env now_secs j r =
     (if fires env now_secs (rn_clock r) j
      then (let st1 = record_fired (cr_io env) (rn_clock r div 1000) (job_name j) (rn_store r);
                st2 = (if trigger j = Once then snd (set_enabled (cr_io env) (job_name j) False st1) else st1)
            in r\<lparr>rn_clock := rn_clock r + fire_delay j + cr_lag env (job_name j), rn_store := st2,
                 rn_spawned := rn_spawned r @ [(job_name j, job_prompt j, now_secs)]\<rparr>)
      else r\<lparr>rn_clock := rn_clock r + cr_lag env (job_name j)\<rparr>)"

definition runner_tick :: "cron_env \<Rightarrow> runner \<Rightarrow> runner" where
  "runner_tick env r =
     (let st = hot_reload (cr_io env) (rn_store r)
      in fold (run_job env (rn_clock r div 1000)) (enabled_jobs st) (r\<lparr>rn_store := st\<rparr>))"

section \<open>The calendar is the Gregorian one\<close>

definition leap_year :: "int \<Rightarrow> bool" where
  "leap_year y \<longleftrightarrow> y mod 4 = 0 \<and> (y mod 100 \<noteq> 0 \<or> y mod 400 = 0)"

definition month_days :: "int \<Rightarrow> int \<Rightarrow> int" where
  "month_days y m = (if m = 2 then (if leap_year y then 29 else 28)
                     else if m \<in> {4, 6, 9, 11} then 30 else 31)"

fun next_day :: "int \<times> int \<times> int \<Rightarrow> int \<times> int \<times> int" where
  "next_day (y, m, d) =
     (if d < month_days y m then (y, m, d + 1) else if m < 12 then (y, m + 1, 1) else (y + 1, 1, 1))"

definition valid_date :: "int \<times> int \<times> int \<Rightarrow> bool" where
  "valid_date t \<longleftrightarrow> (case t of (y, m, d) \<Rightarrow> 1 \<le> m \<and> m \<le> 12 \<and> 1 \<le> d \<and> d \<le> month_days y m)"

definition date_of :: "nat \<Rightarrow> int \<times> int \<times> int" where
  "date_of n = (next_day ^^ n) (1970, 1, 1)"

text \<open>Days before a date, counting years from March.\<close>

definition march_year :: "int \<Rightarrow> int \<Rightarrow> int" where
  "march_year y m = (if m \<le> 2 then y - 1 else y)"

definition march_month :: "int \<Rightarrow> int" where
  "march_month m = (if m \<le> 2 then m + 9 else m - 3)"

definition year_days :: "int \<Rightarrow> int" where
  "year_days y = 365 * y + y div 4 - y div 100 + y div 400"

definition year_day :: "int \<Rightarrow> int \<Rightarrow> int" where
  "year_day mp d = (153 * mp + 2) div 5 + d - 1"

fun day_number :: "int \<times> int \<times> int \<Rightarrow> int" where
  "day_number (y, m, d) = year_days (march_year y m) + year_day (march_month m) d - 719468"

lemma valid_next_day: "valid_date t \<Longrightarrow> valid_date (next_day t)"
  by (cases t) (auto simp: valid_date_def month_days_def)

lemma month_cases:
  "1 \<le> (m::int) \<Longrightarrow> m \<le> 12 \<Longrightarrow>
     m = 1 \<or> m = 2 \<or> m = 3 \<or> m = 4 \<or> m = 5 \<or> m = 6 \<or> m = 7 \<or> m = 8 \<or> m = 9 \<or> m = 10 \<or> m = 11 \<or> m = 12"
  by presburger

lemma div_step: "k > 0 \<Longrightarrow> y div k - (y - 1) div k = (if y mod k = 0 then 1 else 0)" for y k :: int
proof -
  assume k: "k > 0"
  have y: "y = k * (y div k) + y mod k" "0 \<le> y mod k" "y mod k < k" using k by auto
  have "(y - 1) div k = y div k - 1" if "y mod k = 0"
    using y k that by (intro int_div_pos_eq [where r = "k - 1"]) (auto simp: algebra_simps)
  moreover have "(y - 1) div k = y div k" if "y mod k \<noteq> 0"
    using y that by (intro int_div_pos_eq [where r = "y mod k - 1"]) auto
  ultimately show ?thesis by auto
qed

lemma year_days_step: "year_days y - year_days (y - 1) = (if leap_year y then 366 else 365)"
proof -
  have m: "y mod 100 = 0 \<Longrightarrow> y mod 4 = 0" "y mod 400 = 0 \<Longrightarrow> y mod 100 = 0"
    using mod_mod_cancel [of 4 100 y] mod_mod_cancel [of 100 400 y] by simp_all
  have "year_days y - year_days (y - 1) =
      365 + (y div 4 - (y - 1) div 4) - (y div 100 - (y - 1) div 100) + (y div 400 - (y - 1) div 400)"
    unfolding year_days_def right_diff_distrib by linarith
  also have "\<dots> = 365 + (if y mod 4 = 0 then 1 else 0) - (if y mod 100 = 0 then 1 else 0) + (if y mod 400 = 0 then 1 else 0)"
    by (simp only: div_step zero_less_numeral)
  also have "\<dots> = (if leap_year y then 366 else 365)"
  proof -
    have "365 + (if A then 1 else 0) - (if B then 1 else 0) + (if C then 1 else 0) =
        (if A \<and> (\<not> B \<or> C) then 366 else (365::int))" if "B \<longrightarrow> A" "C \<longrightarrow> B" for A B C
      using that by (cases A; cases B; cases C) simp_all
    from this [OF impI impI, OF m] show ?thesis unfolding leap_year_def .
  qed
  finally show ?thesis .
qed

lemma day_number_next:
  assumes "valid_date t"
  shows "day_number (next_day t) = day_number t + 1"
proof -
  obtain y m d where t: "t = (y, m, d)" by (cases t)
  have v: "1 \<le> m" "m \<le> 12" "1 \<le> d" "d \<le> month_days y m" using assms by (auto simp: valid_date_def t)
  show ?thesis
    unfolding t using month_cases [OF v(1,2)] v(3,4) year_days_step [of y]
    by (elim disjE) (auto simp: month_days_def march_year_def march_month_def year_day_def split: if_splits)
qed

lemma date_of_day_number: "valid_date (date_of n) \<and> day_number (date_of n) = int n"
proof (induction n)
  case 0
  show ?case
    by (simp add: date_of_def valid_date_def month_days_def march_year_def march_month_def year_days_def year_day_def)
next
  case (Suc n)
  then show ?case using valid_next_day day_number_next by (simp add: date_of_def)
qed

text \<open>Inside a cycle of 400 years: the year from the day of the cycle.\<close>

lemma leap_position:
  fixes c q r :: int
  assumes "leap_year (100 * c + 4 * q + r + 1)" "0 \<le> c" "c \<le> 3" "0 \<le> q" "q \<le> 24" "0 \<le> r" "r \<le> 3"
  shows "r = 3 \<and> (q = 24 \<longrightarrow> c = 3)"
proof
  show r: "r = 3"
  proof (rule ccontr)
    assume "r \<noteq> 3"
    then have "(100 * c + 4 * q + r + 1) mod 4 = r + 1"
      using assms by (intro int_mod_pos_eq [where q = "25 * c + q"]) auto
    then show False using assms by (simp add: leap_year_def)
  qed
  have "c = 0 \<or> c = 1 \<or> c = 2 \<or> c = 3" using assms by auto
  then show "q = 24 \<longrightarrow> c = 3" using assms(1) r by (auto simp: leap_year_def)
qed

lemma year_of_cycle:
  fixes yoe doy :: int
  assumes "0 \<le> yoe" "yoe < 400" "0 \<le> doy" "doy \<le> 365" "doy = 365 \<Longrightarrow> leap_year (yoe + 1)"
  defines "doe \<equiv> 365 * yoe + yoe div 4 - yoe div 100 + doy"
  shows "(doe - doe div 1460 + doe div 36524 - doe div 146096) div 365 = yoe \<and> 0 \<le> doe \<and> doe < 146097"
proof -
  define c where "c = yoe div 100"
  define q where "q = yoe mod 100 div 4"
  define r where "r = yoe mod 100 mod 4"
  have yoe: "yoe = 100 * c + 4 * q + r"
    using mult_div_mod_eq [of 100 yoe] mult_div_mod_eq [of 4 "yoe mod 100"] unfolding c_def q_def r_def by linarith
  have b: "0 \<le> c" "0 \<le> q" "0 \<le> r" "r \<le> 3" "q \<le> 24" "c \<le> 3"
    using assms(1,2) pos_mod_bound [of 4 "yoe mod 100"] pos_mod_bound [of 100 yoe]
    by (auto simp: c_def q_def r_def)
  have y4: "yoe div 4 = 25 * c + q" using yoe b by (intro int_div_pos_eq [where r = r]) auto
  have doe: "doe = 36524 * c + 1461 * q + 365 * r + doy"
    using yoe unfolding doe_def y4 c_def [symmetric] by linarith
  have leap: "r = 3 \<and> (q = 24 \<longrightarrow> c = 3)" if "doy = 365"
    using leap_position [of c q r] b assms(5) [OF that] by (simp add: yoe)
  have bound: "0 \<le> doe" "doe < 146097" using doe b assms(3,4) leap by auto
  define e where "e = (24 * c + q + 365 * r + doy) div 1460"
  have d1: "doe div 1460 = 25 * c + q + e"
  proof -
    have "doe = 1460 * (25 * c + q) + (24 * c + q + 365 * r + doy)" by (simp add: doe)
    then show ?thesis unfolding e_def by simp
  qed
  have e: "0 \<le> e" "e \<le> 1" using b assms(3,4) by (auto simp: e_def)
  have e1: "1460 \<le> 24 * c + q + 365 * r + doy \<longleftrightarrow> e = 1" using b assms(3,4) by (auto simp: e_def)
  have d2: "doe div 36524 - doe div 146096 = c"
  proof (cases "doe = 146096")
    case True
    then have "c = 3" using doe b assms(3,4) leap by auto
    then show ?thesis using True by simp
  next
    case False
    then have "\<not> (q = 24 \<and> doy = 365)" using doe leap by auto
    then have "1461 * q + 365 * r + doy < 36524" using b assms(3,4) by (cases "q = 24") auto
    then have "doe div 36524 = c" using doe b assms(3) by (intro int_div_pos_eq) auto
    moreover have "doe div 146096 = 0" using False bound by simp
    ultimately show ?thesis by simp
  qed
  have "doe - doe div 1460 + doe div 36524 - doe div 146096 = 365 * yoe + (doy - e)"
    using d1 d2 doe yoe by simp
  moreover have "0 \<le> doy - e" "doy - e < 365" using b assms(3,4) leap e e1 by (cases "doy = 365"; auto)+
  ultimately show ?thesis using bound by (simp add: int_div_pos_eq)
qed

text \<open>Inside a year that begins in March: the month and the day from the day of the year.\<close>

lemma month_of_year_day:
  assumes "0 \<le> (mp::int)" "mp \<le> 11" "1 \<le> d" "d \<le> 31" "mp \<in> {1, 3, 6, 8, 11} \<Longrightarrow> d \<le> 30"
  shows "(5 * year_day mp d + 2) div 153 = mp" "year_day mp d - (153 * mp + 2) div 5 + 1 = d"
proof -
  have "mp = 0 \<or> mp = 1 \<or> mp = 2 \<or> mp = 3 \<or> mp = 4 \<or> mp = 5 \<or> mp = 6 \<or> mp = 7 \<or> mp = 8 \<or> mp = 9 \<or> mp = 10 \<or> mp = 11"
    using assms(1,2) by presburger
  then show "(5 * year_day mp d + 2) div 153 = mp"
    using assms(3-5)
    by (intro int_div_pos_eq [where r = "5 * year_day mp d + 2 - 153 * mp"]) (elim disjE; simp add: year_day_def)+
qed (simp add: year_day_def)

lemma leap_year_period: "leap_year (400 * k + x) = leap_year x"
proof -
  have "(400 * k + x) mod 4 = x mod 4" "(400 * k + x) mod 100 = x mod 100" "(400 * k + x) mod 400 = x mod 400"
    using mod_mult_self4 [of 4 "100 * k" x] mod_mult_self4 [of 100 "4 * k" x] by simp_all
  then show ?thesis by (simp add: leap_year_def)
qed

lemma year_days_period: "year_days (400 * k + x) = 146097 * k + (365 * x + x div 4 - x div 100 + x div 400)"
proof -
  have "(400 * k + x) div 4 = 100 * k + x div 4" "(400 * k + x) div 100 = 4 * k + x div 100"
    "(400 * k + x) div 400 = k + x div 400"
    using div_mult_self4 [of 4 "100 * k" x] div_mult_self4 [of 100 "4 * k" x] by simp_all
  then show ?thesis by (simp add: year_days_def)
qed

lemma civil_of_day_number:
  assumes "valid_date t" "day_number t \<ge> - 719468"
  shows "civil_from_days (day_number t) = t"
proof -
  obtain y m d where t: "t = (y, m, d)" by (cases t)
  have v: "1 \<le> m" "m \<le> 12" "1 \<le> d" "d \<le> month_days y m" using assms(1) by (auto simp: valid_date_def t)
  define y' where "y' = march_year y m"
  define mp where "mp = march_month m"
  define doy where "doy = year_day mp d"
  define era where "era = y' div 400"
  define yoe where "yoe = y' mod 400"
  have mp: "0 \<le> mp" "mp \<le> 11" "mp \<in> {1, 3, 6, 8, 11} \<Longrightarrow> d \<le> 30" "d \<le> 31" "mp = 11 \<Longrightarrow> m = 2"
    using v by (auto simp: mp_def march_month_def month_days_def split: if_splits)
  have doy: "0 \<le> doy" "doy \<le> 365" "doy = 365 \<Longrightarrow> m = 2 \<and> leap_year y"
    using month_cases [OF v(1,2)] v
    by (auto simp: doy_def mp_def march_month_def year_day_def month_days_def split: if_splits)
  have y': "y' = 400 * era + yoe" "0 \<le> yoe" "yoe < 400" by (simp_all add: era_def yoe_def)
  have leap: "leap_year (yoe + 1)" if "doy = 365"
    using doy(3) [OF that] leap_year_period [of era "yoe + 1"] y'(1) by (simp add: y'_def march_year_def algebra_simps)
  define doe where "doe = 365 * yoe + yoe div 4 - yoe div 100 + doy"
  note cycle = year_of_cycle [OF y'(2,3) doy(1,2) leap, folded doe_def]
  define z where "z = day_number t + 719468"
  have z: "z = 146097 * era + doe"
    unfolding z_def t day_number.simps y'_def [symmetric] mp_def [symmetric] doy_def [symmetric] y'(1) year_days_period doe_def
    using y'(2,3) by simp
  have era: "z div 146097 = era" using z cycle by (intro int_div_pos_eq) auto
  have "0 \<le> z" using assms(2) by (simp add: z_def)
  moreover have "z - era * 146097 = doe" "doe - (365 * yoe + yoe div 4 - yoe div 100) = doy" "yoe + era * 400 = y'"
    using z y'(1) by (simp_all add: doe_def)
  ultimately have "civil_from_days (day_number t) =
      (let month = (if mp < 10 then mp + 3 else mp - 9) in (if month \<le> 2 then y' + 1 else y', month, d))"
    unfolding civil_from_days_def Let_def z_def [symmetric]
    by (simp only: era if_True cycle [THEN conjunct1] month_of_year_day [OF mp(1,2) v(3) mp(4,3), folded doy_def])
  also have "\<dots> = t"
    using v by (auto simp: t mp_def march_month_def y'_def march_year_def)
  finally show ?thesis .
qed

text \<open>C31: The calendar the runner matches schedules against is the Gregorian calendar: for every number of
  days since 1970-01-01 the computed year, month and day are those reached by counting day by day.\<close>

theorem civil_from_days_exact: "civil_from_days (int n) = date_of n"
  using civil_of_day_number [of "date_of n"] date_of_day_number [of n] by simp

end
