(* ===== verification/CronFire.thy ===== *)
theory CronFire
  imports CronRun
begin

text \<open>
  What the cron runner promises. Firings of a job keep their distance over any run of ticks, the jitter stays within
  its bounds, and an accepted daily schedule fires every day; with the runs that show where it does not keep its
  word: accepted schedules that never fire, one-shot jobs disarmed by an update, and jobs missed while another
  one sleeps.
\<close>

section \<open>No job fires too often\<close>

text \<open>A run of the runner: the environment of each tick and how long it waits before it.\<close>

definition run_tick :: "cron_env \<times> nat \<Rightarrow> runner \<Rightarrow> runner" where
  "run_tick x r = runner_tick (fst x) (r\<lparr>rn_clock := rn_clock r + snd x\<rparr>)"

lemma sub_u64_le: "b \<le> a \<Longrightarrow> a < 2 ^ 64 \<Longrightarrow> sub_u64 a b = a - b"
proof -
  assume "b \<le> a" "a < 2 ^ 64"
  have "a + 2 ^ 64 - b = (a - b) + 2 ^ 64" using \<open>b \<le> a\<close> by (rule diff_add_assoc2)
  moreover have "a - b < 2 ^ 64" using \<open>a < 2 ^ 64\<close> by (rule le_less_trans [OF diff_le_self])
  ultimately show ?thesis by (simp only: sub_u64_def mod_add_self2 mod_less)
qed

lemma find_record_fired:
  "find_job m (jobs (record_fired io t n st)) =
     (if m = n then map_option (\<lambda>j. j\<lparr>last_fired_at := Some t\<rparr>) (find_job n (jobs st)) else find_job m (jobs st))"
  by (cases "find_job n (jobs st)")
     (auto simp: record_fired_def Let_def find_job_set_job find_job_SomeD)

lemma find_set_enabled:
  "find_job m (jobs (snd (set_enabled io n b st))) =
     (if m = n then map_option (\<lambda>j. j\<lparr>enabled := b\<rparr>) (find_job n (jobs st)) else find_job m (jobs st))"
  by (cases "find_job n (jobs st)")
     (auto simp: set_enabled_def Let_def find_job_set_job find_job_SomeD)

lemma find_run_job:
  "find_job m (jobs (rn_store (run_job env now j r))) =
     (if m = job_name j \<and> fires env now (rn_clock r) j
      then map_option (\<lambda>x. x\<lparr>last_fired_at := Some (rn_clock r div 1000),
             enabled := (if trigger j = Once then False else enabled x)\<rparr>) (find_job m (jobs (rn_store r)))
      else find_job m (jobs (rn_store r)))"
  by (auto simp: run_job_def Let_def find_set_enabled find_record_fired option.map_comp comp_def)

lemma reaches_run_job:
  assumes "cron_reaches io (rn_store r)" "healthy (cr_io env)" "ci_parse (cr_io env) = ci_parse io"
  shows "cron_reaches io (rn_store (run_job env now j r))"
proof -
  have f: "cron_reaches io (record_fired (cr_io env) t n st)" if "cron_reaches io st" for t n st
    using cron_reaches.used [OF that assms(2,3), of "FiredJob t n"] by simp
  have "cron_reaches io (snd (set_enabled (cr_io env) n b st))" if "cron_reaches io st" for n b st
    using cron_reaches.used [OF that assms(2,3), of "EnableJob n b"] by simp
  then show ?thesis using f assms(1) by (simp add: run_job_def Let_def)
qed

text \<open>
  The bookkeeping of a run. The trigger and the cooldown of each job are fixed (\<open>once\<close>, \<open>cd\<close>); every firing is on
  record; two firings of a job keep the distance. Records are never ahead of the clock.
\<close>

definition job_as :: "(string \<Rightarrow> bool) \<Rightarrow> (string \<Rightarrow> nat) \<Rightarrow> cron_job \<Rightarrow> bool" where
  "job_as once cd j \<longleftrightarrow> (trigger j = Once) = once (job_name j) \<and> effective_cooldown j = cd (job_name j)"

definition recorded :: "cron_store \<Rightarrow> string \<times> string \<times> nat \<Rightarrow> bool" where
  "recorded st x \<longleftrightarrow>
     (\<exists>j l. find_job (fst x) (jobs st) = Some j \<and> last_fired_at j = Some l \<and> snd (snd x) \<le> l \<and>
       (trigger j = Once \<longrightarrow> \<not> enabled j))"

definition apart :: "(string \<Rightarrow> bool) \<Rightarrow> (string \<Rightarrow> nat) \<Rightarrow> string \<times> string \<times> nat \<Rightarrow> string \<times> string \<times> nat \<Rightarrow> bool" where
  "apart once cd x y \<longleftrightarrow>
     (fst x = fst y \<longrightarrow> \<not> once (fst x) \<and> snd (snd x) + cd (fst x) \<le> snd (snd y) \<and> snd (snd x) + 45 \<le> snd (snd y))"

definition run_ok :: "cron_io \<Rightarrow> (string \<Rightarrow> bool) \<Rightarrow> (string \<Rightarrow> nat) \<Rightarrow> runner \<Rightarrow> bool" where
  "run_ok io once cd r \<longleftrightarrow>
     cron_reaches io (rn_store r) \<and>
     (\<forall>n j. find_job n (jobs (rn_store r)) = Some j \<longrightarrow> job_as once cd j \<and>
        (\<forall>l. last_fired_at j = Some l \<longrightarrow> l \<le> rn_clock r div 1000)) \<and>
     (\<forall>x \<in> set (rn_spawned r). recorded (rn_store r) x) \<and>
     sorted_wrt (apart once cd) (rn_spawned r)"

lemma run_ok_lookup:
  assumes "run_ok io once cd r" "cron_reaches io st" "\<And>n. find_job n (jobs st) = find_job n (jobs (rn_store r))"
    and "rn_clock r \<le> c"
  shows "run_ok io once cd (r\<lparr>rn_store := st, rn_clock := c\<rparr>)"
proof -
  have "rn_clock r div 1000 \<le> c div 1000" using assms(4) by (rule div_le_mono)
  then show ?thesis using assms(1-3) unfolding run_ok_def recorded_def by (auto, meson le_trans)
qed

lemma run_ok_reload:
  assumes "run_ok io once cd r" "healthy io" "healthy i" "ci_parse i = ci_parse io"
  shows "run_ok io once cd (r\<lparr>rn_store := hot_reload i (rn_store r)\<rparr>)"
proof -
  have c: "cron_reaches io (rn_store r)" using assms(1) by (simp add: run_ok_def)
  then have "cron_reaches io (hot_reload i (rn_store r))"
    using cron_reaches.used [OF c assms(3,4), of Reload] by simp
  moreover have "synced i (rn_store r)"
    using reaches_ok [OF c assms(2)] synced_same_parse [of i io] assms by simp
  ultimately show ?thesis
    using run_ok_lookup [OF assms(1), of "hot_reload i (rn_store r)" "rn_clock r"] reload_keeps_jobs [OF assms(3)]
    by simp
qed

lemma run_job_ok:
  assumes ok: "run_ok io once cd r" and env: "healthy (cr_io env)" "ci_parse (cr_io env) = ci_parse io"
    and j: "find_job (job_name j) (jobs (rn_store r)) = Some j" "enabled j"
    and now: "\<And>l. last_fired_at j = Some l \<Longrightarrow> l \<le> now" "now \<le> rn_clock r div 1000" "now < 2 ^ 64"
  shows "run_ok io once cd (run_job env now j r)"
proof (cases "fires env now (rn_clock r) j")
  case False
  then show ?thesis
    using run_ok_lookup [OF ok, of "rn_store r" "rn_clock r + cr_lag env (job_name j)"] ok
    by (simp add: run_job_def run_ok_def)
next
  case True
  let ?r = "run_job env now j r" and ?x = "(job_name j, job_prompt j, now)"
  have sp: "rn_spawned ?r = rn_spawned r @ [?x]" "rn_clock r \<le> rn_clock ?r"
    using True by (simp_all add: run_job_def Let_def)
  have J: "job_as once cd j" using ok j(1) by (simp add: run_ok_def)
  have "apart once cd x ?x" if x: "x \<in> set (rn_spawned r)" for x
  proof (cases "fst x = job_name j")
    case same: True
    have "recorded (rn_store r) x" using ok x by (simp add: run_ok_def)
    then obtain l where l: "last_fired_at j = Some l" "snd (snd x) \<le> l" "trigger j \<noteq> Once"
      using j same by (auto simp: recorded_def)
    have "sub_u64 now l = now - l" using now l(1) by (simp add: sub_u64_le)
    then have "l + effective_cooldown j \<le> now" "l + 45 \<le> now"
      using True l now(1) [OF l(1)] by (auto simp: fires_def fired_recently_def cooling_down_def)
    then show ?thesis using same l J by (auto simp: apart_def job_as_def)
  qed (simp add: apart_def)
  then have "sorted_wrt (apart once cd) (rn_spawned ?r)"
    using ok sp(1) by (auto simp: run_ok_def sorted_wrt_append)
  moreover have "recorded (rn_store ?r) x" if "x \<in> set (rn_spawned ?r)" for x
  proof (cases "fst x = job_name j")
    case same: True
    have "snd (snd x) \<le> rn_clock r div 1000"
    proof (cases "x = ?x")
      case False
      then have "recorded (rn_store r) x" using that sp(1) ok by (auto simp: run_ok_def)
      then show ?thesis using ok same j(1) by (fastforce simp: recorded_def run_ok_def)
    qed (use now in simp)
    then show ?thesis using same True j(1) by (auto simp: recorded_def find_run_job)
  next
    case False
    then have "recorded (rn_store r) x" using that sp(1) ok by (auto simp: run_ok_def)
    then show ?thesis using False by (simp add: recorded_def find_run_job)
  qed
  moreover have "job_as once cd k \<and> (\<forall>l. last_fired_at k = Some l \<longrightarrow> l \<le> rn_clock ?r div 1000)"
    if "find_job n (jobs (rn_store ?r)) = Some k" for n k
  proof -
    have c: "rn_clock r div 1000 \<le> rn_clock ?r div 1000" using sp(2) by (rule div_le_mono)
    show ?thesis
    proof (cases "n = job_name j")
      case same: True
      then have "k = j\<lparr>last_fired_at := Some (rn_clock r div 1000), enabled := (if trigger j = Once then False else enabled j)\<rparr>"
        using that True j(1) by (auto simp: find_run_job)
      then show ?thesis using J c by (simp add: job_as_def effective_cooldown_def)
    next
      case False
      then have "find_job n (jobs (rn_store r)) = Some k" using that by (simp add: find_run_job)
      then show ?thesis using ok c unfolding run_ok_def by (meson order_trans)
    qed
  qed
  ultimately show ?thesis
    using reaches_run_job [OF _ env] ok by (simp add: run_ok_def)
qed

lemma run_jobs_ok:
  assumes "run_ok io once cd r" "healthy (cr_io env)" "ci_parse (cr_io env) = ci_parse io"
    and "distinct (map job_name js)"
    and "\<And>j. j \<in> set js \<Longrightarrow> find_job (job_name j) (jobs (rn_store r)) = Some j \<and> enabled j \<and>
      (\<forall>l. last_fired_at j = Some l \<longrightarrow> l \<le> now)"
    and "now \<le> rn_clock r div 1000" "now < 2 ^ 64"
  shows "run_ok io once cd (fold (run_job env now) js r)"
  using assms(1,4-6)
proof (induction js arbitrary: r)
  case (Cons j js)
  have "run_ok io once cd (run_job env now j r)"
    using Cons.prems assms(2,3,7) by (intro run_job_ok) auto
  moreover have "find_job (job_name k) (jobs (rn_store (run_job env now j r))) = find_job (job_name k) (jobs (rn_store r))"
    if "k \<in> set js" for k
  proof -
    have "job_name k \<noteq> job_name j" using Cons.prems(2) that by (auto simp: image_iff)
    then show ?thesis by (simp add: find_run_job)
  qed
  moreover have "rn_clock r \<le> rn_clock (run_job env now j r)" by (simp add: run_job_def Let_def)
  then have "now \<le> rn_clock (run_job env now j r) div 1000"
    using Cons.prems(4) div_le_mono order_trans by blast
  moreover have "distinct (map job_name js)" using Cons.prems(2) by simp
  ultimately have "run_ok io once cd (fold (run_job env now) js (run_job env now j r))"
    using Cons.prems(3) by (intro Cons.IH) (simp_all, blast)
  then show ?case by simp
qed simp

lemma run_tick_ok:
  assumes "run_ok io once cd r" "healthy io" "healthy (cr_io env)" "ci_parse (cr_io env) = ci_parse io"
    and "rn_clock r div 1000 < 2 ^ 64"
  shows "run_ok io once cd (runner_tick env r)"
proof -
  let ?r = "r\<lparr>rn_store := hot_reload (cr_io env) (rn_store r)\<rparr>"
  have ok: "run_ok io once cd ?r" using run_ok_reload assms by blast
  then have "cron_reaches io (rn_store ?r)" by (simp add: run_ok_def)
  then have d: "distinct (map job_name (jobs (rn_store ?r)))" using reaches_ok assms(2) by (auto simp: synced_def)
  have "find_job (job_name j) (jobs (rn_store ?r)) = Some j \<and> enabled j \<and>
      (\<forall>l. last_fired_at j = Some l \<longrightarrow> l \<le> rn_clock r div 1000)" if "j \<in> set (enabled_jobs (rn_store ?r))" for j
  proof -
    have "find_job (job_name j) (jobs (rn_store ?r)) = Some j" "enabled j"
      using that find_job_mem [OF d] by (auto simp: enabled_jobs_def)
    then show ?thesis using ok by (auto simp: run_ok_def)
  qed
  moreover have "distinct (map job_name (enabled_jobs (rn_store ?r)))"
    unfolding enabled_jobs_def using d by (rule distinct_names_filter)
  moreover have "rn_clock r div 1000 \<le> rn_clock ?r div 1000" by simp
  ultimately have "run_ok io once cd (fold (run_job env (rn_clock r div 1000)) (enabled_jobs (rn_store ?r)) ?r)"
    using assms(5) by (intro run_jobs_ok [OF ok assms(3,4)])
  then show ?thesis by (simp add: runner_tick_def Let_def)
qed

lemma run_jobs_clock: "rn_clock r \<le> rn_clock (fold (run_job env now) js r)"
proof (induction js arbitrary: r)
  case (Cons j js)
  have "rn_clock r \<le> rn_clock (run_job env now j r)" by (simp add: run_job_def Let_def)
  then show ?case using Cons.IH [of "run_job env now j r"] by simp
qed simp

lemma run_tick_clock: "rn_clock r + snd x \<le> rn_clock (run_tick x r)"
proof -
  let ?r = "r\<lparr>rn_clock := rn_clock r + snd x, rn_store := hot_reload (cr_io (fst x)) (rn_store r)\<rparr>"
  have "rn_clock ?r \<le> rn_clock (run_tick x r)"
    unfolding run_tick_def runner_tick_def Let_def using run_jobs_clock [of ?r] by simp
  then show ?thesis by simp
qed

lemma run_clock: "rn_clock r \<le> rn_clock (fold run_tick xs r)"
proof (induction xs arbitrary: r)
  case (Cons x xs)
  have "rn_clock r \<le> rn_clock (run_tick x r)" using run_tick_clock [of r x] by simp
  then show ?case using Cons.IH [of "run_tick x r"] by simp
qed simp

lemma run_ticks_ok:
  assumes "run_ok io once cd r" "healthy io"
    and "\<forall>x \<in> set xs. healthy (cr_io (fst x)) \<and> ci_parse (cr_io (fst x)) = ci_parse io"
    and "rn_clock (fold run_tick xs r) div 1000 < 2 ^ 64"
  shows "run_ok io once cd (fold run_tick xs r)"
  using assms(1,3,4)
proof (induction xs arbitrary: r)
  case (Cons x xs)
  let ?r = "r\<lparr>rn_clock := rn_clock r + snd x\<rparr>"
  have "run_ok io once cd ?r"
    using run_ok_lookup [OF Cons.prems(1), of "rn_store r" "rn_clock r + snd x"] Cons.prems(1) by (simp add: run_ok_def)
  moreover have "rn_clock ?r div 1000 < 2 ^ 64"
  proof -
    have "rn_clock ?r \<le> rn_clock (fold run_tick (x # xs) r)"
      using run_tick_clock [of r x] run_clock [of "run_tick x r" xs] by simp
    then show ?thesis using Cons.prems(3) div_le_mono le_less_trans by blast
  qed
  ultimately have "run_ok io once cd (run_tick x r)"
    using Cons.prems(2) assms(2) unfolding run_tick_def by (intro run_tick_ok) auto
  then show ?case using Cons.IH Cons.prems by simp
qed simp

text \<open>C30: However the ticks fall and however long jobs take, a one-shot job never fires twice in a run, and two
  firings of a recurring job are at least its cooldown and at least 45 seconds apart. The clock has to be ahead of
  the recorded firings: a record from the future wraps around and defeats both guards.\<close>

theorem cron_jobs_spaced:
  assumes "healthy io" "cron_reaches io (rn_store r)" "rn_spawned r = []"
    and "\<forall>j \<in> set (jobs (rn_store r)). \<forall>l. last_fired_at j = Some l \<longrightarrow> l \<le> rn_clock r div 1000"
    and "\<forall>x \<in> set ticks. healthy (cr_io (fst x)) \<and> ci_parse (cr_io (fst x)) = ci_parse io"
    and "rn_clock (fold run_tick ticks r) div 1000 < 2 ^ 64" "j \<in> set (jobs (rn_store r))"
    and "rn_spawned (fold run_tick ticks r) = xs @ (job_name j, p, t) # ys @ (job_name j, p', t') # zs"
  shows "trigger j \<noteq> Once \<and> t + effective_cooldown j \<le> t' \<and> t + 45 \<le> t'"
proof -
  let ?find = "\<lambda>n. find_job n (jobs (rn_store r))"
  let ?once = "\<lambda>n. case ?find n of Some j \<Rightarrow> trigger j = Once | None \<Rightarrow> False"
  let ?cd = "\<lambda>n. case ?find n of Some j \<Rightarrow> effective_cooldown j | None \<Rightarrow> 0"
  have "run_ok io ?once ?cd r"
    using assms(2-4) by (auto simp: run_ok_def job_as_def find_job_SomeD)
  then have "run_ok io ?once ?cd (fold run_tick ticks r)" using assms(1,5,6) by (intro run_ticks_ok)
  then have "apart ?once ?cd (job_name j, p, t) (job_name j, p', t')"
    unfolding run_ok_def assms(8) by (simp add: sorted_wrt_append)
  moreover have "?find (job_name j) = Some j"
    using reaches_ok [OF assms(2,1)] assms(7) find_job_mem by (auto simp: synced_def)
  ultimately show ?thesis by (simp add: apart_def)
qed

section \<open>Bounds on the jitter\<close>

lemma bit_length_lower: "n \<noteq> 0 \<Longrightarrow> 2 ^ (bit_length n - 1) \<le> n"
proof (induction n rule: bit_length.induct)
  case (1 n)
  show ?case
  proof (cases "n div 2 = 0")
    case True
    then have "bit_length n = 1" using 1 by (simp add: bit_length.simps [of n] bit_length.simps [of 0])
    then show ?thesis using 1 by simp
  next
    case False
    then have "2 ^ (bit_length (n div 2) - 1) \<le> n div 2" using 1 by simp
    moreover have "bit_length (n div 2) = Suc (bit_length (n div 2) - 1)"
      using False by (simp add: bit_length.simps [of "n div 2"])
    moreover have "bit_length n = Suc (bit_length (n div 2))" using 1 by (simp add: bit_length.simps [of n])
    ultimately have "2 ^ (bit_length n - 1) \<le> 2 * (n div 2)" by (metis diff_Suc_1 mult_le_mono2 power_Suc)
    then show ?thesis by (simp add: order_trans)
  qed
qed

lemma round_shift_le: "2 * round_shift k n \<le> 2 * n + 2 ^ k"
proof -
  let ?q = "n div 2 ^ k" and ?r = "n mod 2 ^ k"
  have n: "n = ?q * 2 ^ k + ?r" by (rule div_mult_mod_eq [symmetric])
  have "round_shift k n = ?q * 2 ^ k \<or> (round_shift k n = ?q * 2 ^ k + 2 ^ k \<and> 2 ^ k \<le> 2 * ?r)"
    unfolding round_shift_def Let_def by (auto simp: distrib_right)
  then show ?thesis using n by (elim disjE) linarith+
qed

lemma round_f64_le: "round_f64 n * 2 ^ 53 \<le> n * (2 ^ 53 + 1)"
proof (cases "bit_length n \<le> 53")
  case False
  let ?k = "bit_length n - 53"
  have "n \<noteq> 0" using False bit_length.simps [of 0] by (metis zero_le)
  then have "2 ^ (?k + 52) \<le> n" using bit_length_lower [of n] False by simp
  then have b: "2 ^ ?k * 2 ^ 52 \<le> n" by (simp add: power_add)
  have "2 * round_f64 n \<le> 2 * n + 2 ^ ?k" using False round_shift_le by (simp add: round_f64_def)
  then have "2 * round_f64 n * 2 ^ 52 \<le> (2 * n + 2 ^ ?k) * 2 ^ 52" by (rule mult_le_mono1)
  also have "\<dots> = 2 * n * 2 ^ 52 + 2 ^ ?k * 2 ^ 52" by (simp only: distrib_right)
  also have "\<dots> \<le> 2 * n * 2 ^ 52 + n" using b by (rule add_left_mono)
  finally show ?thesis by simp
qed (simp add: round_f64_def)

lemma fnv1a_64_less: "fnv1a_64 name < 2 ^ 64"
  unfolding fnv1a_64_def by (rule order_less_le_trans [OF unsigned_less]) simp

lemma jitter_frac_le: "jitter_frac name * 2 ^ 53 \<le> 2 ^ 64 * (2 ^ 53 + 1)"
  unfolding jitter_frac_def
  by (rule order_trans [OF round_f64_le]) (rule mult_le_mono1, rule less_imp_le, rule fnv1a_64_less)

lemma round_product_le:
  assumes "a * 2 ^ 53 \<le> x" "b * 2 ^ 53 \<le> y"
  shows "round_f64 (a * b) * 2 ^ 53 * 2 ^ 53 * 2 ^ 53 \<le> x * y * (2 ^ 53 + 1)"
proof -
  have "round_f64 (a * b) * 2 ^ 53 * (2 ^ 53 * 2 ^ 53) \<le> a * b * (2 ^ 53 + 1) * (2 ^ 53 * 2 ^ 53)"
    by (rule mult_le_mono1) (rule round_f64_le)
  also have "\<dots> = (a * 2 ^ 53) * (b * 2 ^ 53) * (2 ^ 53 + 1)" by (simp only: ac_simps)
  also have "\<dots> \<le> x * y * (2 ^ 53 + 1)" using assms by (intro mult_le_mono) simp_all
  finally show ?thesis by (simp only: ac_simps)
qed

lemma oneshot_le: "oneshot_jitter name minute \<le> ONESHOT_MAX_MS"
proof -
  have "round_f64 (jitter_frac name * ONESHOT_MAX_MS) * 2 ^ 53 * 2 ^ 53 * 2 ^ 53 \<le>
      2 ^ 64 * (2 ^ 53 + 1) * (ONESHOT_MAX_MS * 2 ^ 53) * (2 ^ 53 + 1)"
    by (rule round_product_le [OF jitter_frac_le]) simp
  then have "round_f64 (jitter_frac name * ONESHOT_MAX_MS) div 2 ^ 64 \<le> 90000"
    by (simp add: ONESHOT_MAX_MS_def)
  then show ?thesis by (simp add: oneshot_jitter_def ONESHOT_MAX_MS_def)
qed

lemma recurring_le:
  assumes "i \<le> 9000000"
  shows "round_f64 (round_f64 (jitter_frac name * RECURRING_FRAC) * round_f64 i) div 2 ^ 119 \<le> i div 10 + 1"
proof -
  let ?A = "round_f64 (jitter_frac name * RECURRING_FRAC)" and ?I = "round_f64 i"
  have "?A * 2 ^ 53 * 2 ^ 53 * 2 ^ 53 \<le> 2 ^ 64 * (2 ^ 53 + 1) * (RECURRING_FRAC * 2 ^ 53) * (2 ^ 53 + 1)"
    by (rule round_product_le [OF jitter_frac_le]) simp
  then have A: "?A * 2 ^ 53 \<le> 598631070650738001449728780595088393420771621339136"
    by (simp add: RECURRING_FRAC_def)
  show ?thesis using round_product_le [OF A round_f64_le [of i]] assms by simp
qed

text \<open>The jitter of a recurring job is at most fifteen minutes and at most a tenth of its interval, up to the
  rounding of one millisecond; a one-shot job fires at most ninety seconds early.\<close>

theorem jitter_bounds:
  "recurring_jitter name interval_ms \<le> RECURRING_CAP_MS \<and>
   recurring_jitter name interval_ms \<le> interval_ms div 10 + 1 \<and>
   oneshot_jitter name minute \<le> ONESHOT_MAX_MS"
proof (intro conjI oneshot_le)
  show cap: "recurring_jitter name interval_ms \<le> RECURRING_CAP_MS"
    by (simp add: recurring_jitter_def Let_def)
  show "recurring_jitter name interval_ms \<le> interval_ms div 10 + 1"
  proof (cases "interval_ms \<le> 9000000")
    case True
    then show ?thesis using recurring_le [of interval_ms name] unfolding recurring_jitter_def Let_def by linarith
  next
    case False
    then have "900000 \<le> interval_ms div 10" by simp
    then show ?thesis using cap by (simp add: RECURRING_CAP_MS_def)
  qed
qed

text \<open>The fraction is said to be below one; the largest hashes round up to it.\<close>

lemma bit_length_eq: "2 ^ k \<le> n \<Longrightarrow> n < 2 ^ Suc k \<Longrightarrow> bit_length n = Suc k"
proof (induction k arbitrary: n)
  case 0
  then have "n = 1" by simp
  then show ?case by (simp add: bit_length.simps)
next
  case (Suc k)
  then have "bit_length (n div 2) = Suc k" by simp
  then show ?case using Suc.prems by (subst bit_length.simps) auto
qed

lemma largest_hash_rounds_to_one: "round_f64 (2 ^ 64 - 1) = 2 ^ 64"
proof -
  have "bit_length (2 ^ 64 - 1) = 64" using bit_length_eq [of 63 "2 ^ 64 - 1"] by simp
  then show ?thesis by (simp add: round_f64_def round_shift_def)
qed

section \<open>Schedules that fire, and schedules that never do\<close>

lemma accepted_field_matches:
  "validate_field (0, hi, nm) f = Inr u \<Longrightarrow> \<exists>v \<le> hi. field_matches f v"
  by (auto simp: validate_field_def field_matches_def split: if_splits option.splits)

lemma components_at:
  assumes "secs < 86400" "day < 2 ^ 40"
  shows "now_local_components (int (day * 86400 + secs) - off) off =
    (case date_of day of (_, month, d) \<Rightarrow> [secs mod 3600 div 60, secs div 3600, nat d, nat month, (day + 4) mod 7])"
proof -
  have "day * 86400 + secs < 2 ^ 64" using assms by simp
  then have l: "int (day * 86400 + secs) mod 2 ^ 64 = int (day * 86400 + secs)" by simp
  have q: "int (day * 86400 + secs) div 86400 = int day" "int (day * 86400 + secs) mod 86400 = int secs"
    using assms(1) by (simp_all flip: zdiv_int zmod_int)
  have n: "nat (int secs mod 3600 div 60) = secs mod 3600 div 60" "nat (int secs div 3600) = secs div 3600"
    "nat ((int day + 4) mod 7) = (day + 4) mod 7"
    by (simp_all add: nat_div_distrib nat_mod_distrib nat_add_distrib)
  obtain y m d where c: "date_of day = (y, m, d)" by (cases "date_of day")
  then have civ: "civil_from_days (int day) = (y, m, d)" using civil_from_days_exact [of day] by simp
  show ?thesis
    by (simp only: now_local_components_def Let_def diff_add_cancel l q civ c prod.case list.map n)
qed

text \<open>C34: An accepted schedule that leaves day, month and weekday open matches at some second of every day,
  whatever the offset of local time.\<close>

theorem cron_daily_schedule_fires:
  assumes "validate_cron_schedule s = Inr u" "split_whitespace s = [mi, ho, ''*'', ''*'', ''*'']" "day < 2 ^ 40"
  shows "\<exists>secs < 86400. cron_matches s (now_local_components (int (day * 86400 + secs) - off) off)"
proof -
  have "validate_field (0, 59, ''minute'') mi = Inr ()" "validate_field (0, 23, ''hour'') ho = Inr ()"
    using assms(1,2) by (auto simp: validate_cron_schedule_def cron_ranges_def Let_def split: sum.splits)
  then obtain m h where mh: "m \<le> 59" "field_matches mi m" "h \<le> 23" "field_matches ho h"
    using accepted_field_matches by metis
  let ?secs = "h * 3600 + m * 60"
  have "?secs < 86400" "?secs mod 3600 div 60 = m" "?secs div 3600 = h" using mh by simp_all
  moreover have "field_matches ''*'' v" for v by (simp add: field_matches_def)
  ultimately have "cron_matches s (now_local_components (int (day * 86400 + ?secs) - off) off)"
    using components_at [OF _ assms(3), of ?secs off] mh assms(2)
    by (simp add: cron_matches_def split: prod.split)
  then show ?thesis using \<open>?secs < 86400\<close> by blast
qed

theorem cron_daily_schedule_fires_witness:
  "\<exists>secs < 86400. cron_matches ''0 9 * * *'' (now_local_components (int (20000 * 86400 + secs) - 3600) 3600)"
proof -
  have "split_whitespace ''0 9 * * *'' = [''0'', ''9'', ''*'', ''*'', ''*'']"
    by (simp add: split_whitespace_def is_whitespace_def)
  then show ?thesis using cron_daily_schedule_fires [OF sample_valid(2), of "''0''" "''9''" 20000 3600] by simp
qed

text \<open>A step beyond the range of its field is accepted, and a day or month field with such a step never
  matches: no date has a day divisible by 32.\<close>

theorem accepted_schedule_never_fires:
  "validate_cron_schedule ''0 0 */32 * *'' = Inr () \<and>
   \<not> cron_matches ''0 0 */32 * *'' (now_local_components utc off)"
proof
  have sp: "split_whitespace ''0 0 */32 * *'' = [''0'', ''0'', ''*/32'', ''*'', ''*'']"
    by (simp add: split_whitespace_def is_whitespace_def)
  show "validate_cron_schedule ''0 0 */32 * *'' = Inr ()"
    by (simp add: validate_cron_schedule_def sp cron_ranges_def validate_field_def strip_prefix_def parse_unsigned_def
        digit_value_def)
  define days where "days = nat ((utc + off) mod 2 ^ 64 div 86400)"
  obtain y m d where c: "date_of days = (y, m, d)" by (cases "date_of days")
  then have "valid_date (y, m, d)" using date_of_day_number [of days] by simp
  then have "1 \<le> d" "d \<le> 31" by (auto simp: valid_date_def month_days_def split: if_splits)
  then have "nat d mod 32 \<noteq> 0" by auto
  then have "\<not> field_matches ''*/32'' (nat d)"
    by (simp add: field_matches_def strip_prefix_def parse_unsigned_def digit_value_def)
  moreover have "civil_from_days ((utc + off) mod 2 ^ 64 div 86400) = (y, m, d)"
  proof -
    have "int days = (utc + off) mod 2 ^ 64 div 86400"
      unfolding days_def by (rule nat_0_le) (simp add: pos_imp_zdiv_nonneg_iff)
    then show ?thesis using civil_from_days_exact [of days] c by simp
  qed
  ultimately show "\<not> cron_matches ''0 0 */32 * *'' (now_local_components utc off)"
    by (simp add: cron_matches_def sp now_local_components_def Let_def)
qed

text \<open>Updating the schedule of a one-shot job: only a five-field schedule is accepted, and that is no date.\<close>

lemma split_whitespace_one: "list_all (\<lambda>c. \<not> is_whitespace c) s \<Longrightarrow> length (split_whitespace_from cur s) \<le> 1"
  by (induction s arbitrary: cur) auto

text \<open>Any accepted change of the schedule of a one-shot job disarms it: the job stays a one-shot job and matches
  at no time. (A date is written without blanks.)\<close>

theorem once_update_disarms:
  assumes "\<And>x t. ci_datetime io x = Inr t \<Longrightarrow> list_all (\<lambda>c. \<not> is_whitespace c) x"
    and "find_job n (jobs st) = Some j" "trigger j = Once"
    and "fst (cron_update io n (Some s) p c st) = Inr u" "cr_io env = io"
  shows "\<exists>j'. find_job n (jobs (snd (cron_update io n (Some s) p c st))) = Some j' \<and> trigger j' = Once \<and>
    \<not> matches_now env clock j'"
proof -
  have ok: "validate_cron_schedule s = Inr ()"
    using assms(2,4) by (auto simp: cron_update_def Let_def split: sum.splits)
  then have "length (split_whitespace s) = 5"
    by (auto simp: validate_cron_schedule_def Let_def split: if_splits)
  then have "\<not> list_all (\<lambda>c. \<not> is_whitespace c) s"
    using split_whitespace_one [of s "[]"] by (auto simp: split_whitespace_def)
  then have no_date: "\<exists>e. ci_datetime io s = Inl e" using assms(1) by (cases "ci_datetime io s") auto
  obtain j' where j': "find_job n (jobs (snd (cron_update io n (Some s) p c st))) = Some j'"
      "trigger j' = Once" "schedule j' = s"
    using ok assms(2,3) find_job_SomeD [OF assms(2)]
    by (auto simp: cron_update_def Let_def find_job_set_job split: option.splits)
  then have "\<not> matches_now env clock j'"
    using no_date assms(5) by (auto simp: matches_now_def once_matches_def)
  then show ?thesis using j' by blast
qed

section \<open>Concrete runs\<close>

lemma hot_reload_quiet:
  assumes "ci_list_ok io" "mtimes (file_store st) = current_files io (job_files (file_store st))"
    "distinct (map fst (job_files (file_store st)))"
  shows "jobs (hot_reload io st) = jobs st"
proof -
  have d: "distinct (map fst (mtimes (file_store st)))" using assms by (simp add: keys_current)
  then have "filter (\<lambda>(n, t). map_of (mtimes (file_store st)) n \<noteq> Some t) (mtimes (file_store st)) = []"
    by (auto simp: filter_empty_conv)
  moreover have "filter (\<lambda>n. map_of (mtimes (file_store st)) n = None) (map fst (mtimes (file_store st))) = []"
    by (auto simp: filter_empty_conv map_of_eq_None_iff)
  ultimately show ?thesis
    unfolding hot_reload_def scan_changes_sync_def Let_def assms(2) [symmetric]
    by (simp add: remove_by_names_def List.map_filter_simps)
qed

lemma hash_a: "fnv1a_64 ''a'' = 12638187200555641996"
  by (simp add: fnv1a_64_def)

lemma jitter_a:
  "jitter_frac ''a'' = 12638187200555642880"
  "recurring_jitter ''a'' 60000 = 4110" "recurring_jitter ''a'' 86400000 = 900000"
proof -
  have "bit_length 12638187200555641996 = 64" using bit_length_eq [of 63 12638187200555641996] by simp
  then show f: "jitter_frac ''a'' = 12638187200555642880"
    by (simp add: jitter_frac_def hash_a round_f64_def round_shift_def)
  have "bit_length (12638187200555642880 * 3602879701896397) = 116"
    using bit_length_eq [of 115 "12638187200555642880 * 3602879701896397"] by simp
  then have a: "round_f64 (jitter_frac ''a'' * RECURRING_FRAC) = 45533868133648772217736215379574784"
    by (simp add: f RECURRING_FRAC_def round_f64_def round_shift_def)
  have i: "bit_length 60000 = 16" "bit_length 86400000 = 27"
    using bit_length_eq [of 15 60000] bit_length_eq [of 26 86400000] by simp_all
  have "bit_length 2732032088018926333064172922774487040000 = 132"
    "bit_length 3934126206747253919612409008795261337600000 = 142"
    using bit_length_eq [of 131 2732032088018926333064172922774487040000]
      bit_length_eq [of 141 3934126206747253919612409008795261337600000] by simp_all
  then show "recurring_jitter ''a'' 60000 = 4110" "recurring_jitter ''a'' 86400000 = 900000"
    unfolding recurring_jitter_def Let_def a
    by (simp_all add: i round_f64_def round_shift_def u64_max_def RECURRING_CAP_MS_def)
qed

definition plain_job :: "string \<Rightarrow> string \<Rightarrow> nat option \<Rightarrow> cron_job" where
  "plain_job n s c = \<lparr>job_name = n, schedule = s, job_prompt = n, enabled = True, last_fired_at = None,
     last_response = None, cooldown_secs = c, trigger = Schedule\<rparr>"

definition sample_env :: cron_env where
  "sample_env = \<lparr>cr_io = sample_io, cr_offset = Some 0, cr_lag = (\<lambda>_. 0)\<rparr>"

definition store_of :: "cron_job list \<Rightarrow> cron_store" where
  "store_of js = \<lparr>jobs = js, file_store = \<lparr>job_files = map (\<lambda>j. (job_name j, sample_job_text (to_file j), Some 100)) js,
     mtimes = map (\<lambda>j. (job_name j, 100)) js\<rparr>\<rparr>"

text \<open>Nine o'clock on a day; the first job is due now and sleeps fifteen minutes, the second is due at five past.\<close>

definition nine :: nat where "nine = (20000 * 86400 + 9 * 3600) * 1000"

definition morning_jobs :: "cron_job list" where
  "morning_jobs = [plain_job ''a'' ''0 9 * * *'' None, plain_job ''b'' ''5 9 * * *'' None]"

lemma run_job_effect:
  "rn_clock (run_job env now j r) =
     rn_clock r + (if fires env now (rn_clock r) j then fire_delay j else 0) + cr_lag env (job_name j)"
  "rn_spawned (run_job env now j r) =
     rn_spawned r @ (if fires env now (rn_clock r) j then [(job_name j, job_prompt j, now)] else [])"
  by (simp_all add: run_job_def Let_def)

lemma plain_job_fires:
  "last_fired_at j = None \<Longrightarrow> trigger j = Schedule \<Longrightarrow>
     fires env now clock j = cron_matches (schedule j) (now_local_components (int (clock div 1000)) (local_offset env))"
  by (simp add: fires_def fired_recently_def cooling_down_def matches_now_def)

lemma morning_split:
  "split_whitespace ''0 9 * * *'' = [''0'', ''9'', ''*'', ''*'', ''*'']"
  "split_whitespace ''5 9 * * *'' = [''5'', ''9'', ''*'', ''*'', ''*'']"
  by (simp_all add: split_whitespace_def is_whitespace_def)

lemma morning_fields:
  "field_matches ''0'' v \<longleftrightarrow> v = 0" "field_matches ''5'' v \<longleftrightarrow> v = 5" "field_matches ''9'' v \<longleftrightarrow> v = 9" "field_matches ''*'' v"
  by (auto simp: field_matches_def strip_prefix_def parse_unsigned_def digit_value_def)

lemma morning_matches:
  assumes "secs < 86400"
  shows "cron_matches ''0 9 * * *'' (now_local_components (int (20000 * 86400 + secs)) 0) \<longleftrightarrow>
      secs mod 3600 div 60 = 0 \<and> secs div 3600 = 9"
    and "cron_matches ''5 9 * * *'' (now_local_components (int (20000 * 86400 + secs)) 0) \<longleftrightarrow>
      secs mod 3600 div 60 = 5 \<and> secs div 3600 = 9"
  using components_at [OF assms, of 20000 0]
  by (simp_all add: cron_matches_def morning_split morning_fields split: prod.split)

lemma morning_delay: "fire_delay (plain_job ''a'' ''0 9 * * *'' None) = 900000"
  by (simp add: fire_delay_def plain_job_def estimate_cron_interval_secs_def morning_split strip_prefix_def
      within_minute_jitter_ms_def jitter_a)

text \<open>The jitter of one job makes another miss its time: the runner sleeps the jitter inside its loop. Of two
  daily jobs due at 9:00 and 9:05 the first fires and the runner sleeps until 9:15, when the second no longer
  matches; it has not fired and will not before the next day.\<close>

theorem jitter_sleep_misses_job:
  "\<exists>r. rn_clock r = nine \<and> jobs (rn_store r) = morning_jobs \<and> rn_spawned r = [] \<and>
     rn_spawned (runner_tick sample_env r) = [(''a'', ''a'', nine div 1000)] \<and>
     rn_clock (runner_tick sample_env r) = nine + 15 * 60 * 1000 \<and>
     cron_matches ''5 9 * * *'' (now_local_components (int (nine div 1000 + 5 * 60)) 0)"
proof -
  let ?r = "\<lparr>rn_clock = nine, rn_store = store_of morning_jobs, rn_spawned = []\<rparr>"
  have js: "jobs (hot_reload sample_io (store_of morning_jobs)) = morning_jobs"
    by (subst hot_reload_quiet)
       (simp_all add: store_of_def morning_jobs_def plain_job_def sample_io_def current_files_def entry_mtime_def)
  have a: "cron_matches ''0 9 * * *'' (now_local_components (int (nine div 1000)) 0)"
    and b: "cron_matches ''5 9 * * *'' (now_local_components (int (nine div 1000 + 5 * 60)) 0)"
    and c: "\<not> cron_matches ''5 9 * * *'' (now_local_components (int ((nine + 900000) div 1000)) 0)"
    using morning_matches [of 32400] morning_matches [of 32700] morning_matches [of 33300] by (simp_all add: nine_def)
  have "enabled_jobs (hot_reload sample_io (store_of morning_jobs)) = morning_jobs"
    by (simp add: enabled_jobs_def js) (simp add: morning_jobs_def plain_job_def)
  then have "rn_spawned (runner_tick sample_env ?r) = [(''a'', ''a'', nine div 1000)] \<and>
      rn_clock (runner_tick sample_env ?r) = nine + 15 * 60 * 1000"
    using a c morning_delay
    by (simp add: runner_tick_def Let_def sample_env_def morning_jobs_def run_job_effect plain_job_fires
        local_offset_def) (simp add: plain_job_def plain_job_fires local_offset_def)
  moreover have "jobs (rn_store ?r) = morning_jobs" by (simp add: store_of_def)
  ultimately show ?thesis using b by (intro exI [of _ ?r]) simp
qed

definition minutely :: cron_job where
  "minutely = plain_job ''a'' ''* * * * *'' (Some 0)"

lemma minutely_reaches: "cron_reaches sample_io (store_of [minutely])"
proof -
  have v: "validate_cron_name ''a'' = Inr ()" "validate_cron_schedule ''* * * * *'' = Inr ()"
    by (simp_all add: validate_cron_name_def str_contains_def is_whitespace_def validate_cron_schedule_def
        split_whitespace_def cron_ranges_def validate_field_def)
  have "run_op (sample_io, AddJob ''a'' ''* * * * *'' ''a'' (Some 0) Schedule) (cron_store_new sample_io []) =
      store_of [minutely]"
    by (simp add: cron_add_def v cron_store_new_def load_all_sync_def MAX_JOBS_def store_of_def minutely_def
        plain_job_def persist_def persist_one_def sample_io_def to_file_def entry_mtime_def Let_def)
  moreover have "cron_reaches sample_io (cron_store_new sample_io [])" by (intro cron_reaches.opened) simp_all
  ultimately show ?thesis using cron_reaches.used [OF _ healthy_sample refl] by metis
qed

lemma one_job_store:
  assumes "job_name j = ''a''"
  shows "hot_reload sample_io (store_of [j]) = store_of [j]"
    and "record_fired sample_io t ''a'' (store_of [j]) = store_of [j\<lparr>last_fired_at := Some t\<rparr>]"
  using assms
  by (simp_all add: hot_reload_def scan_changes_sync_def current_files_def entry_mtime_def store_of_def sample_io_def
      Let_def remove_by_names_def List.map_filter_simps record_fired_def find_job_Cons persist_def persist_one_def to_file_def)

lemma minutely_tick:
  assumes "fires sample_env (clock div 1000) clock (minutely\<lparr>last_fired_at := l\<rparr>)"
  shows "runner_tick sample_env \<lparr>rn_clock = clock, rn_store = store_of [minutely\<lparr>last_fired_at := l\<rparr>], rn_spawned = sp\<rparr> =
    \<lparr>rn_clock = clock + 4110, rn_store = store_of [minutely\<lparr>last_fired_at := Some (clock div 1000)\<rparr>],
     rn_spawned = sp @ [(''a'', ''a'', clock div 1000)]\<rparr>"
proof -
  have "split_whitespace ''* * * * *'' = [''*'', ''*'', ''*'', ''*'', ''*'']"
    by (simp add: split_whitespace_def is_whitespace_def)
  then have d: "fire_delay (minutely\<lparr>last_fired_at := l\<rparr>) = 4110"
    by (simp add: fire_delay_def minutely_def plain_job_def estimate_cron_interval_secs_def strip_prefix_def
        within_minute_jitter_ms_def jitter_a)
  have m: "job_name minutely = ''a''" "job_prompt minutely = ''a''" "trigger minutely = Schedule" "enabled minutely"
    by (simp_all add: minutely_def plain_job_def)
  have e: "enabled_jobs (store_of [minutely\<lparr>last_fired_at := l\<rparr>]) = [minutely\<lparr>last_fired_at := l\<rparr>]"
    by (simp add: enabled_jobs_def store_of_def m)
  have io: "cr_io sample_env = sample_io" "cr_lag sample_env = (\<lambda>_. 0)" by (simp_all add: sample_env_def)
  show ?thesis
    using assms by (simp add: runner_tick_def Let_def io one_job_store m e run_job_def d)
qed

lemma minutely_fires:
  assumes "l = None \<or> (\<exists>t. l = Some t \<and> t + 45 \<le> now \<and> now < 2 ^ 64)"
  shows "fires sample_env now clock (minutely\<lparr>last_fired_at := l\<rparr>)"
proof -
  have "split_whitespace ''* * * * *'' = [''*'', ''*'', ''*'', ''*'', ''*'']"
    by (simp add: split_whitespace_def is_whitespace_def)
  then have "cron_matches ''* * * * *'' (now_local_components utc off)" for utc off
    by (simp add: cron_matches_def now_local_components_def Let_def field_matches_def split: prod.split)
  then show ?thesis
    using assms
    by (auto simp: fires_def matches_now_def fired_recently_def cooling_down_def minutely_def plain_job_def
        effective_cooldown_def sub_u64_le)
qed

theorem cron_jobs_spaced_witness:
  "rn_spawned (fold run_tick [(sample_env, 0), (sample_env, 60000)]
       \<lparr>rn_clock = nine, rn_store = store_of [minutely], rn_spawned = []\<rparr>) =
     [(''a'', ''a'', nine div 1000), (''a'', ''a'', (nine + 64110) div 1000)] \<and>
   trigger minutely \<noteq> Once \<and> nine div 1000 + 45 \<le> (nine + 64110) div 1000"
proof -
  let ?r = "\<lparr>rn_clock = nine, rn_store = store_of [minutely], rn_spawned = []\<rparr>"
  have l: "minutely\<lparr>last_fired_at := None\<rparr> = minutely" by (simp add: minutely_def plain_job_def)
  have run: "fold run_tick [(sample_env, 0), (sample_env, 60000)] ?r =
      \<lparr>rn_clock = nine + 68220, rn_store = store_of [minutely\<lparr>last_fired_at := Some ((nine + 64110) div 1000)\<rparr>],
       rn_spawned = [(''a'', ''a'', nine div 1000), (''a'', ''a'', (nine + 64110) div 1000)]\<rparr>"
    using minutely_tick [of nine None "[]"] minutely_fires [of None]
      minutely_tick [of "nine + 64110" "Some (nine div 1000)" "[(''a'', ''a'', nine div 1000)]"]
      minutely_fires [of "Some (nine div 1000)" "(nine + 64110) div 1000"]
    by (simp add: run_tick_def l nine_def)
  have m: "job_name minutely = ''a''" "last_fired_at minutely = None" by (simp_all add: minutely_def plain_job_def)
  have s: "rn_spawned (fold run_tick [(sample_env, 0), (sample_env, 60000)] ?r) =
      [] @ (job_name minutely, ''a'', nine div 1000) # [] @ (job_name minutely, ''a'', (nine + 64110) div 1000) # []"
    unfolding run by (simp add: m)
  have io: "cr_io sample_env = sample_io" by (simp add: sample_env_def)
  have c: "(nine + 68220) div 1000 < 2 ^ 64" by (simp add: nine_def)
  have "trigger minutely \<noteq> Once \<and> nine div 1000 + effective_cooldown minutely \<le> (nine + 64110) div 1000 \<and>
      nine div 1000 + 45 \<le> (nine + 64110) div 1000"
  proof (rule cron_jobs_spaced [OF healthy_sample _ _ _ _ _ _ s])
    show "cron_reaches sample_io (rn_store ?r)" using minutely_reaches by simp
    show "rn_clock (fold run_tick [(sample_env, 0), (sample_env, 60000)] ?r) div 1000 < 2 ^ 64"
      using c by (simp only: run runner.simps)
    show "\<forall>j\<in>set (jobs (rn_store ?r)). \<forall>l. last_fired_at j = Some l \<longrightarrow> l \<le> rn_clock ?r div 1000"
      by (simp add: store_of_def m)
    show "minutely \<in> set (jobs (rn_store ?r))" by (simp add: store_of_def)
    show "\<forall>x\<in>set [(sample_env, 0), (sample_env, 60000)].
        healthy (cr_io (fst x)) \<and> ci_parse (cr_io (fst x)) = ci_parse sample_io"
      using healthy_sample by (simp add: io)
  qed simp
  then show ?thesis using s by (simp add: m)
qed

definition reminder_job :: cron_job where
  "reminder_job = (plain_job ''a'' ''2026-05-31T21:14:00'' None)\<lparr>trigger := Once\<rparr>"

theorem once_update_disarms_witness:
  "\<exists>j'. find_job ''a'' (jobs (snd (cron_update sample_io ''a'' (Some ''0 9 * * *'') None None (store_of [reminder_job])))) =
     Some j' \<and> trigger j' = Once \<and> \<not> matches_now sample_env nine j'"
proof (rule once_update_disarms)
  show "list_all (\<lambda>c. \<not> is_whitespace c) x" if "ci_datetime sample_io x = Inr t" for x t
    using that by (simp add: sample_io_def is_whitespace_def split: if_splits)
  show "find_job ''a'' (jobs (store_of [reminder_job])) = Some reminder_job" "trigger reminder_job = Once"
    by (simp_all add: store_of_def reminder_job_def plain_job_def find_job_Cons)
  show "fst (cron_update sample_io ''a'' (Some ''0 9 * * *'') None None (store_of [reminder_job])) = Inr ()"
    by (simp add: cron_update_def store_of_def reminder_job_def plain_job_def find_job_Cons sample_valid Let_def)
  show "cr_io sample_env = sample_io" by (simp add: sample_env_def)
qed

end
