(* ===== verification/Stems.thy ===== *)
theory Stems
  imports Prelude
begin

text \<open>
  The ten heavenly stems, the nine palaces and the ceremonies of tools: the classification that
  every evaluation of a tool call starts from.
\<close>

section \<open>Stems\<close>

datatype stem = Jia | Yi | Bing | Ding | Wu | Ji | Geng | Xin | Ren | Gui

definition STEM_ALL :: "stem list" where
  "STEM_ALL = [Jia, Yi, Bing, Ding, Wu, Ji, Geng, Xin, Ren, Gui]"

definition CEREMONY_STEMS :: "stem list" where
  "CEREMONY_STEMS = [Wu, Ji, Geng, Xin, Ren, Gui]"

fun as_ceremony :: "stem \<Rightarrow> stem option" where
  "as_ceremony Wu = Some Wu"
| "as_ceremony Ji = Some Ji"
| "as_ceremony Geng = Some Geng"
| "as_ceremony Xin = Some Xin"
| "as_ceremony Ren = Some Ren"
| "as_ceremony Gui = Some Gui"
| "as_ceremony Jia = None"
| "as_ceremony Yi = None"
| "as_ceremony Bing = None"
| "as_ceremony Ding = None"

text \<open>\<open>Stem as u8\<close>: the enum discriminant.\<close>

fun stem_as_u8 :: "stem \<Rightarrow> nat" where
  "stem_as_u8 Jia = 0"
| "stem_as_u8 Yi = 1"
| "stem_as_u8 Bing = 2"
| "stem_as_u8 Ding = 3"
| "stem_as_u8 Wu = 4"
| "stem_as_u8 Ji = 5"
| "stem_as_u8 Geng = 6"
| "stem_as_u8 Xin = 7"
| "stem_as_u8 Ren = 8"
| "stem_as_u8 Gui = 9"

lemma STEM_ALL_complete: "set STEM_ALL = UNIV"
  by (auto simp: STEM_ALL_def) (metis stem.exhaust)

lemma as_ceremony_iff: "as_ceremony s = Some t \<longleftrightarrow> s = t \<and> s \<in> set CEREMONY_STEMS"
  by (cases s) (auto simp: CEREMONY_STEMS_def)

lemma stem_as_u8_inj: "stem_as_u8 a = stem_as_u8 b \<longleftrightarrow> a = b"
  by (cases a; cases b; simp)

section \<open>Palaces\<close>

datatype palace = Kan | Kun | Zhen | Xun | Zhong | Qian | Dui | Gen | Li

fun palace_stem :: "palace \<Rightarrow> stem" where
  "palace_stem Kan = Bing"
| "palace_stem Kun = Yi"
| "palace_stem Zhen = Wu"
| "palace_stem Xun = Ji"
| "palace_stem Zhong = Geng"
| "palace_stem Qian = Xin"
| "palace_stem Dui = Ren"
| "palace_stem Gen = Gui"
| "palace_stem Li = Ding"

lemma palace_stem_inj: "palace_stem p = palace_stem q \<longleftrightarrow> p = q"
  by (cases p; cases q; simp)

lemma palace_stem_not_Jia [simp]: "palace_stem p \<noteq> Jia"
  by (cases p) simp_all

section \<open>Ceremonies\<close>

datatype ceremonies_intent = CWu | CJi | CGeng | CXin | CRen | CGui

fun intent_stem_from_tool :: "ceremonies_intent \<Rightarrow> stem" where
  "intent_stem_from_tool CWu = Wu"
| "intent_stem_from_tool CJi = Ji"
| "intent_stem_from_tool CGeng = Geng"
| "intent_stem_from_tool CXin = Xin"
| "intent_stem_from_tool CRen = Ren"
| "intent_stem_from_tool CGui = Gui"

text \<open>The default of \<open>BaseTool::target_palace\<close> and of \<open>BaseTool::is_destructive\<close>.\<close>

fun default_target_palace :: "ceremonies_intent \<Rightarrow> palace" where
  "default_target_palace CWu = Zhen"
| "default_target_palace CJi = Xun"
| "default_target_palace CGeng = Zhong"
| "default_target_palace CXin = Qian"
| "default_target_palace CRen = Dui"
| "default_target_palace CGui = Gen"

definition default_is_destructive :: "ceremonies_intent \<Rightarrow> bool" where
  "default_is_destructive c = (c \<noteq> CWu)"

text \<open>A tool with the default target sits on its own stem: heaven and earth stems coincide.\<close>

lemma default_target_own_stem:
  "palace_stem (default_target_palace c) = intent_stem_from_tool c"
  by (cases c) simp_all

end
