(* ===== verification/GeJu.thy ===== *)
theory GeJu
  imports Stems
begin

text \<open>
  The GeJu engine (\<open>geju/evaluate.rs\<close>, \<open>geju/patterns.rs\<close>): a heaven stem (the intent) over an
  earth stem (the target domain) is evaluated in three layers to an execution strategy. Pattern
  names are transliterated; distinct names stay distinct.
\<close>

section \<open>Execution modes and results\<close>

datatype execution_mode = Direct | Guarded | Sandbox | Denied

datatype approval_gate =
  Permission string
| UserConfirmation string
| SandboxIsolation
| CodeReview

record geju_result =
  gname :: string
  execution_mode :: execution_mode
  requires_audit :: bool
  max_retries :: nat
  approval_chain :: "approval_gate list"
  layer :: nat

fun mode_level :: "execution_mode \<Rightarrow> nat" where
  "mode_level Direct = 0"
| "mode_level Guarded = 1"
| "mode_level Sandbox = 2"
| "mode_level Denied = 3"

definition safety_level :: "geju_result \<Rightarrow> nat" where
  "safety_level r = mode_level (execution_mode r)"

definition is_stricter_than :: "geju_result \<Rightarrow> geju_result \<Rightarrow> bool" where
  "is_stricter_than self other =
     (if safety_level self > safety_level other then True
      else if safety_level self = safety_level other then
        (if requires_audit self \<and> \<not> requires_audit other then True
         else if length (approval_chain self) > length (approval_chain other) then True
         else False)
      else False)"

instantiation execution_mode :: linorder
begin

definition less_eq_execution_mode :: "execution_mode \<Rightarrow> execution_mode \<Rightarrow> bool" where
  "less_eq_execution_mode a b = (mode_level a \<le> mode_level b)"

definition less_execution_mode :: "execution_mode \<Rightarrow> execution_mode \<Rightarrow> bool" where
  "less_execution_mode a b = (mode_level a < mode_level b)"

instance
proof
  fix x y z :: execution_mode
  show "(x < y) = (x \<le> y \<and> \<not> y \<le> x)"
    by (auto simp: less_execution_mode_def less_eq_execution_mode_def)
  show "x \<le> x" by (simp add: less_eq_execution_mode_def)
  show "x \<le> y \<Longrightarrow> y \<le> z \<Longrightarrow> x \<le> z" by (simp add: less_eq_execution_mode_def)
  show "x \<le> y \<Longrightarrow> y \<le> x \<Longrightarrow> x = y"
    by (cases x; cases y; simp add: less_eq_execution_mode_def)
  show "x \<le> y \<or> y \<le> x" by (auto simp: less_eq_execution_mode_def)
qed

end

lemmas mode_order = less_eq_execution_mode_def less_execution_mode_def

lemma mode_le_simps [simp, mode_simps]:
  "Direct \<le> m" "m \<le> Denied" "Guarded \<le> m \<longleftrightarrow> m \<noteq> Direct" "Denied \<le> m \<longleftrightarrow> m = Denied"
  by (cases m; simp add: mode_order)+

section \<open>Layer 1: named patterns\<close>

text \<open>The tuple the tables build their result from; the layer is set by \<open>evaluate\<close>.\<close>

type_synonym pattern_entry = "string \<times> execution_mode \<times> bool \<times> nat \<times> approval_gate list"

definition pattern_result :: "pattern_entry \<Rightarrow> geju_result" where
  "pattern_result p =
     (case p of (nm, mode, audit, retries, chain) \<Rightarrow>
        \<lparr>gname = nm, execution_mode = mode, requires_audit = audit, max_retries = retries,
         approval_chain = chain, layer = 0\<rparr>)"

definition named_pattern :: "stem \<Rightarrow> stem \<Rightarrow> geju_result option" where
  "named_pattern heaven earth =
     map_option pattern_result
       (case (heaven, earth) of
          (Bing, Wu) \<Rightarrow> Some (''Feiniao diexue'', Direct, False, 0, [])
        | (Wu, Bing) \<Rightarrow> Some (''Qinglong fanshou'', Direct, False, 0, [])
        | (Yi, Wu) \<Rightarrow> Some (''Yi jia wu (qi ke liuyi)'', Direct, False, 0, [])
        | (Ding, Bing) \<Rightarrow> Some (''Xing sui yue zhuan'', Direct, False, 0, [])
        | (Geng, Bing) \<Rightarrow> Some (''Taibai ru ying'', Sandbox, True, 3, [SandboxIsolation])
        | (Bing, Geng) \<Rightarrow>
            Some (''Ying ru taibai'', Guarded, True, 1, [Permission ''exec_in_transform''])
        | (Xin, Ding) \<Rightarrow> Some (''Yushen de qi'', Direct, False, 0, [])
        | (Ren, Geng) \<Rightarrow> Some (''Ren jia geng'', Denied, True, 0, [Permission ''comm_in_exec''])
        | (Ding, Gui) \<Rightarrow> Some (''Zhuque tou jiang'', Sandbox, True, 2, [SandboxIsolation])
        | (Gui, Ding) \<Rightarrow>
            Some (''Tengshe yaojiao'', Guarded, True, 2,
                  [UserConfirmation ''cunchu caozuo sheji gouzi yu''])
        | (Ji, Bing) \<Rightarrow> Some (''Taiyin ru miao'', Direct, True, 0, [])
        | (Ding, Ji) \<Rightarrow> Some (''Liuhe feng chun'', Direct, False, 0, [])
        | (Wu, Ji) \<Rightarrow> Some (''Gouchen de wei'', Direct, False, 0, [])
        | (Wu, Wu) \<Rightarrow> Some (''Wu jia wu (fuyin du)'', Direct, False, 0, [])
        | (Ji, Ji) \<Rightarrow> Some (''Ji jia ji (fuyin xie)'', Direct, False, 0, [])
        | (Geng, Geng) \<Rightarrow> Some (''Geng jia geng (fuyin zhixing)'', Guarded, False, 3, [])
        | (Xin, Xin) \<Rightarrow> Some (''Xin jia xin (fuyin zhuanhuan)'', Direct, False, 0, [])
        | (Ren, Ren) \<Rightarrow> Some (''Ren jia ren (fuyin tongxin)'', Direct, False, 0, [])
        | (Gui, Gui) \<Rightarrow> Some (''Gui jia gui (fuyin cang)'', Direct, False, 0, [])
        | _ \<Rightarrow> None)"

section \<open>Layer 2: capability semantics\<close>

definition marvels_semantic :: "stem \<Rightarrow> stem \<Rightarrow> geju_result option" where
  "marvels_semantic heaven earth =
     map_option pattern_result
       (case (heaven, earth) of
          (Yi, Yi) \<Rightarrow> Some (''Yi qi zi lin'', Direct, False, 0, [])
        | (Yi, Ding) \<Rightarrow> Some (''Qi ru dui gong'', Direct, False, 0, [])
        | (Yi, Geng) \<Rightarrow>
            Some (''Jineng ru xing'', Guarded, True, 1, [Permission ''skill_in_exec''])
        | (Yi, _) \<Rightarrow> Some (''Jineng zhuru'', Direct, False, 0, [])
        | (Bing, Bing) \<Rightarrow> Some (''Bing qi zi ming'', Direct, False, 0, [])
        | (Bing, Xin) \<Rightarrow> Some (''Huo ru jin gong'', Direct, False, 0, [])
        | (Bing, Gui) \<Rightarrow> Some (''Huo ru shui gong'', Guarded, True, 1, [])
        | (Bing, _) \<Rightarrow> Some (''Shangxiawen yasuo'', Direct, False, 0, [])
        | (Ding, Ding) \<Rightarrow>
            Some (''Ding qi zi xing'', Guarded, True, 2,
                  [UserConfirmation ''gouzi zi chufa queren''])
        | (Ding, Geng) \<Rightarrow> Some (''Xing ru jin gong'', Sandbox, True, 2, [SandboxIsolation])
        | (Ding, _) \<Rightarrow> Some (''Gouzi chufa'', Guarded, False, 1, [])
        | _ \<Rightarrow> None)"

definition ceremony_entry :: "stem \<Rightarrow> stem \<Rightarrow> pattern_entry" where
  "ceremony_entry heaven earth =
     (case (heaven, earth) of
        (Wu, _) \<Rightarrow> (''Wu jia X (duqu)'', Direct, False, 0, [])
      | (Ji, Ji) \<Rightarrow> (''Ji jia ji (xieru benwei)'', Direct, False, 0, [])
      | (Ji, Geng) \<Rightarrow>
          (''Ji jia geng (xieru zhixing yu)'', Guarded, False, 1, [Permission ''write_in_exec''])
      | (Ji, Ren) \<Rightarrow>
          (''Ji jia ren (xieru tongxin yu)'', Guarded, True, 1, [Permission ''write_in_comm''])
      | (Ji, Bing) \<Rightarrow> (''Ji jia bing (xieru cunchu yu)'', Guarded, True, 1, [])
      | (Ji, _) \<Rightarrow> (''Ji jia X (xieru)'', Guarded, False, 1, [])
      | (Geng, Geng) \<Rightarrow> (''Geng jia geng (zhixing benwei)'', Direct, False, 0, [])
      | (Geng, Ji) \<Rightarrow>
          (''Geng jia ji (zhixing xieru yu)'', Sandbox, True, 3, [SandboxIsolation])
      | (Geng, Wu) \<Rightarrow> (''Geng jia wu (zhixing duqu yu)'', Guarded, False, 1, [])
      | (Geng, Gui) \<Rightarrow> (''Geng jia gui (zhixing cunchu yu)'', Guarded, True, 2, [])
      | (Geng, _) \<Rightarrow> (''Geng jia X (zhixing)'', Guarded, False, 1, [])
      | (Xin, Xin) \<Rightarrow> (''Xin jia xin (zhuanhuan benwei)'', Direct, False, 0, [])
      | (Xin, Wu) \<Rightarrow> (''Xin jia wu (zhuanhuan duqu)'', Direct, False, 0, [])
      | (Xin, _) \<Rightarrow> (''Xin jia X (zhuanhuan)'', Direct, False, 0, [])
      | (Ren, Ren) \<Rightarrow> (''Ren jia ren (tongxin benwei)'', Direct, False, 0, [])
      | (Ren, Ji) \<Rightarrow>
          (''Ren jia ji (tongxin xieru)'', Guarded, True, 1,
           [Permission ''external_write'', UserConfirmation ''waibu tongxin xieru queren''])
      | (Ren, _) \<Rightarrow> (''Ren jia X (tongxin)'', Direct, False, 0, [])
      | (Gui, Gui) \<Rightarrow> (''Gui jia gui (cunchu benwei)'', Direct, False, 0, [])
      | (Gui, Wu) \<Rightarrow> (''Gui jia wu (cunchu duqu)'', Direct, False, 0, [])
      | (Gui, _) \<Rightarrow> (''Gui jia X (cunchu)'', Guarded, False, 1, [])
      | _ \<Rightarrow> (''Wei fenlei yuyi'', Guarded, False, 1, []))"

definition capability_semantic :: "stem \<Rightarrow> stem \<Rightarrow> geju_result option" where
  "capability_semantic heaven earth =
     (case marvels_semantic heaven earth of
        Some result \<Rightarrow> Some result
      | None \<Rightarrow>
          (case as_ceremony heaven of
             None \<Rightarrow> None
           | Some h \<Rightarrow> Some (pattern_result (ceremony_entry h earth))))"

section \<open>Evaluation\<close>

record geju =
  heaven_stem :: stem
  earth_stem :: stem

definition geju_new :: "stem \<Rightarrow> stem \<Rightarrow> geju" where
  "geju_new h e = \<lparr>heaven_stem = h, earth_stem = e\<rparr>"

text \<open>The decimal digit of a stem's discriminant (all are below ten).\<close>

definition geju_key :: "geju \<Rightarrow> string" where
  "geju_key g =
     [digit_char (stem_as_u8 (heaven_stem g)), CHR ''+'', digit_char (stem_as_u8 (earth_stem g))]"

definition evaluate :: "geju \<Rightarrow> geju_result" where
  "evaluate g =
     (case named_pattern (heaven_stem g) (earth_stem g) of
        Some result \<Rightarrow> result\<lparr>layer := 1\<rparr>
      | None \<Rightarrow>
          (case capability_semantic (heaven_stem g) (earth_stem g) of
             Some result \<Rightarrow> result\<lparr>layer := 2\<rparr>
           | None \<Rightarrow>
               \<lparr>gname = ''Moren anquan dixian'',
                execution_mode = Guarded,
                requires_audit = (heaven_stem g = Geng),
                max_retries = 1,
                approval_chain =
                  (if heaven_stem g = Geng
                   then [UserConfirmation ''exec operation requires confirmation''] else []),
                layer = 3\<rparr>))"

declare named_pattern_def [geju_simps] marvels_semantic_def [geju_simps]
  ceremony_entry_def [geju_simps] capability_semantic_def [geju_simps]
  pattern_result_def [geju_simps] evaluate_def [geju_simps] geju_new_def [geju_simps]

text \<open>Quantifying over both stems is checking the hundred combinations.\<close>

lemma all_stems: "(\<And>s. s \<in> set STEM_ALL \<Longrightarrow> P s) \<Longrightarrow> P s"
  using STEM_ALL_complete by auto

lemma stem_pair_cases:
  assumes "list_all (\<lambda>h. list_all (\<lambda>e. P h e) STEM_ALL) STEM_ALL"
  shows "P h e"
  using assms STEM_ALL_complete by (auto simp: list_all_iff)

section \<open>Properties of the engine\<close>

text \<open>Every capability and every marvel as heaven stem has a semantic entry; \<open>Jia\<close> has none.\<close>

lemma capability_semantic_None_iff: "capability_semantic h e = None \<longleftrightarrow> h = Jia"
  by (cases h; cases e; simp add: geju_simps)

lemma named_pattern_not_Jia: "named_pattern Jia e = None"
  by (cases e; simp add: geju_simps)

definition well_formed_result :: "geju_result \<Rightarrow> bool" where
  "well_formed_result r =
     (gname r \<noteq> [] \<and> 1 \<le> layer r \<and> layer r \<le> 3 \<and>
      (execution_mode r = Direct \<longrightarrow> approval_chain r = [] \<and> max_retries r = 0) \<and>
      (execution_mode r = Sandbox \<longrightarrow> requires_audit r \<and> approval_chain r = [SandboxIsolation]) \<and>
      (execution_mode r = Denied \<longrightarrow> requires_audit r \<and> max_retries r = 0) \<and>
      (SandboxIsolation \<in> set (approval_chain r) \<longrightarrow> execution_mode r = Sandbox))"

lemma evaluate_well_formed_new: "well_formed_result (evaluate (geju_new h e))"
  by (cases h; cases e; simp add: geju_simps well_formed_result_def)

lemma geju_new_eta: "g = geju_new (heaven_stem g) (earth_stem g)"
  by (simp add: geju_new_def)


text \<open>The third layer is the fallback of \<open>Jia\<close> alone.\<close>

lemma evaluate_layer3_new: "layer (evaluate (geju_new h e)) = 3 \<longleftrightarrow> h = Jia"
  by (cases h; cases e; simp add: geju_simps)

text \<open>The safety baseline (layer 3) is reached exactly for the hidden stem \<open>Jia\<close>; there it is
  guarded, unaudited and without approvals. In particular the baseline's extra confirmation for
  \<open>Geng\<close> (execution) intents is never taken.\<close>

theorem evaluate_baseline_only_Jia:
  "(layer (evaluate g) = 3 \<longleftrightarrow> heaven_stem g = Jia) \<and>
   (layer (evaluate g) = 3 \<longrightarrow>
      execution_mode (evaluate g) = Guarded \<and> \<not> requires_audit (evaluate g) \<and>
      approval_chain (evaluate g) = [])"
proof -
  have iff: "layer (evaluate g) = 3 \<longleftrightarrow> heaven_stem g = Jia"
    using evaluate_layer3_new [of "heaven_stem g" "earth_stem g"] geju_new_eta [of g] by simp
  moreover have "execution_mode (evaluate g) = Guarded \<and> \<not> requires_audit (evaluate g) \<and>
      approval_chain (evaluate g) = []" if "heaven_stem g = Jia"
    using that named_pattern_not_Jia capability_semantic_None_iff [of Jia]
    by (simp add: evaluate_def)
  ultimately show ?thesis by blast
qed

theorem evaluate_baseline_only_Jia_witness:
  "approval_chain (evaluate (geju_new Jia Geng)) = []"
  using evaluate_baseline_only_Jia [of "geju_new Jia Geng"] by (simp add: geju_new_def)

lemma evaluate_Denied_new:
  "execution_mode (evaluate (geju_new h e)) = Denied \<longleftrightarrow> h = Ren \<and> e = Geng"
  by (cases h; cases e; simp add: geju_simps)

lemma evaluate_Sandbox_new:
  "execution_mode (evaluate (geju_new h e)) = Sandbox \<longleftrightarrow>
     (h, e) \<in> {(Geng, Bing), (Geng, Ji), (Ding, Gui), (Ding, Geng)}"
  by (cases h; cases e; simp add: geju_simps)

text \<open>A tool evaluated over its own palace: direct, except that execution is guarded.\<close>

lemma evaluate_own_stem:
  "evaluate (geju_new (intent_stem_from_tool c) (palace_stem (default_target_palace c))) =
     pattern_result
       (case c of
          CWu \<Rightarrow> (''Wu jia wu (fuyin du)'', Direct, False, 0, [])
        | CJi \<Rightarrow> (''Ji jia ji (fuyin xie)'', Direct, False, 0, [])
        | CGeng \<Rightarrow> (''Geng jia geng (fuyin zhixing)'', Guarded, False, 3, [])
        | CXin \<Rightarrow> (''Xin jia xin (fuyin zhuanhuan)'', Direct, False, 0, [])
        | CRen \<Rightarrow> (''Ren jia ren (fuyin tongxin)'', Direct, False, 0, [])
        | CGui \<Rightarrow> (''Gui jia gui (fuyin cang)'', Direct, False, 0, []))\<lparr>layer := 1\<rparr>"
  by (cases c) (simp_all add: geju_simps)

subsection \<open>Strictness\<close>

lemma is_stricter_than_irrefl: "\<not> is_stricter_than r r"
  by (simp add: is_stricter_than_def)

lemma is_stricter_than_level:
  "is_stricter_than a b \<Longrightarrow> safety_level b \<le> safety_level a"
  by (auto simp: is_stricter_than_def split: if_splits)

lemma is_stricter_mode_change:
  "is_stricter_than (r\<lparr>execution_mode := m\<rparr>) r \<longleftrightarrow> execution_mode r < m"
  by (simp add: is_stricter_than_def safety_level_def less_execution_mode_def)

lemma geju_key_inj: "geju_key g = geju_key g' \<longleftrightarrow> g = g'"
proof
  assume k: "geju_key g = geju_key g'"
  have b: "stem_as_u8 s \<le> 9" for s by (cases s) simp_all
  have d: "digit_char m = digit_char n \<Longrightarrow> m \<le> 9 \<Longrightarrow> n \<le> 9 \<Longrightarrow> m = n" for m n
    unfolding digit_char_def
    by (drule arg_cong [where f = "of_char :: char \<Rightarrow> nat"]) simp
  from k have "stem_as_u8 (heaven_stem g) = stem_as_u8 (heaven_stem g')"
    and "stem_as_u8 (earth_stem g) = stem_as_u8 (earth_stem g')"
    using d [OF _ b b] by (simp_all add: geju_key_def)
  then show "g = g'" by (simp add: stem_as_u8_inj)
qed simp

end
