(* ===== verification/Policy.thy ===== *)
theory Policy
  imports Permission
begin

text \<open>
  The explicit policy chain (\<open>qian_permission/policy.rs\<close>), the input transformation of the sandbox, the
  verifier's allowlist (\<open>qian_permission/verifier.rs\<close>) and the choice of the execution sandbox
  (\<open>qian_permission/mod.rs\<close>).
\<close>

section \<open>Sandboxing tool input\<close>

definition sandbox_path ::
  "file_system \<Rightarrow> permission_matrix \<Rightarrow> json \<Rightarrow> string \<Rightarrow> path_op \<Rightarrow> (perm_error, json) result" where
  "sandbox_path fs m input key op =
     (case as_str (json_index input key) of
        None \<Rightarrow> Err (MissingParam key)
      | Some p \<Rightarrow>
          (case verify_path fs m p op of
             Inl e \<Rightarrow> Err e
           | Inr canonical \<Rightarrow> Ok (json_set input key (JString (path_to_string canonical)))))"

definition sandbox_input ::
  "file_system \<Rightarrow> (string \<Rightarrow> string list option) \<Rightarrow> permission_matrix \<Rightarrow> string \<Rightarrow> json \<Rightarrow>
   (perm_error, json) result" where
  "sandbox_input fs sp m tool input =
     (if tool = ''read_file'' then sandbox_path fs m input ''path'' Read
      else if tool = ''write_file'' \<or> tool = ''patch_file'' \<or> tool = ''revert_file'' then
        sandbox_path fs m input ''path'' Write
      else if tool = ''shell'' then
        (case as_str (json_index input ''command'') of
           None \<Rightarrow> Err (MissingParam ''command'')
         | Some cmd \<Rightarrow>
             (case verify_command sp m cmd of Inl e \<Rightarrow> Err e | Inr _ \<Rightarrow> Ok input))
      else if tool = ''grep'' then
        (if as_str (json_index input ''path'') \<noteq> None
         then sandbox_path fs m input ''path'' Read else Ok input)
      else Ok input)"

fun sandbox_known_params ::
  "file_system \<Rightarrow> permission_matrix \<Rightarrow> json \<Rightarrow> string list \<Rightarrow> (perm_error, json) result" where
  "sandbox_known_params fs m v [] = Ok v"
| "sandbox_known_params fs m v (key # keys) =
     (case json_get v key of
        None \<Rightarrow> sandbox_known_params fs m v keys
      | Some _ \<Rightarrow>
          (case sandbox_path fs m v key Write of
             Inl e \<Rightarrow> Err e
           | Inr v' \<Rightarrow> sandbox_known_params fs m v' keys))"

lemma sandbox_path_Ok:
  assumes "sandbox_path fs m input key op = Ok v"
  shows "\<exists>raw p. as_str (json_index input key) = Some raw \<and> verify_path fs m raw op = Ok p \<and>
    v = json_set input key (JString (path_to_string p)) \<and>
    json_index v key = JString (path_to_string p) \<and>
    (\<forall>k. k \<noteq> key \<longrightarrow> json_index v k = json_index input k)"
  using assms
  by (auto simp: sandbox_path_def json_index_set_same json_index_set_other
      split: option.splits sum.splits)

definition file_tools :: "string list" where
  "file_tools = [''read_file'', ''write_file'', ''patch_file'', ''revert_file'']"

definition path_tool_op :: "string \<Rightarrow> path_op" where
  "path_tool_op tool = (if tool = ''read_file'' then Read else Write)"

lemma sandbox_input_file_tool:
  "tool \<in> set file_tools \<Longrightarrow>
     sandbox_input fs sp m tool input = sandbox_path fs m input ''path'' (path_tool_op tool)"
  by (auto simp: file_tools_def sandbox_input_def path_tool_op_def)

lemma sandbox_input_shell:
  "sandbox_input fs sp m ''shell'' input =
     (case as_str (json_index input ''command'') of
        None \<Rightarrow> Err (MissingParam ''command'')
      | Some cmd \<Rightarrow> (case verify_command sp m cmd of Inl e \<Rightarrow> Err e | Inr _ \<Rightarrow> Ok input))"
  by (simp add: sandbox_input_def)

lemma sandbox_input_file_Ok:
  assumes "sandbox_input fs sp m tool input = Ok v" "tool \<in> set file_tools"
  shows "\<exists>p. within_boundary m p \<and> json_index v ''path'' = JString (path_to_string p)"
    and "k \<noteq> ''path'' \<Longrightarrow> json_index v k = json_index input k"
proof -
  have "sandbox_path fs m input ''path'' (path_tool_op tool) = Ok v"
    using assms sandbox_input_file_tool by metis
  from sandbox_path_Ok [OF this] obtain raw p where
    p: "verify_path fs m raw (path_tool_op tool) = Ok p"
      "json_index v ''path'' = JString (path_to_string p)"
      "\<forall>k. k \<noteq> ''path'' \<longrightarrow> json_index v k = json_index input k" by blast
  show "\<exists>p. within_boundary m p \<and> json_index v ''path'' = JString (path_to_string p)"
    using verify_path_Ok(2) [OF p(1)] p(2) by (intro exI conjI)
  show "k \<noteq> ''path'' \<Longrightarrow> json_index v k = json_index input k" using p(3) by blast
qed

lemma sandbox_input_shell_Ok:
  assumes "sandbox_input fs sp m ''shell'' input = Ok v"
  shows "v = input"
    and "\<exists>cmd. as_str (json_index input ''command'') = Some cmd \<and> verify_command sp m cmd = Ok ()"
proof -
  note shell = assms [unfolded sandbox_input_shell]
  from shell obtain cmd where cmd: "as_str (json_index input ''command'') = Some cmd"
    by (cases "as_str (json_index input ''command'')") simp_all
  with shell obtain u where "verify_command sp m cmd = Ok u" "v = input"
    by (cases "verify_command sp m cmd") simp_all
  then show "v = input"
    and "\<exists>cmd. as_str (json_index input ''command'') = Some cmd \<and> verify_command sp m cmd = Ok ()"
    using cmd by simp_all
qed

text \<open>Sandboxing a file tool's input rewrites its path parameter to a granted path inside the
  boundary and leaves every other parameter as it was; sandboxing a shell call accepts exactly the
  inputs whose command passes the command policy and does not change them.\<close>

theorem sandbox_input_confines:
  assumes "sandbox_input fs sp m tool input = Ok v"
  shows "(tool \<in> set file_tools \<longrightarrow>
      (\<exists>p. within_boundary m p \<and> json_index v ''path'' = JString (path_to_string p)) \<and>
      (\<forall>k. k \<noteq> ''path'' \<longrightarrow> json_index v k = json_index input k)) \<and>
    (tool = ''shell'' \<longrightarrow> v = input \<and>
      (\<exists>cmd. as_str (json_index input ''command'') = Some cmd \<and> verify_command sp m cmd = Ok ()))"
proof (intro conjI impI)
  assume "tool \<in> set file_tools"
  note ft = sandbox_input_file_Ok [OF assms this]
  show "\<exists>p. within_boundary m p \<and> json_index v ''path'' = JString (path_to_string p)" by (rule ft(1))
  show "\<forall>k. k \<noteq> ''path'' \<longrightarrow> json_index v k = json_index input k" using ft(2) by blast
next
  assume "tool = ''shell''"
  note shell = sandbox_input_shell_Ok [OF assms [unfolded this]]
  show "v = input" by (rule shell(1))
  show "\<exists>cmd. as_str (json_index input ''command'') = Some cmd \<and> verify_command sp m cmd = Ok ()"
    by (rule shell(2))
qed

lemma sample_sandbox_input:
  "sandbox_input plain_fs blank_split sample_matrix ''read_file''
     (JObject [(''path'', JString ''a/b'')]) = Ok (JObject [(''path'', JString ''/w/a/b'')])"
  by (simp add: sandbox_input_def sandbox_path_def json_index_def sample_verify_path
      component_string_def)

theorem sandbox_input_confines_witness:
  "\<exists>p. within_boundary sample_matrix p \<and>
     json_index (JObject [(''path'', JString ''/w/a/b'')]) ''path'' = JString (path_to_string p)"
  using sandbox_input_confines [OF sample_sandbox_input] by (simp add: file_tools_def)

section \<open>The policy chain\<close>

datatype chain_verdict =
  Pass
| Deny string string
| Ask string string

definition str_param :: "json \<Rightarrow> string \<Rightarrow> string" where
  "str_param input key = (case as_str (json_index input key) of Some s \<Rightarrow> s | None \<Rightarrow> [])"

definition subject :: "(json \<Rightarrow> string) \<Rightarrow> string \<Rightarrow> json \<Rightarrow> string \<times> string" where
  "subject ser tool input =
     (if tool = ''shell'' then (''Bash'', str_param input ''command'')
      else if tool = ''read_file'' then (''Read'', str_param input ''path'')
      else if tool = ''write_file'' \<or> tool = ''patch_file'' \<or> tool = ''revert_file'' then
        (''Write'', str_param input ''path'')
      else (tool, ser input))"

text \<open>\<open>match_deny_rule\<close>: a rule is \<open>Kind(glob)\<close>; a malformed rule or an invalid glob is skipped.\<close>

definition match_deny_rule ::
  "(string \<Rightarrow> (string \<Rightarrow> bool) option) \<Rightarrow> string \<Rightarrow> string \<Rightarrow> string \<Rightarrow> bool" where
  "match_deny_rule glob rule kind subj =
     (case (str_find ''('' rule, str_rfind '')'' rule) of
        (Some opn, Some cls) \<Rightarrow>
          (if cls \<le> opn then False
           else if \<not> eq_ignore_ascii_case (trim (take opn rule)) kind then False
           else (case glob (take (cls - (opn + 1)) (drop (opn + 1) rule)) of
                   Some matches \<Rightarrow> matches subj
                 | None \<Rightarrow> False))
      | _ \<Rightarrow> False)"

definition SSH_KEY_NAMES :: "string list" where
  "SSH_KEY_NAMES = [''id_rsa'', ''id_dsa'', ''id_ecdsa'', ''id_ed25519'']"

definition sensitive_path_reason :: "string \<Rightarrow> string option" where
  "sensitive_path_reason path =
     (case file_name (parse_path path) of
        None \<Rightarrow> None
      | Some nm \<Rightarrow>
          (let lower = to_lowercase nm in
           if prefix ''.env'' lower \<and>
              \<not> (str_contains lower ''example'' \<or> str_contains lower ''sample'' \<or>
                 str_contains lower ''template'')
           then Some (''sensitive file '' @ [CHR 0x27] @ nm @ [CHR 0x27] @
                      '' matches .env* -- confirmation required'')
           else if lower \<in> set SSH_KEY_NAMES
           then Some (''sensitive file '' @ [CHR 0x27] @ nm @ [CHR 0x27] @
                      '' is an SSH private key -- confirmation required'')
           else None))"

definition approval_key :: "(json \<Rightarrow> string) \<Rightarrow> string \<Rightarrow> json \<Rightarrow> string" where
  "approval_key ser tool input = tool @ '':'' @ ser input"

definition chain_check ::
  "(json \<Rightarrow> string) \<Rightarrow> (string \<Rightarrow> (string \<Rightarrow> bool) option) \<Rightarrow> permission_matrix \<Rightarrow> string \<Rightarrow> json \<Rightarrow>
   chain_verdict" where
  "chain_check ser glob m tool input =
     (case subject ser tool input of (kind, subj) \<Rightarrow>
        (case find (\<lambda>r. match_deny_rule glob r kind subj) (deny_rules m) of
           Some rule \<Rightarrow>
             Deny ''deny_rule''
               (''denied by configured rule '' @ [CHR 0x27] @ rule @ [CHR 0x27])
         | None \<Rightarrow>
             (case as_str (json_index input ''path'') of
                None \<Rightarrow> Pass
              | Some p \<Rightarrow>
                  (case sensitive_path_reason p of
                     Some reason \<Rightarrow> Ask ''sensitive_file'' reason
                   | None \<Rightarrow> Pass))))"

definition denied_by_rule ::
  "(json \<Rightarrow> string) \<Rightarrow> (string \<Rightarrow> (string \<Rightarrow> bool) option) \<Rightarrow> permission_matrix \<Rightarrow> string \<Rightarrow> json \<Rightarrow>
   bool" where
  "denied_by_rule ser glob m tool input =
     list_ex (\<lambda>r. match_deny_rule glob r (fst (subject ser tool input)) (snd (subject ser tool input)))
       (deny_rules m)"

lemma deny_rule_decides:
  "denied_by_rule ser glob m tool input \<longleftrightarrow>
     (\<exists>reason. chain_check ser glob m tool input = Deny ''deny_rule'' reason)"
proof -
  obtain kind subj where s: "subject ser tool input = (kind, subj)" by fastforce
  show ?thesis
    by (cases "find (\<lambda>r. match_deny_rule glob r kind subj) (deny_rules m)")
       (auto simp: chain_check_def denied_by_rule_def list_ex_iff s find_None_iff find_Some_iff
          split: option.splits)
qed

text \<open>The policy chain is ordered. A matching deny rule decides alone, whatever the path; without
  one, a sensitive file name asks for confirmation; everything else passes to the GeJu dispatch.\<close>

theorem chain_check_ordered:
  "(denied_by_rule ser glob m tool input \<longleftrightarrow>
      (\<exists>reason. chain_check ser glob m tool input = Deny ''deny_rule'' reason)) \<and>
   (\<not> denied_by_rule ser glob m tool input \<longrightarrow>
      chain_check ser glob m tool input =
        (case Option.bind (as_str (json_index input ''path'')) sensitive_path_reason of
           Some reason \<Rightarrow> Ask ''sensitive_file'' reason
         | None \<Rightarrow> Pass))"
proof (intro conjI impI)
  assume "\<not> denied_by_rule ser glob m tool input"
  then have "find (\<lambda>r. match_deny_rule glob r (fst (subject ser tool input))
      (snd (subject ser tool input))) (deny_rules m) = None"
    by (auto simp: denied_by_rule_def list_ex_iff find_None_iff)
  then show "chain_check ser glob m tool input =
      (case Option.bind (as_str (json_index input ''path'')) sensitive_path_reason of
         Some reason \<Rightarrow> Ask ''sensitive_file'' reason | None \<Rightarrow> Pass)"
    by (auto simp: chain_check_def split: prod.splits option.splits)
qed (rule deny_rule_decides)

lemma sample_not_denied: "\<not> denied_by_rule ser glob sample_matrix tool input"
  by (simp add: denied_by_rule_def sample_matrix_def)

theorem chain_check_ordered_witness:
  "chain_check (\<lambda>_. []) (\<lambda>_. None) sample_matrix ''read_file'' (JObject [(''path'', JString ''a/x'')]) = Pass"
  using chain_check_ordered [of "\<lambda>_. []" "\<lambda>_. None" sample_matrix "''read_file''"
      "JObject [(''path'', JString ''a/x'')]"] sample_not_denied
  by (simp add: json_index_def sensitive_path_reason_def file_name_def parse_path_def
      component_of_def to_lowercase_def lower_char_def SSH_KEY_NAMES_def)

section \<open>The verifier's allowlist\<close>

datatype verifier_error =
  RedirectionDenied char
| Unparseable string
| CommandDenied string

definition segment_allowed :: "string \<Rightarrow> string list \<Rightarrow> bool" where
  "segment_allowed name args =
     (let sub = (case args of a # _ \<Rightarrow> Some a | [] \<Rightarrow> None) in
      if name \<in> {''ls'', ''cat'', ''grep'', ''rg'', ''find'', ''wc'', ''head'', ''tail'', ''pwd'', ''echo''}
      then True
      else if name \<in> {''pytest'', ''vitest'', ''jest''} then True
      else if name = ''cargo'' then
        sub \<in> {Some ''test'', Some ''check'', Some ''clippy'', Some ''build''}
      else if name = ''go'' then sub = Some ''test''
      else if name = ''git'' then
        sub \<in> {Some ''status'', Some ''diff'', Some ''log'', Some ''show'', Some ''blame''}
      else if name \<in> {''npm'', ''pnpm'', ''yarn'', ''bun''} then sub = Some ''test''
      else False)"

fun verify_segments ::
  "(string \<Rightarrow> string list option) \<Rightarrow> string list \<Rightarrow> (verifier_error, unit) result" where
  "verify_segments sp [] = Ok ()"
| "verify_segments sp (seg # segs) =
     (case sp seg of
        None \<Rightarrow> Err (Unparseable seg)
      | Some [] \<Rightarrow> verify_segments sp segs
      | Some (first # args) \<Rightarrow>
          (let name = last (split_char CHR ''/'' first) in
           if \<not> segment_allowed name args then Err (CommandDenied name)
           else verify_segments sp segs))"

definition verify_verifier_command ::
  "(string \<Rightarrow> string list option) \<Rightarrow> string \<Rightarrow> (verifier_error, unit) result" where
  "verify_verifier_command sp cmd =
     (case redirection_metachar cmd of
        Some c \<Rightarrow> Err (RedirectionDenied c)
      | None \<Rightarrow> verify_segments sp (split_segments cmd))"

lemma verify_segments_Ok:
  "verify_segments sp segs = Ok () \<longleftrightarrow>
     (\<forall>seg \<in> set segs. \<exists>ts. sp seg = Some ts \<and>
        (\<forall>w args. ts = w # args \<longrightarrow> segment_allowed (last (split_char CHR ''/'' w)) args))"
proof (induction segs)
  case Nil
  then show ?case by simp
next
  case (Cons seg segs)
  then show ?case
    by (cases "sp seg") (auto simp: Let_def split: list.splits if_splits)
qed

text \<open>The verifier's gate denies by default. A command is accepted if and only if it has no angle
  bracket outside quotes and every segment between unquoted \<open>|\<close> and \<open>&&\<close> parses and is empty or
  starts with an allowed command (with the narrowed subcommands of \<open>cargo\<close>, \<open>go\<close>, \<open>git\<close> and the
  package managers).\<close>

theorem verifier_default_deny:
  "verify_verifier_command sp cmd = Ok () \<longleftrightarrow>
     find (\<lambda>c. c = CHR ''<'' \<or> c = CHR ''>'') (unquoted cmd) = None \<and>
     (\<forall>seg \<in> set (split_segments cmd). \<exists>ts. sp seg = Some ts \<and>
        (\<forall>w args. ts = w # args \<longrightarrow> segment_allowed (last (split_char CHR ''/'' w)) args))"
proof -
  have "redirection_metachar cmd = find (\<lambda>c. c = CHR ''<'' \<or> c = CHR ''>'') (unquoted cmd)"
    by (simp add: redirection_metachar_def redirection_scan_unquoted unquoted_def start_state_def)
  then show ?thesis
    by (auto simp: verify_verifier_command_def verify_segments_Ok split: option.splits)
qed

theorem verifier_default_deny_witness:
  "verify_verifier_command blank_split ''cargo test'' = Ok ()"
  using verifier_default_deny [of blank_split "''cargo test''"]
  by (simp add: unquoted_def start_state_def outside_def quote_step_def scan_simps
      split_segments_def blank_split_def split_whitespace_def is_whitespace_def segment_allowed_def)

section \<open>Choosing the execution sandbox\<close>

datatype sandbox_backend = Docker | Landlock | Seatbelt | Process

definition backend_from_str :: "string \<Rightarrow> sandbox_backend" where
  "backend_from_str s =
     (let l = to_lowercase s in
      if l = ''docker'' then Docker
      else if l = ''landlock'' then Landlock
      else if l = ''seatbelt'' then Seatbelt
      else Process)"

text \<open>The build and the host: compiled features, target system and what the probes report.\<close>

record host =
  feature_docker :: bool
  target_linux :: bool
  target_macos :: bool
  docker_available :: bool
  landlock_available :: bool
  seatbelt_available :: bool

definition auto_select :: "host \<Rightarrow> string \<Rightarrow> sandbox_backend" where
  "auto_select h preferred =
     (let pref = backend_from_str preferred in
      if pref = Docker \<and> docker_available h then Docker
      else if pref = Landlock \<and> target_linux h \<and> landlock_available h then Landlock
      else if pref = Seatbelt \<and> target_macos h \<and> seatbelt_available h then Seatbelt
      else if feature_docker h \<and> docker_available h then Docker
      else if target_linux h \<and> landlock_available h then Landlock
      else if target_macos h \<and> seatbelt_available h then Seatbelt
      else Process)"

text \<open>\<open>with_sandbox\<close>: the kind of sandbox that is attached.\<close>

definition attached_sandbox :: "host \<Rightarrow> string \<Rightarrow> sandbox_backend" where
  "attached_sandbox h preferred =
     (let backend = auto_select h preferred in
      if feature_docker h \<and> backend = Docker then Docker
      else if target_linux h \<and> backend = Landlock then Landlock
      else if target_macos h \<and> backend = Seatbelt then Seatbelt
      else Process)"

lemma auto_select_available:
  "auto_select h pref = Docker \<Longrightarrow> docker_available h"
  "auto_select h pref = Landlock \<Longrightarrow> target_linux h \<and> landlock_available h"
  "auto_select h pref = Seatbelt \<Longrightarrow> target_macos h \<and> seatbelt_available h"
  by (auto simp: auto_select_def Let_def split: if_splits)

text \<open>A working preferred backend is attached, and the weakest backend (resource limits only, no
  file system isolation) is attached only if no isolating backend can be, with one exception that
  is a defect: in a build without the Docker feature, preferring Docker on a host that has Docker
  attaches the weakest backend although Landlock is available.\<close>

theorem attached_sandbox_strength:
  "attached_sandbox h pref = Process \<longleftrightarrow>
     \<not> (feature_docker h \<and> docker_available h) \<and>
     (backend_from_str pref = Docker \<and> docker_available h \<or>
      \<not> (target_linux h \<and> landlock_available h) \<and>
      \<not> (target_macos h \<and> seatbelt_available h))"
  by (auto simp: attached_sandbox_def auto_select_def Let_def)

end
