(* ===== verification/Session.thy ===== *)
theory Session
  imports Prelude
begin

text \<open>
  The session bus (\<open>plates/ren_human/session_bus.rs\<close>): the mutable state of the sessions that the human
  plate holds. Each table of the bus is a map keyed by session id; a table behind a lock is a field
  of the state and a method is a function from bus to bus.
\<close>

datatype steer_priority = Now | Next | Later

record steer_message =
  steer_content :: string
  steer_priority :: steer_priority

record criterion =
  ctext :: string
  checked :: bool

record pending_confirmation =
  pc_token :: string
  pc_created_at :: int
  pc_session_id :: string

datatype interaction_mode = Auto | Plan

record session_bus =
  pending_confirmations :: "string \<rightharpoonup> pending_confirmation"
  session_modes :: "string \<rightharpoonup> interaction_mode"
  session_approvals :: "string \<rightharpoonup> string set"
  steer_queues :: "string \<rightharpoonup> steer_message list"
  completion_criteria :: "string \<rightharpoonup> criterion list"

definition bus_new :: session_bus where
  "bus_new = \<lparr>pending_confirmations = Map.empty, session_modes = Map.empty,
     session_approvals = Map.empty, steer_queues = Map.empty, completion_criteria = Map.empty\<rparr>"

section \<open>Clearing\<close>

definition clear_session_approvals :: "session_bus \<Rightarrow> string \<Rightarrow> session_bus" where
  "clear_session_approvals b sid = b\<lparr>session_approvals := (session_approvals b)(sid := None)\<rparr>"

definition clear_criteria :: "session_bus \<Rightarrow> string \<Rightarrow> session_bus" where
  "clear_criteria b sid = b\<lparr>completion_criteria := (completion_criteria b)(sid := None)\<rparr>"

section \<open>Steering\<close>

definition push_steer :: "string \<Rightarrow> steer_message \<Rightarrow> session_bus \<Rightarrow> session_bus" where
  "push_steer sid msg b =
     (let queue = (case steer_queues b sid of Some q \<Rightarrow> q | None \<Rightarrow> []) in
      b\<lparr>steer_queues := (steer_queues b)(sid \<mapsto> queue @ [msg])\<rparr>)"

definition drain_steer :: "session_bus \<Rightarrow> string \<Rightarrow> steer_message list \<times> session_bus" where
  "drain_steer b sid =
     (case steer_queues b sid of
        None \<Rightarrow> ([], b)
      | Some queue \<Rightarrow> (queue, b\<lparr>steer_queues := (steer_queues b)(sid := None)\<rparr>))"

text \<open>\<open>VecDeque::insert(i, x)\<close>, in range.\<close>

definition insert_at :: "nat \<Rightarrow> 'a \<Rightarrow> 'a list \<Rightarrow> 'a list" where
  "insert_at i x xs = take i xs @ [x] @ drop i xs"

fun insert_from :: "nat \<Rightarrow> 'a list \<Rightarrow> 'a list \<Rightarrow> 'a list" where
  "insert_from i [] q = q"
| "insert_from i (m # ms) q = insert_from (Suc i) ms (insert_at i m q)"

definition requeue_steer :: "session_bus \<Rightarrow> string \<Rightarrow> steer_message list \<Rightarrow> session_bus" where
  "requeue_steer b sid msgs =
     (if msgs = [] then b
      else (let queue = (case steer_queues b sid of Some q \<Rightarrow> q | None \<Rightarrow> []) in
            b\<lparr>steer_queues := (steer_queues b)(sid \<mapsto> insert_from 0 msgs queue)\<rparr>))"

section \<open>Completion criteria\<close>

definition set_criteria :: "session_bus \<Rightarrow> string \<Rightarrow> string list \<Rightarrow> session_bus" where
  "set_criteria b sid criteria =
     b\<lparr>completion_criteria := (completion_criteria b)
         (sid \<mapsto> map (\<lambda>t. \<lparr>ctext = t, checked = False\<rparr>) criteria)\<rparr>"

fun position :: "('a \<Rightarrow> bool) \<Rightarrow> 'a list \<Rightarrow> nat option" where
  "position P [] = None"
| "position P (x # xs) = (if P x then Some 0 else map_option Suc (position P xs))"

datatype criterion_error = NoCriteria | NoMatch string

definition check_criterion ::
  "session_bus \<Rightarrow> string \<Rightarrow> string \<Rightarrow> (criterion_error, nat) result \<times> session_bus" where
  "check_criterion b sid text =
     (case completion_criteria b sid of
        None \<Rightarrow> (Err NoCriteria, b)
      | Some list \<Rightarrow>
          (let needle = to_lowercase text;
               idx = (case position (\<lambda>c. \<not> checked c \<and> ctext c = text) list of
                        Some i \<Rightarrow> Some i
                      | None \<Rightarrow> position (\<lambda>c. \<not> checked c \<and>
                                   str_contains (to_lowercase (ctext c)) needle) list)
           in case idx of
                Some i \<Rightarrow>
                  (let list' = list[i := (list ! i)\<lparr>checked := True\<rparr>]
                   in (Ok (length (filter (\<lambda>c. \<not> checked c) list')),
                       b\<lparr>completion_criteria := (completion_criteria b)(sid \<mapsto> list')\<rparr>))
              | None \<Rightarrow> (Err (NoMatch text), b)))"

definition unchecked_criteria :: "session_bus \<Rightarrow> string \<Rightarrow> string list" where
  "unchecked_criteria b sid =
     (case completion_criteria b sid of
        None \<Rightarrow> []
      | Some list \<Rightarrow> map ctext (filter (\<lambda>c. \<not> checked c) list))"

section \<open>The steer queue is a FIFO per session\<close>

definition steer_queue :: "session_bus \<Rightarrow> string \<Rightarrow> steer_message list" where
  "steer_queue b sid = (case steer_queues b sid of Some q \<Rightarrow> q | None \<Rightarrow> [])"

interpretation steer: session_table steer_queue push_steer "\<lambda>msg q. q @ [msg]"
  by unfold_locales (auto simp: steer_queue_def push_steer_def Let_def)

lemma insert_from_prefix: "insert_from (length ps) ms (ps @ q) = ps @ ms @ q"
proof (induction ms arbitrary: ps)
  case Nil
  then show ?case by simp
next
  case (Cons m ms)
  have "insert_at (length ps) m (ps @ q) = (ps @ [m]) @ q" by (simp add: insert_at_def)
  then show ?case using Cons.IH [of "ps @ [m]"] by simp
qed

lemma requeue_steer_queue:
  "steer_queue (requeue_steer b sid msgs) sid' =
     (if sid' = sid then msgs @ steer_queue b sid else steer_queue b sid')"
  using insert_from_prefix [of "[]" msgs] by (auto simp: requeue_steer_def steer_queue_def Let_def)

lemma drain_steer_queue:
  "fst (drain_steer b sid) = steer_queue b sid"
  "steer_queue (snd (drain_steer b sid)) sid' = (if sid' = sid then [] else steer_queue b sid')"
  by (auto simp: drain_steer_def steer_queue_def split: option.splits)

lemma fold_snoc: "fold (\<lambda>x q. q @ [x]) xs q = q @ xs"
  by (induction xs arbitrary: q) auto

text \<open>Steering is first-in first-out per session. After any interleaving of messages pushed to
  any sessions, draining a session returns what it held before followed by exactly its own new
  messages in the order they arrived; putting the drained messages back after further ones have
  arrived keeps the order of arrival; and no other session's queue changes.\<close>

theorem steer_fifo:
  "let b' = fold (\<lambda>(k, m). push_steer k m) ops b;
       own = map snd (filter (\<lambda>(k, _). k = sid) ops)
   in fst (drain_steer b' sid) = steer_queue b sid @ own \<and>
      (\<forall>later. steer_queue (requeue_steer (fold (push_steer sid) later (snd (drain_steer b' sid))) sid
           (fst (drain_steer b' sid))) sid = steer_queue b sid @ own @ later) \<and>
      (\<forall>sid'. sid' \<noteq> sid \<longrightarrow>
         steer_queue (snd (drain_steer b' sid)) sid' = steer_queue b' sid')"
proof -
  define b' where "b' = fold (\<lambda>(k, m). push_steer k m) ops b"
  define own where "own = map snd (filter (\<lambda>(k, _). k = sid) ops)"
  have q: "steer_queue b' sid = steer_queue b sid @ own"
    unfolding b'_def own_def using steer.lookup_run [of ops b sid] by (simp add: fold_snoc)
  have p: "steer_queue (fold (push_steer sid) later c) sid = steer_queue c sid @ later" for later c
    by (induction later arbitrary: c) (simp_all add: steer.lookup_same)
  show ?thesis
    unfolding Let_def b'_def [symmetric] own_def [symmetric]
    by (simp add: drain_steer_queue q requeue_steer_queue p)
qed

theorem steer_fifo_witness:
  "let m = \<lparr>steer_content = ''a'', steer_priority = Next\<rparr>;
       b' = push_steer ''s'' m bus_new
   in fst (drain_steer b' ''s'') = [m] \<and>
      steer_queue (snd (drain_steer b' ''s'')) ''t'' = steer_queue b' ''t''"
  using steer_fifo [where ops = "[(''s'', \<lparr>steer_content = ''a'', steer_priority = Next\<rparr>)]"
      and b = bus_new and sid = "''s''"]
  by (simp add: bus_new_def steer_queue_def Let_def)

section \<open>Checking criteria\<close>

lemma position_Some:
  "position P xs = Some i \<Longrightarrow> i < length xs \<and> P (xs ! i) \<and> (\<forall>j < i. \<not> P (xs ! j))"
proof (induction xs arbitrary: i)
  case Nil
  then show ?case by simp
next
  case (Cons x xs)
  then show ?case
    by (cases i) (auto simp: nth_Cons split: if_splits nat.splits)
qed

lemma position_None: "position P xs = None \<longleftrightarrow> (\<forall>x \<in> set xs. \<not> P x)"
  by (induction xs) auto

lemma filter_update_length:
  "i < length xs \<Longrightarrow> P (xs ! i) \<Longrightarrow> \<not> P y \<Longrightarrow>
     Suc (length (filter P (xs[i := y]))) = length (filter P xs)"
proof (induction xs arbitrary: i)
  case Nil
  then show ?case by simp
next
  case (Cons x xs)
  then show ?case by (cases i) auto
qed

text \<open>Checking a criterion is accounted exactly. A successful check reports the number of criteria
  still unchecked and lowers it by one; it fails only if no list was set or no unchecked criterion
  matches the text, exactly or as a case-insensitive substring, and then changes nothing.\<close>

theorem check_criterion_accounts:
  "case check_criterion b sid text of
     (Inr n, b') \<Rightarrow> n = length (unchecked_criteria b' sid) \<and>
       Suc n = length (unchecked_criteria b sid)
   | (Inl NoCriteria, b') \<Rightarrow> b' = b \<and> completion_criteria b sid = None
   | (Inl (NoMatch t), b') \<Rightarrow> b' = b \<and> t = text \<and>
       (\<forall>u \<in> set (unchecked_criteria b sid).
          u \<noteq> text \<and> \<not> str_contains (to_lowercase u) (to_lowercase text))"
proof (cases "completion_criteria b sid")
  case None
  then show ?thesis by (simp add: check_criterion_def)
next
  case (Some list)
  let ?E = "\<lambda>c. \<not> checked c \<and> ctext c = text"
  let ?S = "\<lambda>c. \<not> checked c \<and> str_contains (to_lowercase (ctext c)) (to_lowercase text)"
  define idx where "idx = (case position ?E list of Some i \<Rightarrow> Some i | None \<Rightarrow> position ?S list)"
  show ?thesis
  proof (cases idx)
    case None
    then have n: "position ?E list = None" "position ?S list = None"
      by (auto simp: idx_def split: option.splits)
    then have "check_criterion b sid text = (Err (NoMatch text), b)"
      using Some by (simp add: check_criterion_def)
    then show ?thesis
      using Some n by (auto simp: unchecked_criteria_def position_None)
  next
    case (Some i)
    then have i: "i < length list" "\<not> checked (list ! i)"
      by (auto simp: idx_def split: option.splits dest: position_Some)
    let ?l = "list[i := (list ! i)\<lparr>checked := True\<rparr>]"
    have c: "check_criterion b sid text =
        (Ok (length (filter (\<lambda>c. \<not> checked c) ?l)),
         b\<lparr>completion_criteria := (completion_criteria b)(sid \<mapsto> ?l)\<rparr>)"
      using Some \<open>completion_criteria b sid = Some list\<close>
      by (simp add: check_criterion_def idx_def Let_def)
    have "Suc (length (filter (\<lambda>c. \<not> checked c) ?l)) = length (filter (\<lambda>c. \<not> checked c) list)"
      using i by (intro filter_update_length) simp_all
    then show ?thesis
      using c \<open>completion_criteria b sid = Some list\<close> by (simp add: unchecked_criteria_def)
  qed
qed

theorem check_criterion_accounts_witness:
  "case check_criterion bus_new ''s'' ''t'' of
     (Inl NoCriteria, b') \<Rightarrow> b' = bus_new | _ \<Rightarrow> False"
  using check_criterion_accounts [of bus_new "''s''" "''t''"]
  by (simp add: check_criterion_def bus_new_def)

end
