(* ===== verification/HumanPlate.thy ===== *)
theory HumanPlate
  imports GeJu Policy Session
begin

unbundle bit_operations_syntax

text \<open>
  The human plate (\<open>plates/ren_human/mod.rs\<close>): eight gates, and \<open>prepare\<close>, which decides whether a tool
  call may run and with which input. Everything \<open>prepare\<close> does to shared state (approval memory,
  pending confirmations, emitted events, questions put to the user) is in \<open>human_state\<close>; the user, the
  clock and the UUID generator answer through the environment.
\<close>

section \<open>Gates\<close>

datatype human_gate =
  XiuMen | ShengMen | ShangMen | DuMen | JingXiangMen | SiMen | JingJueMen | KaiMen

datatype gate_state = Open | Closed

fun gate_index :: "human_gate \<Rightarrow> nat" where
  "gate_index XiuMen = 0"
| "gate_index ShengMen = 1"
| "gate_index ShangMen = 2"
| "gate_index DuMen = 3"
| "gate_index JingXiangMen = 4"
| "gate_index SiMen = 5"
| "gate_index JingJueMen = 6"
| "gate_index KaiMen = 7"

record human_plate =
  gates :: "gate_state list"
  closed_by_principle :: "8 word"
  permissions :: permission_matrix
  confirmation_override :: "bool option"
  verifier_shell_only :: bool

definition with_state :: "permission_matrix \<Rightarrow> human_plate" where
  "with_state perms =
     \<lparr>gates = replicate 8 Open, closed_by_principle = 0, permissions = perms,
      confirmation_override = None, verifier_shell_only = False\<rparr>"

definition gate_bit :: "human_gate \<Rightarrow> 8 word" where
  "gate_bit g = push_bit (gate_index g) 1"

definition close_gate :: "human_plate \<Rightarrow> human_gate \<Rightarrow> human_plate" where
  "close_gate pl g = pl\<lparr>closed_by_principle := closed_by_principle pl OR gate_bit g\<rparr>"

definition gate_is_open :: "human_plate \<Rightarrow> human_gate \<Rightarrow> bool" where
  "gate_is_open pl g =
     (gates pl ! gate_index g = Open \<and> closed_by_principle pl AND gate_bit g = 0)"

definition sync_jingjue_with_mode :: "human_plate \<Rightarrow> bool \<Rightarrow> human_plate" where
  "sync_jingjue_with_mode pl planning =
     (if planning
      then pl\<lparr>closed_by_principle := closed_by_principle pl OR gate_bit JingJueMen\<rparr>
      else pl\<lparr>closed_by_principle := closed_by_principle pl AND NOT (gate_bit JingJueMen)\<rparr>)"

definition should_escalate_alert :: "human_plate \<Rightarrow> bool" where
  "should_escalate_alert pl = gate_is_open pl JingJueMen"

lemma gate_index_less: "gate_index g < 8"
  by (cases g) simp_all

lemma gate_index_inj: "gate_index g = gate_index h \<longleftrightarrow> g = h"
  by (cases g; cases h; simp)

lemma and_gate_bit: "w AND gate_bit g = 0 \<longleftrightarrow> \<not> bit w (gate_index g)"
  unfolding gate_bit_def
  by (metis and_exp_eq_0_iff_not_bit push_bit_of_1)

lemma bit_gate_bit: "bit (gate_bit g) n \<longleftrightarrow> n = gate_index g"
  using gate_index_less [of g] by (auto simp: gate_bit_def bit_simps)

lemma gate_is_open_iff:
  "gate_is_open pl g \<longleftrightarrow>
     gates pl ! gate_index g = Open \<and> \<not> bit (closed_by_principle pl) (gate_index g)"
  by (simp add: gate_is_open_def and_gate_bit)

lemma gate_open_close:
  "gate_is_open (close_gate pl g) h \<longleftrightarrow> h \<noteq> g \<and> gate_is_open pl h"
  by (auto simp: gate_is_open_iff close_gate_def bit_or_iff bit_gate_bit gate_index_inj)

lemma gate_open_sync:
  "gate_is_open (sync_jingjue_with_mode pl planning) h \<longleftrightarrow>
     (if h = JingJueMen then gates pl ! gate_index h = Open \<and> \<not> planning else gate_is_open pl h)"
  using gate_index_less [of h] gate_index_inj [of h JingJueMen]
  by (auto simp: gate_is_open_iff sync_jingjue_with_mode_def bit_or_iff bit_and_iff bit_not_iff
      bit_gate_bit)

datatype gate_op = Close human_gate | SyncMode bool

fun gate_step :: "human_plate \<Rightarrow> gate_op \<Rightarrow> human_plate" where
  "gate_step pl (Close g) = close_gate pl g"
| "gate_step pl (SyncMode p) = sync_jingjue_with_mode pl p"

text \<open>Gates close for the session. From any plate, after any sequence of principle closings and
  mode changes, a gate other than \<open>JingJueMen\<close> is open exactly if it was open at the start and no
  principle closed it meanwhile: bits do not interfere and nothing reopens a gate.\<close>

theorem closed_gates_stay_closed:
  assumes "g \<noteq> JingJueMen"
  shows "gate_is_open (foldl gate_step pl ops) g \<longleftrightarrow> gate_is_open pl g \<and> Close g \<notin> set ops"
proof (induction ops rule: rev_induct)
  case Nil
  then show ?case by simp
next
  case (snoc op ops)
  then show ?case using assms by (cases op) (auto simp: gate_open_close gate_open_sync)
qed

theorem closed_gates_stay_closed_witness:
  "DuMen \<noteq> JingJueMen \<and>
   \<not> gate_is_open (foldl gate_step (with_state sample_matrix) [Close DuMen, SyncMode False]) DuMen"
  using closed_gates_stay_closed [of DuMen "with_state sample_matrix" "[Close DuMen, SyncMode False]"]
  by simp

text \<open>The alert gate is the exception. Leaving planning mode reopens \<open>JingJueMen\<close> even when a
  principle had closed it for the session.\<close>

theorem leaving_plan_reopens_alert_gate:
  "gates pl ! gate_index JingJueMen = Open \<Longrightarrow>
     gate_is_open (sync_jingjue_with_mode (close_gate pl JingJueMen) False) JingJueMen"
  by (simp add: gate_open_sync close_gate_def)

theorem leaving_plan_reopens_alert_gate_witness:
  "gate_is_open (sync_jingjue_with_mode (close_gate (with_state sample_matrix) JingJueMen) False)
     JingJueMen"
  using leaving_plan_reopens_alert_gate [of "with_state sample_matrix"] by (simp add: with_state_def)

section \<open>Dispatch\<close>

record tool =
  tool_id :: string
  ceremony :: ceremonies_intent
  is_destructive :: bool

datatype reason =
  Text string
| VerifierReason verifier_error
| SandboxReason perm_error

datatype runtime_event =
  PermissionDecision string string string reason
| ErrorEvent string string

datatype denial =
  DeniedVerifier verifier_error
| DeniedChain string
| DeniedGeju string
| DeniedDestructive string
| DeniedCommunication string
| DeniedSkill
| DeniedPermission string
| DeniedUser string string
| DeniedSandbox perm_error

datatype user_response = Answered bool | SenderDropped | TimedOut | Cancelled

record confirm_env =
  ce_id :: string
  ce_token :: string
  ce_now :: int
  ce_response :: user_response

text \<open>The environment of one call: the outside code, and what happens on the n-th question.\<close>

record environment =
  env_ser :: "json \<Rightarrow> string"
  env_glob :: "string \<Rightarrow> (string \<Rightarrow> bool) option"
  env_fs :: file_system
  env_split :: "string \<Rightarrow> string list option"
  env_confirm :: "nat \<Rightarrow> confirm_env"

record human_state =
  bus :: session_bus
  events :: "runtime_event list"
  questions :: "(string \<times> string) list"

definition emit :: "runtime_event \<Rightarrow> human_state \<Rightarrow> human_state" where
  "emit ev st = st\<lparr>events := events st @ [ev]\<rparr>"

definition put_confirmation :: "confirm_env \<Rightarrow> string \<Rightarrow> human_state \<Rightarrow> human_state" where
  "put_confirmation ce sid st =
     (let b = bus st;
          kept = (\<lambda>k. case pending_confirmations b k of
                        Some v \<Rightarrow> if pc_created_at v > ce_now ce - 1800 then Some v else None
                      | None \<Rightarrow> None)
      in st\<lparr>bus := b\<lparr>pending_confirmations :=
             kept(ce_id ce \<mapsto> \<lparr>pc_token = ce_token ce, pc_created_at = ce_now ce,
                               pc_session_id = sid\<rparr>)\<rparr>\<rparr>)"

definition drop_confirmation :: "string \<Rightarrow> human_state \<Rightarrow> human_state" where
  "drop_confirmation i st =
     (let b = bus st in
      st\<lparr>bus := b\<lparr>pending_confirmations := (pending_confirmations b)(i := None)\<rparr>\<rparr>)"

definition request_confirmation ::
  "environment \<Rightarrow> human_plate \<Rightarrow> string \<Rightarrow> string \<Rightarrow> string \<Rightarrow> human_state \<Rightarrow> bool \<times> human_state" where
  "request_confirmation env pl tname why sid st =
     (case confirmation_override pl of
        Some v \<Rightarrow> (v, st)
      | None \<Rightarrow>
          (let ce = env_confirm env (length (questions st));
               st1 = put_confirmation ce sid st;
               st2 = st1\<lparr>questions := questions st1 @ [(tname, why)]\<rparr>
           in case ce_response ce of
                Answered ok \<Rightarrow> (ok, st2)
              | SenderDropped \<Rightarrow> (False, st2)
              | TimedOut \<Rightarrow> (False, drop_confirmation (ce_id ce) st2)
              | Cancelled \<Rightarrow> (False, drop_confirmation (ce_id ce) st2)))"

definition approved :: "session_bus \<Rightarrow> string \<Rightarrow> string \<Rightarrow> bool" where
  "approved b sid key = (case session_approvals b sid of Some keys \<Rightarrow> key \<in> keys | None \<Rightarrow> False)"

definition remember_approval :: "string \<Rightarrow> string \<Rightarrow> session_bus \<Rightarrow> session_bus" where
  "remember_approval sid key b =
     (let keys = (case session_approvals b sid of Some ks \<Rightarrow> ks | None \<Rightarrow> {}) in
      b\<lparr>session_approvals := (session_approvals b)(sid \<mapsto> insert key keys)\<rparr>)"

text \<open>The three gates that can veto a guarded call outright.\<close>

definition gate_veto :: "human_plate \<Rightarrow> tool \<Rightarrow> denial option" where
  "gate_veto pl t =
     (if \<not> gate_is_open pl ShangMen \<and> is_destructive t then Some (DeniedDestructive (tool_id t))
      else if \<not> gate_is_open pl KaiMen \<and> ceremony t = CRen then
        Some (DeniedCommunication (tool_id t))
      else if \<not> gate_is_open pl ShengMen \<and> tool_id t = ''skill'' then Some DeniedSkill
      else None)"

text \<open>The \<open>UserConfirmation\<close> gate: approval memory first, then the question.\<close>

definition confirm_gate ::
  "environment \<Rightarrow> human_plate \<Rightarrow> tool \<Rightarrow> json \<Rightarrow> string \<Rightarrow> string \<Rightarrow> human_state \<Rightarrow>
   denial option \<times> human_state" where
  "confirm_gate env pl t input sid why st =
     (let key = approval_key (env_ser env) (tool_id t) input in
      if approved (bus st) sid key then
        (None, emit (PermissionDecision (tool_id t) ''allow'' ''session_approval''
                       (Text ''approved earlier in this session'')) st)
      else
        (case request_confirmation env pl (tool_id t) why sid st of
           (ok, st1) \<Rightarrow>
             (if \<not> ok then
                (Some (DeniedUser (tool_id t) why),
                 emit (ErrorEvent ''human_plate''
                         (''User denied: '' @ tool_id t @ '' (reason: '' @ why @ '')''))
                   (emit (PermissionDecision (tool_id t) ''deny'' ''user_confirmation'' (Text why))
                      st1))
              else
                (None,
                 emit (PermissionDecision (tool_id t) ''allow'' ''user_confirmation'' (Text why))
                   (st1\<lparr>bus := remember_approval sid key (bus st1)\<rparr>)))))"

definition unavailable_reason :: "tool \<Rightarrow> string" where
  "unavailable_reason t =
     ''Sandbox is unavailable for '' @ tool_id t @ ''. Proceed without isolation?''"

definition high_risk_reason :: "tool \<Rightarrow> geju_result \<Rightarrow> string" where
  "high_risk_reason t g =
     ''This operation ('' @ tool_id t @ '') was flagged as high-risk (geju: '' @ gname g @
     ''). Proceed?''"

definition isolation_off :: "human_plate \<Rightarrow> bool" where
  "isolation_off pl =
     (\<not> gate_is_open pl DuMen \<or> pm_sandbox_mode (permissions pl) = Disabled)"

text \<open>
  \<open>prepare_guarded\<close> walks the approval chain (\<open>guarded_loop\<close>), may hand over to \<open>prepare_sandbox\<close>, and
  \<open>prepare_sandbox\<close> falls back to \<open>prepare_guarded\<close> with a chain of one confirmation.
\<close>

function (sequential) prepare_guarded ::
  "environment \<Rightarrow> human_plate \<Rightarrow> tool \<Rightarrow> json \<Rightarrow> string \<Rightarrow> geju_result \<Rightarrow> human_state \<Rightarrow>
   (denial, json) result \<times> human_state"
and guarded_loop ::
  "environment \<Rightarrow> human_plate \<Rightarrow> tool \<Rightarrow> json \<Rightarrow> string \<Rightarrow> geju_result \<Rightarrow> approval_gate list \<Rightarrow>
   human_state \<Rightarrow> (denial, json) result \<times> human_state"
and prepare_sandbox ::
  "environment \<Rightarrow> human_plate \<Rightarrow> tool \<Rightarrow> json \<Rightarrow> string \<Rightarrow> geju_result \<Rightarrow> human_state \<Rightarrow>
   (denial, json) result \<times> human_state" where
  "prepare_guarded env pl t input sid g st =
     (case gate_veto pl t of
        Some d \<Rightarrow> (Err d, st)
      | None \<Rightarrow> guarded_loop env pl t input sid g (approval_chain g) st)"
| "guarded_loop env pl t input sid g [] st = (Ok input, st)"
| "guarded_loop env pl t input sid g (Permission rule # gs) st =
     (if str_contains rule ''deny'' then (Err (DeniedPermission rule), st)
      else guarded_loop env pl t input sid g gs st)"
| "guarded_loop env pl t input sid g (UserConfirmation why # gs) st =
     (case confirm_gate env pl t input sid why st of
        (Some d, st1) \<Rightarrow> (Err d, st1)
      | (None, st1) \<Rightarrow> guarded_loop env pl t input sid g gs st1)"
| "guarded_loop env pl t input sid g (SandboxIsolation # gs) st =
     prepare_sandbox env pl t input sid (g\<lparr>execution_mode := Sandbox\<rparr>) st"
| "guarded_loop env pl t input sid g (CodeReview # gs) st =
     guarded_loop env pl t input sid g gs st"
| "prepare_sandbox env pl t input sid g st =
     (if isolation_off pl then
        prepare_guarded env pl t input sid
          (g\<lparr>execution_mode := Guarded, approval_chain := [UserConfirmation (unavailable_reason t)]\<rparr>)
          st
      else
        (case sandbox_input (env_fs env) (env_split env) (permissions pl) (tool_id t) input of
           Inl e \<Rightarrow>
             (Err (DeniedSandbox e),
              emit (PermissionDecision (tool_id t) ''deny''
                      (if tool_id t = ''shell'' then ''command_policy'' else ''path_sandbox'')
                      (SandboxReason e)) st)
         | Inr v \<Rightarrow> (Ok v, st)))"
  by pat_completeness auto

text \<open>The hand-overs end: a chain with isolation leads to the sandbox, whose fallback has none.\<close>

termination
proof (relation "measures
    [\<lambda>x. case x of
           Inl (env, pl, t, input, sid, g, st) \<Rightarrow>
             if SandboxIsolation \<in> set (approval_chain g) then 3 else (1::nat)
         | Inr (Inl (env, pl, t, input, sid, g, gs, st)) \<Rightarrow>
             if SandboxIsolation \<in> set gs then 3 else 1
         | Inr (Inr _) \<Rightarrow> 2,
     \<lambda>x. case x of
           Inl (env, pl, t, input, sid, g, st) \<Rightarrow> Suc (length (approval_chain g))
         | Inr (Inl (env, pl, t, input, sid, g, gs, st)) \<Rightarrow> length gs
         | Inr (Inr _) \<Rightarrow> 0]")
qed auto

fun is_user_confirmation :: "approval_gate \<Rightarrow> bool" where
  "is_user_confirmation (UserConfirmation _) = True"
| "is_user_confirmation _ = False"

text \<open>The chain a forced question is asked through.\<close>

definition chain_with_question :: "approval_gate list \<Rightarrow> string \<Rightarrow> approval_gate list" where
  "chain_with_question gs why =
     (if list_ex is_user_confirmation gs then gs else gs @ [UserConfirmation why])"

definition verifier_gate ::
  "environment \<Rightarrow> human_plate \<Rightarrow> tool \<Rightarrow> json \<Rightarrow> (verifier_error, unit) result" where
  "verifier_gate env pl t input =
     (if verifier_shell_only pl \<and> tool_id t = ''shell''
      then verify_verifier_command (env_split env) (str_param input ''command'')
      else Ok ())"

abbreviation policy_verdict :: "environment \<Rightarrow> human_plate \<Rightarrow> tool \<Rightarrow> json \<Rightarrow> chain_verdict" where
  "policy_verdict env pl t input \<equiv>
     chain_check (env_ser env) (env_glob env) (permissions pl) (tool_id t) input"

definition prepare ::
  "environment \<Rightarrow> human_plate \<Rightarrow> tool \<Rightarrow> json \<Rightarrow> string \<Rightarrow> geju_result \<Rightarrow> human_state \<Rightarrow>
   (denial, json) result \<times> human_state" where
  "prepare env pl t input sid g st =
     (case verifier_gate env pl t input of
        Inl e \<Rightarrow>
          (Err (DeniedVerifier e),
           emit (PermissionDecision (tool_id t) ''deny'' ''verifier_command_allowlist''
                   (VerifierReason e)) st)
      | Inr _ \<Rightarrow>
          (case policy_verdict env pl t input of
             Deny pol why \<Rightarrow>
               (Err (DeniedChain why),
                emit (PermissionDecision (tool_id t) ''deny'' pol (Text why)) st)
           | verdict \<Rightarrow>
               (case (if execution_mode g \<noteq> Denied
                      then (case verdict of Ask pol why \<Rightarrow> Some (pol, why) | _ \<Rightarrow> None)
                      else None) of
                  Some (pol, why) \<Rightarrow>
                    prepare_guarded env pl t input sid
                      (g\<lparr>execution_mode := Guarded,
                         approval_chain := chain_with_question (approval_chain g) why\<rparr>)
                      (emit (PermissionDecision (tool_id t) ''ask'' pol (Text why)) st)
                | None \<Rightarrow>
                    (case execution_mode g of
                       Direct \<Rightarrow>
                         (if \<not> gate_is_open pl JingXiangMen
                          then prepare_guarded env pl t input sid (g\<lparr>execution_mode := Guarded\<rparr>) st
                          else (Ok input, st))
                     | Guarded \<Rightarrow> prepare_guarded env pl t input sid g st
                     | Sandbox \<Rightarrow> prepare_sandbox env pl t input sid g st
                     | Denied \<Rightarrow>
                         (if gate_is_open pl ShangMen then
                            prepare_guarded env pl t input sid
                              (g\<lparr>execution_mode := Guarded,
                                 approval_chain := [UserConfirmation (high_risk_reason t g)]\<rparr>) st
                          else
                            (Err (DeniedGeju (gname g)),
                             emit (ErrorEvent ''human_plate''
                                     (''Denied: '' @ tool_id t @ '' (geju: '' @ gname g @ '')''))
                               st))))))"

section \<open>What a cleared call has gone through\<close>

text \<open>
  \<open>said_yes\<close>: between two states a question was answered with yes (or the run has a standing yes).
  \<open>lawful\<close>: questions are only added, approvals are never lost, and a new approval is for this session
  and this call and follows a yes.
\<close>

definition said_yes :: "environment \<Rightarrow> human_plate \<Rightarrow> human_state \<Rightarrow> human_state \<Rightarrow> bool" where
  "said_yes env pl st st' =
     (confirmation_override pl = Some True \<or>
      list_ex (\<lambda>n. ce_response (env_confirm env n) = Answered True)
        [length (questions st)..<length (questions st')])"

definition lawful ::
  "environment \<Rightarrow> human_plate \<Rightarrow> string \<Rightarrow> string \<Rightarrow> human_state \<Rightarrow> human_state \<Rightarrow> bool" where
  "lawful env pl sid key st st' =
     (prefix (questions st) (questions st') \<and>
      (\<forall>s k. approved (bus st) s k \<longrightarrow> approved (bus st') s k) \<and>
      (\<forall>s k. approved (bus st') s k \<longrightarrow>
         approved (bus st) s k \<or> s = sid \<and> k = key \<and> said_yes env pl st st'))"

lemma emit_fields [simp]:
  "questions (emit ev st) = questions st" "bus (emit ev st) = bus st"
  by (simp_all add: emit_def)

lemma put_confirmation_fields [simp]:
  "questions (put_confirmation ce sid st) = questions st"
  "approved (bus (put_confirmation ce sid st)) = approved (bus st)"
  by (simp_all add: put_confirmation_def Let_def approved_def fun_eq_iff)

lemma drop_confirmation_fields [simp]:
  "questions (drop_confirmation i st) = questions st"
  "approved (bus (drop_confirmation i st)) = approved (bus st)"
  by (simp_all add: drop_confirmation_def Let_def approved_def fun_eq_iff)

lemma approved_remember:
  "approved (remember_approval sid key b) s k \<longleftrightarrow> s = sid \<and> k = key \<or> approved b s k"
  by (auto simp: remember_approval_def approved_def Let_def split: option.splits)

lemma lawful_refl: "lawful env pl sid key st st"
  by (simp add: lawful_def)

lemma said_yes_mono:
  assumes "said_yes env pl st1 st2" "length (questions st) \<le> length (questions st1)"
    "length (questions st2) \<le> length (questions st')"
  shows "said_yes env pl st st'"
  using assms by (auto simp: said_yes_def list_ex_iff)

lemma lawful_trans:
  assumes "lawful env pl sid key st st1" "lawful env pl sid key st1 st2"
  shows "lawful env pl sid key st st2"
proof -
  have le: "length (questions st) \<le> length (questions st1)"
    "length (questions st1) \<le> length (questions st2)"
    using assms by (auto simp: lawful_def dest: prefix_length_le)
  have "said_yes env pl st st1 \<Longrightarrow> said_yes env pl st st2"
    and "said_yes env pl st1 st2 \<Longrightarrow> said_yes env pl st st2"
    using le by (auto elim: said_yes_mono)
  then show ?thesis using assms prefix_order.trans unfolding lawful_def by metis
qed

lemma lawful_emit [simp]:
  "lawful env pl sid key (emit ev st) st' \<longleftrightarrow> lawful env pl sid key st st'"
  "lawful env pl sid key st (emit ev st') \<longleftrightarrow> lawful env pl sid key st st'"
  by (simp_all add: lawful_def said_yes_def)

lemma request_confirmation_spec:
  assumes "request_confirmation env pl tn why sid st = (ok, st')"
  shows "prefix (questions st) (questions st')" "approved (bus st') = approved (bus st)"
    "ok \<Longrightarrow> said_yes env pl st st'"
  using assms
  by (auto simp: request_confirmation_def Let_def said_yes_def
      split: option.splits user_response.splits)

lemma confirm_gate_spec:
  assumes "confirm_gate env pl t input sid why st = (d, st')"
    and key: "key = approval_key (env_ser env) (tool_id t) input"
  shows "lawful env pl sid key st st'" "d = None \<Longrightarrow> approved (bus st') sid key"
    "approved (bus st) sid key \<Longrightarrow> d = None \<and> questions st' = questions st"
proof -
  obtain ok st1 where r: "request_confirmation env pl (tool_id t) why sid st = (ok, st1)" by fastforce
  note spec = request_confirmation_spec [OF r]
  have yes: "ok \<Longrightarrow> said_yes env pl st (st1\<lparr>bus := b\<rparr>)" for b
    using spec(3) by (simp add: said_yes_def)
  show "lawful env pl sid key st st'" "d = None \<Longrightarrow> approved (bus st') sid key"
    "approved (bus st) sid key \<Longrightarrow> d = None \<and> questions st' = questions st"
    using assms spec yes
    by (auto simp: confirm_gate_def r Let_def lawful_refl approved_remember split: if_splits)
       (auto simp: lawful_def approved_remember)
qed

lemma prepare_lawful:
  assumes key: "key = approval_key (env_ser env) (tool_id t) input"
  shows "lawful env pl sid key st (snd (prepare_guarded env pl t input sid g st))"
    and "lawful env pl sid key st (snd (guarded_loop env pl t input sid g gs st))"
    and "lawful env pl sid key st (snd (prepare_sandbox env pl t input sid g st))"
  using key
proof (induction env pl t input sid g st and env pl t input sid g gs st and env pl t input sid g st
    rule: prepare_guarded_guarded_loop_prepare_sandbox.induct)
  case (4 env pl t input sid g why gs st)
  show ?case
  proof (cases "confirm_gate env pl t input sid why st")
    case (Pair d st1)
    have "lawful env pl sid key st st1" using confirm_gate_spec(1) [OF Pair 4(2)] .
    then show ?thesis using Pair 4 by (cases d) (auto elim: lawful_trans)
  qed
qed (auto simp: lawful_refl split: option.splits sum.splits)

text \<open>\<open>must_ask\<close>: walking the chain meets a confirmation before isolation takes over.\<close>

fun must_ask :: "human_plate \<Rightarrow> approval_gate list \<Rightarrow> bool" where
  "must_ask pl [] = False"
| "must_ask pl (UserConfirmation _ # gs) = True"
| "must_ask pl (SandboxIsolation # gs) = isolation_off pl"
| "must_ask pl (_ # gs) = must_ask pl gs"

definition call_must_ask :: "environment \<Rightarrow> human_plate \<Rightarrow> tool \<Rightarrow> json \<Rightarrow> geju_result \<Rightarrow> bool" where
  "call_must_ask env pl t input g =
     (case execution_mode g of
        Denied \<Rightarrow> True
      | mode \<Rightarrow>
          (case policy_verdict env pl t input of
             Ask _ why \<Rightarrow> must_ask pl (chain_with_question (approval_chain g) why)
           | _ \<Rightarrow> (case mode of
                     Direct \<Rightarrow> \<not> gate_is_open pl JingXiangMen \<and> must_ask pl (approval_chain g)
                   | Guarded \<Rightarrow> must_ask pl (approval_chain g)
                   | _ \<Rightarrow> isolation_off pl)))"

lemma must_ask_approved:
  assumes key: "key = approval_key (env_ser env) (tool_id t) input"
  shows "is_ok (fst (prepare_guarded env pl t input sid g st)) \<Longrightarrow> must_ask pl (approval_chain g) \<Longrightarrow>
           approved (bus (snd (prepare_guarded env pl t input sid g st))) sid key"
    and "is_ok (fst (guarded_loop env pl t input sid g gs st)) \<Longrightarrow> must_ask pl gs \<Longrightarrow>
           approved (bus (snd (guarded_loop env pl t input sid g gs st))) sid key"
    and "is_ok (fst (prepare_sandbox env pl t input sid g st)) \<Longrightarrow> isolation_off pl \<Longrightarrow>
           approved (bus (snd (prepare_sandbox env pl t input sid g st))) sid key"
  using key
proof (induction env pl t input sid g st and env pl t input sid g gs st and env pl t input sid g st
    rule: prepare_guarded_guarded_loop_prepare_sandbox.induct)
  case (4 env pl t input sid g why gs st)
  show ?case
  proof (cases "confirm_gate env pl t input sid why st")
    case (Pair d st1)
    with 4 have d: "d = None" by (cases d) simp_all
    then have "approved (bus st1) sid key" using confirm_gate_spec(2) [OF Pair 4(4)] by simp
    then show ?thesis
      using prepare_lawful(2) [OF 4(4), of pl sid st1 g gs] Pair d by (simp add: lawful_def)
  qed
qed (auto split: option.splits sum.splits if_splits)

declare prepare_guarded.simps [simp del] prepare_sandbox.simps [simp del]

text \<open>The equations of \<open>prepare\<close>, one per way through it.\<close>

lemma prepare_ask:
  "verifier_gate env pl t input = Ok () \<Longrightarrow> policy_verdict env pl t input = Ask pol why \<Longrightarrow>
   execution_mode g \<noteq> Denied \<Longrightarrow>
   prepare env pl t input sid g st =
     prepare_guarded env pl t input sid
       (g\<lparr>execution_mode := Guarded, approval_chain := chain_with_question (approval_chain g) why\<rparr>)
       (emit (PermissionDecision (tool_id t) ''ask'' pol (Text why)) st)"
  by (simp add: prepare_def)

lemma prepare_mode:
  assumes "verifier_gate env pl t input = Ok ()"
    and "policy_verdict env pl t input = Pass \<or>
         (\<exists>pol why. policy_verdict env pl t input = Ask pol why) \<and> execution_mode g = Denied"
  shows "prepare env pl t input sid g st =
     (case execution_mode g of
        Direct \<Rightarrow>
          (if \<not> gate_is_open pl JingXiangMen
           then prepare_guarded env pl t input sid (g\<lparr>execution_mode := Guarded\<rparr>) st
           else (Ok input, st))
      | Guarded \<Rightarrow> prepare_guarded env pl t input sid g st
      | Sandbox \<Rightarrow> prepare_sandbox env pl t input sid g st
      | Denied \<Rightarrow>
          (if gate_is_open pl ShangMen then
             prepare_guarded env pl t input sid
               (g\<lparr>execution_mode := Guarded,
                  approval_chain := [UserConfirmation (high_risk_reason t g)]\<rparr>) st
           else
             (Err (DeniedGeju (gname g)),
              emit (ErrorEvent ''human_plate''
                      (''Denied: '' @ tool_id t @ '' (geju: '' @ gname g @ '')'')) st)))"
  using assms by (auto simp: prepare_def)

lemma prepare_cases:
  obtains
    (refused) d where "fst (prepare env pl t input sid g st) = Err d"
      "questions (snd (prepare env pl t input sid g st)) = questions st"
      "bus (snd (prepare env pl t input sid g st)) = bus st"
  | (direct) "prepare env pl t input sid g st = (Ok input, st)" "\<not> call_must_ask env pl t input g"
  | (guarded) g' st' where
      "prepare env pl t input sid g st = prepare_guarded env pl t input sid g' st'"
      "bus st' = bus st" "questions st' = questions st"
      "call_must_ask env pl t input g \<longleftrightarrow> must_ask pl (approval_chain g')"
  | (sandbox) "prepare env pl t input sid g st = prepare_sandbox env pl t input sid g st"
      "call_must_ask env pl t input g \<longleftrightarrow> isolation_off pl"
proof (cases "verifier_gate env pl t input")
  case (Inl e)
  then show ?thesis by (intro refused) (simp_all add: prepare_def)
next
  case v: (Inr u)
  show ?thesis
  proof (cases "policy_verdict env pl t input")
    case (Deny pol why)
    with v show ?thesis by (intro refused) (simp_all add: prepare_def)
  next
    case c: (Ask pol why)
    show ?thesis
    proof (cases "execution_mode g = Denied")
      case True
      then show ?thesis using v c prepare_mode [of env pl t input g sid st]
        by (cases "gate_is_open pl ShangMen")
           (auto intro: guarded [OF _ refl refl] refused simp: call_must_ask_def)
    next
      case False
      then show ?thesis using v c
        by (intro guarded [OF prepare_ask]) (auto simp: call_must_ask_def split: execution_mode.splits)
    qed
  next
    case c: Pass
    note m = prepare_mode [where g = g and sid = sid and st = st, OF v [simplified] disjI1 [OF c]]
    show ?thesis
    proof (cases "execution_mode g")
      case Direct
      with m c show ?thesis
        by (cases "gate_is_open pl JingXiangMen")
           (auto intro: guarded [OF _ refl refl] direct simp: call_must_ask_def)
    next
      case Denied
      with m c show ?thesis
        by (cases "gate_is_open pl ShangMen")
           (auto intro: guarded [OF _ refl refl] refused simp: call_must_ask_def)
    qed (use m c in \<open>auto intro: guarded [OF _ refl refl] sandbox simp: call_must_ask_def\<close>)
  qed
qed

lemma must_ask_consent:
  assumes "is_ok (fst (prepare env pl t input sid g st))"
    and "call_must_ask env pl t input g"
  shows "approved (bus st) sid (approval_key (env_ser env) (tool_id t) input) \<or>
         said_yes env pl st (snd (prepare env pl t input sid g st))"
proof (cases rule: prepare_cases [of env pl t input sid g st])
  case (guarded g' st')
  let ?k = "approval_key (env_ser env) (tool_id t) input"
  have "approved (bus (snd (prepare_guarded env pl t input sid g' st'))) sid ?k"
    using must_ask_approved(1) [OF refl] assms guarded by simp
  then show ?thesis using prepare_lawful(1) [where env = env and t = t and input = input and pl = pl and sid = sid and st = st'
      and g = g', OF refl] guarded
    by (auto simp: lawful_def said_yes_def)
next
  case sandbox
  let ?k = "approval_key (env_ser env) (tool_id t) input"
  have "approved (bus (snd (prepare_sandbox env pl t input sid g st))) sid ?k"
    using must_ask_approved(3) [OF refl] assms sandbox by simp
  then show ?thesis using prepare_lawful(3) [where env = env and t = t and input = input and pl = pl and sid = sid and st = st
      and g = g, OF refl] sandbox
    by (auto simp: lawful_def)
qed (use assms in auto)


definition sample_env :: environment where
  "sample_env = \<lparr>env_ser = (\<lambda>_. ''{}''), env_glob = (\<lambda>_. None), env_fs = plain_fs,
     env_split = blank_split,
     env_confirm = (\<lambda>_. \<lparr>ce_id = ''q'', ce_token = ''k'', ce_now = 0, ce_response = Answered True\<rparr>)\<rparr>"

definition sample_state :: human_state where
  "sample_state = \<lparr>bus = bus_new, events = [], questions = []\<rparr>"

definition sample_tool :: tool where
  "sample_tool = \<lparr>tool_id = ''todo'', ceremony = CWu, is_destructive = False\<rparr>"

definition sample_denied :: geju_result where
  "sample_denied = \<lparr>gname = ''x'', execution_mode = Denied, requires_audit = True, max_retries = 0,
     approval_chain = [], layer = 2\<rparr>"

lemma plain_verdict:
  "deny_rules (permissions pl) = [] \<Longrightarrow> policy_verdict env pl t (JObject []) = Pass"
  by (simp add: chain_check_def json_index_def split: prod.splits)


lemma approved_not_asked:
  assumes "key = approval_key (env_ser env) (tool_id t) input" "approved (bus st) sid key"
  shows "questions (snd (prepare_guarded env pl t input sid g st)) = questions st"
    and "questions (snd (guarded_loop env pl t input sid g gs st)) = questions st"
    and "questions (snd (prepare_sandbox env pl t input sid g st)) = questions st"
  using assms
proof (induction env pl t input sid g st and env pl t input sid g gs st and env pl t input sid g st
    rule: prepare_guarded_guarded_loop_prepare_sandbox.induct)
  case (4 env pl t input sid g why gs st)
  show ?case
  proof (cases "confirm_gate env pl t input sid why st")
    case (Pair d st1)
    note c = confirm_gate_spec [OF Pair 4(2)]
    show ?thesis using c(3) [OF 4(3)] c(2) Pair 4 by simp
  qed
qed (auto simp: prepare_guarded.simps prepare_sandbox.simps split: option.splits sum.splits)



text \<open>C3: a configured deny rule is absolute. A call that matches one is refused without a question and
  without touching the session, whatever the geju result, the gates, the approval memory, and a
  standing yes.\<close>

theorem deny_rule_absolute:
  assumes "denied_by_rule (env_ser env) (env_glob env) (permissions pl) (tool_id t) input"
  shows "\<not> is_ok (fst (prepare env pl t input sid g st)) \<and>
         bus (snd (prepare env pl t input sid g st)) = bus st \<and>
         questions (snd (prepare env pl t input sid g st)) = questions st"
proof -
  obtain why where v: "policy_verdict env pl t input = Deny ''deny_rule'' why"
    using assms unfolding deny_rule_decides by blast
  show ?thesis
    by (cases "verifier_gate env pl t input") (simp_all add: prepare_def v)
qed

definition denying_matrix :: permission_matrix where
  "denying_matrix = sample_matrix\<lparr>deny_rules := [''todo(*)'']\<rparr>"

theorem deny_rule_absolute_witness:
  "\<not> is_ok (fst (prepare (sample_env\<lparr>env_glob := (\<lambda>_. Some (\<lambda>_. True))\<rparr>)
     ((with_state denying_matrix)\<lparr>confirmation_override := Some True\<rparr>) sample_tool (JObject []) ''s''
     sample_denied sample_state))"
  by (rule deny_rule_absolute [THEN conjunct1])
     (simp add: denied_by_rule_def denying_matrix_def with_state_def sample_tool_def sample_env_def
       subject_def match_deny_rule_def scan_simps trim_def is_whitespace_def eq_ignore_ascii_case_def
       lower_char_def)


definition sample_sandboxed :: geju_result where
  "sample_sandboxed = sample_denied\<lparr>execution_mode := Sandbox\<rparr>"

definition sample_reader :: tool where
  "sample_reader = \<lparr>tool_id = ''read_file'', ceremony = CWu, is_destructive = False\<rparr>"

lemma sample_read_verdict:
  "policy_verdict sample_env (with_state sample_matrix) sample_reader
     (JObject [(''path'', JString ''a/b'')]) = Pass"
  by (simp add: chain_check_def sample_env_def with_state_def sample_matrix_def json_index_def
      sensitive_path_reason_def file_name_def parse_path_def component_of_def to_lowercase_def
      lower_char_def SSH_KEY_NAMES_def split: prod.splits)

lemma sample_isolation: "\<not> isolation_off (with_state sample_matrix)"
  by (simp add: isolation_off_def gate_is_open_iff with_state_def sample_matrix_def)


text \<open>The forced question on sensitive files can be skipped. If the geju's chain starts with
  isolation and isolation is on, a call on a sensitive file that the sandbox accepts is cleared and
  the question the policy chain appended is never asked.\<close>

theorem sensitive_question_skipped:
  assumes "policy_verdict env pl t input = Ask pol why"
    and "execution_mode g \<noteq> Denied" "approval_chain g = SandboxIsolation # gs"
    and "verifier_gate env pl t input = Ok ()" "gate_veto pl t = None" "\<not> isolation_off pl"
    and "sandbox_input (env_fs env) (env_split env) (permissions pl) (tool_id t) input = Ok v"
  shows "fst (prepare env pl t input sid g st) = Ok v \<and>
         questions (snd (prepare env pl t input sid g st)) = questions st"
proof -
  let ?g = "g\<lparr>execution_mode := Guarded, approval_chain := chain_with_question (approval_chain g) why\<rparr>"
  obtain gs' where "approval_chain ?g = SandboxIsolation # gs'"
    using assms(3) by (cases "list_ex is_user_confirmation gs") (simp_all add: chain_with_question_def)
  then show ?thesis
    using assms
    by (simp add: prepare_ask prepare_guarded.simps prepare_sandbox.simps)
qed

definition sample_isolated :: geju_result where
  "sample_isolated = sample_denied\<lparr>execution_mode := Guarded, approval_chain := [SandboxIsolation]\<rparr>"

theorem sensitive_question_skipped_witness:
  "\<exists>v. fst (prepare sample_env (with_state sample_matrix) sample_reader
         (JObject [(''path'', JString ''.env'')]) ''s'' sample_isolated sample_state) = Ok v"
proof -
  let ?in = "JObject [(''path'', JString ''.env'')]"
  have ask: "\<exists>why. policy_verdict sample_env (with_state sample_matrix) sample_reader ?in =
      Ask ''sensitive_file'' why"
    by (simp add: chain_check_def sample_env_def with_state_def sample_matrix_def json_index_def
        sensitive_path_reason_def file_name_def parse_path_def component_of_def to_lowercase_def
        lower_char_def str_contains_def split: prod.splits)
  have "verify_path plain_fs sample_matrix ''.env'' Read = Ok [RootDir, Normal ''w'', Normal ''.env'']"
    by (simp add: verify_path_def canonical_target_def resolve_def parse_path_def component_of_def
        path_join_def within_boundary_def path_starts_with_def str_contains_def plain_fs_def
        sample_matrix_def component_string_def)
  then have ok: "\<exists>v. sandbox_input (env_fs sample_env) (env_split sample_env)
      (permissions (with_state sample_matrix)) (tool_id sample_reader) ?in = Ok v"
    by (simp add: sandbox_input_def sandbox_path_def json_index_def sample_env_def with_state_def
        sample_reader_def)
  from ask ok obtain why v where
    "policy_verdict sample_env (with_state sample_matrix) sample_reader ?in =
       Ask ''sensitive_file'' why"
    "sandbox_input (env_fs sample_env) (env_split sample_env)
      (permissions (with_state sample_matrix)) (tool_id sample_reader) ?in = Ok v" by blast
  from sensitive_question_skipped [OF this(1) _ _ _ _ sample_isolation this(2), of sample_isolated "[]"]
  show ?thesis
    by (simp add: sample_isolated_def verifier_gate_def gate_veto_def with_state_def sample_reader_def)
qed

end
