(* ===== verification/Tools.thy ===== *)
theory Tools
  imports HumanPlate "HOL-Library.List_Lexorder" "HOL-Library.Char_ord" "HOL-Library.Multiset"
begin

text \<open>
  Tools as the kernel sees them (\<open>zhen_tool/base.rs\<close>), tool calls (\<open>stems/action.rs\<close>) and the tool
  registry (\<open>zhen_tool/registry.rs\<close>). The registry's hash map is an association list in the order in
  which the map would be iterated; what a tool computes is not part of the registry.
\<close>

section \<open>Tools and calls\<close>

record tool_accesses =
  reads :: "path list"
  writes :: "path list"
  recursive :: bool
  all_access :: bool

definition accesses_all :: tool_accesses where
  "accesses_all = \<lparr>reads = [], writes = [], recursive = False, all_access = True\<rparr>"

definition read_only :: "path list \<Rightarrow> bool \<Rightarrow> tool_accesses" where
  "read_only rs rcsv = \<lparr>reads = rs, writes = [], recursive = rcsv, all_access = False\<rparr>"

definition write_only :: "path list \<Rightarrow> tool_accesses" where
  "write_only ws = \<lparr>reads = [], writes = ws, recursive = False, all_access = False\<rparr>"

text \<open>The declarations a tool makes: \<open>name\<close>, \<open>ceremony\<close>, \<open>is_destructive\<close> from the human plate's view,
  and per input its accesses and its target palace.\<close>

record base_tool = tool +
  accesses :: "json \<Rightarrow> tool_accesses"
  tool_palace :: "json \<Rightarrow> palace"

text \<open>A tool that overrides nothing: the trait's default methods.\<close>

definition default_tool :: "string \<Rightarrow> ceremonies_intent \<Rightarrow> base_tool" where
  "default_tool nm c =
     \<lparr>tool_id = nm, ceremony = c, is_destructive = default_is_destructive c,
      accesses = (\<lambda>_. accesses_all), tool_palace = (\<lambda>_. default_target_palace c)\<rparr>"

record tool_call =
  call_id :: string
  call_name :: string
  parameters :: json

section \<open>Registry\<close>

record tool_registry =
  tools :: "(string \<times> base_tool) list"
  external :: "string set"

definition registry_new :: tool_registry where
  "registry_new = \<lparr>tools = [], external = {}\<rparr>"

definition insert_tool :: "string \<Rightarrow> base_tool \<Rightarrow> (string \<times> base_tool) list \<Rightarrow> (string \<times> base_tool) list" where
  "insert_tool nm t ts = (nm, t) # filter (\<lambda>e. fst e \<noteq> nm) ts"

definition register :: "base_tool \<Rightarrow> tool_registry \<Rightarrow> tool_registry" where
  "register t r = r\<lparr>tools := insert_tool (tool_id t) t (tools r)\<rparr>"

definition register_external :: "base_tool \<Rightarrow> tool_registry \<Rightarrow> tool_registry" where
  "register_external t r =
     r\<lparr>external := insert (tool_id t) (external r), tools := insert_tool (tool_id t) t (tools r)\<rparr>"

definition is_external :: "tool_registry \<Rightarrow> string \<Rightarrow> bool" where
  "is_external r nm = (nm \<in> external r)"

definition registry_get :: "tool_registry \<Rightarrow> string \<Rightarrow> base_tool option" where
  "registry_get r nm =
     (case map_of (tools r) nm of
        Some t \<Rightarrow> Some t
      | None \<Rightarrow> map_option snd (find (\<lambda>(k, v). to_lowercase k = to_lowercase nm) (tools r)))"

definition list_names :: "tool_registry \<Rightarrow> string list" where
  "list_names r = sort (map fst (tools r))"

definition list_all_tools :: "tool_registry \<Rightarrow> base_tool list" where
  "list_all_tools r = map snd (tools r)"

definition list_core :: "tool_registry \<Rightarrow> base_tool list" where
  "list_core r = map snd (filter (\<lambda>(k, _). k \<notin> external r) (tools r))"

definition list_external :: "tool_registry \<Rightarrow> base_tool list" where
  "list_external r = map snd (filter (\<lambda>(k, _). k \<in> external r) (tools r))"

text \<open>The registry's invariant: one entry per name, under the tool's own name.\<close>

definition registry_ok :: "tool_registry \<Rightarrow> bool" where
  "registry_ok r = (distinct (map fst (tools r)) \<and> list_all (\<lambda>(k, t). k = tool_id t) (tools r))"

lemma insert_tool_lookup:
  "map_of (insert_tool nm t ts) k = (if k = nm then Some t else map_of ts k)"
  by (induction ts) (auto simp: insert_tool_def)

lemma registry_ok_new: "registry_ok registry_new"
  by (simp add: registry_ok_def registry_new_def)

lemma registry_ok_insert:
  "registry_ok r \<Longrightarrow> nm = tool_id t \<Longrightarrow> registry_ok (r\<lparr>tools := insert_tool nm t (tools r)\<rparr>)"
  by (auto simp: registry_ok_def insert_tool_def list_all_iff distinct_map_filter)

lemma registry_ok_register: "registry_ok r \<Longrightarrow> registry_ok (register t r)"
  by (simp add: register_def registry_ok_insert)

lemma registry_ok_register_external: "registry_ok r \<Longrightarrow> registry_ok (register_external t r)"
  using registry_ok_insert [of r "tool_id t" t] by (simp add: register_external_def registry_ok_def)

lemma registry_get_register:
  "registry_get (register t r) nm =
     (if nm = tool_id t then Some t
      else if map_of (tools r) nm \<noteq> None then map_of (tools r) nm
      else map_option snd (find (\<lambda>(k, v). to_lowercase k = to_lowercase nm) (tools (register t r))))"
  by (auto simp: registry_get_def register_def insert_tool_lookup split: option.splits)

text \<open>A lookup answers with a registered tool whose name agrees up to case.\<close>

lemma registry_get_name:
  assumes "registry_ok r" "registry_get r nm = Some t"
  shows "(tool_id t, t) \<in> set (tools r)" "to_lowercase (tool_id t) = to_lowercase nm"
proof -
  have id: "(k, t') \<in> set (tools r) \<Longrightarrow> k = tool_id t'" for k t'
    using assms(1) by (auto simp: registry_ok_def list_all_iff)
  have "(tool_id t, t) \<in> set (tools r) \<and> to_lowercase (tool_id t) = to_lowercase nm"
  proof (cases "map_of (tools r) nm")
    case None
    then have "find (\<lambda>(k, v). to_lowercase k = to_lowercase nm) (tools r) \<noteq> None"
      using assms(2) by (auto simp: registry_get_def)
    then obtain k where "find (\<lambda>(k, v). to_lowercase k = to_lowercase nm) (tools r) = Some (k, t)"
      using None assms(2) by (auto simp: registry_get_def)
    from find_SomeD [OF this] have "(k, t) \<in> set (tools r)" "to_lowercase k = to_lowercase nm"
      by simp_all
    then show ?thesis
      using id [of k t] by simp_all
  next
    case (Some t')
    then have "(nm, t) \<in> set (tools r)" using assms(2) by (auto simp: registry_get_def map_of_SomeD)
    then show ?thesis
      using id [of nm t] by simp
  qed
  then show "(tool_id t, t) \<in> set (tools r)" "to_lowercase (tool_id t) = to_lowercase nm"
    by simp_all
qed

lemma registry_get_None:
  "registry_get r nm = None \<longleftrightarrow> list_all (\<lambda>(k, _). to_lowercase k \<noteq> to_lowercase nm) (tools r)"
proof (cases "map_of (tools r) nm")
  case None
  then show ?thesis
    by (auto simp: registry_get_def find_None_iff list_all_iff)
next
  case (Some t)
  from map_of_SomeD [OF this] have "(nm, t) \<in> set (tools r)" .
  then show ?thesis using Some by (auto simp: registry_get_def list_all_iff)
qed

lemma core_external_split:
  "mset (map snd (filter (\<lambda>(k, _). k \<notin> E) ts)) + mset (map snd (filter (\<lambda>(k, _). k \<in> E) ts)) =
     mset (map snd ts)"
  by (induction ts) auto

text \<open>The registry is a map from names to tools. Registration keeps one entry per name; a lookup
  by the exact name returns the last tool registered under it, other exact names keep theirs; core
  and external tools partition the listing; and a lookup fails only if no registered name agrees
  up to case.\<close>

theorem registry_correct:
  assumes "registry_ok r"
  shows "registry_ok (register t r) \<and> registry_ok (register_external t r) \<and>
    registry_get (register t r) (tool_id t) = Some t \<and>
    registry_get (register_external t r) (tool_id t) = Some t \<and>
    is_external (register_external t r) (tool_id t) \<and>
    (\<forall>nm t'. nm \<noteq> tool_id t \<longrightarrow> map_of (tools r) nm = Some t' \<longrightarrow>
       registry_get (register t r) nm = Some t') \<and>
    mset (list_core r) + mset (list_external r) = mset (list_all_tools r) \<and>
    (registry_get r nm = None \<longleftrightarrow>
       list_all (\<lambda>(k, _). to_lowercase k \<noteq> to_lowercase nm) (tools r))"
proof (intro conjI)
  show "registry_get (register_external t r) (tool_id t) = Some t"
    by (simp add: registry_get_def register_external_def insert_tool_lookup)
  show "mset (list_core r) + mset (list_external r) = mset (list_all_tools r)"
    unfolding list_core_def list_external_def list_all_tools_def by (rule core_external_split)
  show "registry_ok (register_external t r)" using assms by (rule registry_ok_register_external)
qed (use assms in \<open>simp_all add: registry_ok_register registry_get_register registry_get_None
    is_external_def register_external_def\<close>)

theorem registry_correct_witness:
  "registry_get (register (default_tool ''shell'' CGeng) registry_new) ''shell'' =
     Some (default_tool ''shell'' CGeng)"
  using registry_correct [OF registry_ok_new, of "default_tool ''shell'' CGeng" "[]"]
  by (simp add: default_tool_def)

end
