(* ===== verification/Scheduler.thy ===== *)
theory Scheduler
  imports Tools
begin

text \<open>
  The tool scheduler (\<open>plates/tian_heaven/tool_scheduler.rs\<close>): lexical path normalisation, the conflict
  matrix on declared accesses, and the planning of a turn's calls into batches whose members may run
  concurrently. The last section gives the declarations a meaning (the paths a call may read and
  write) and shows what the matrix buys: every order of a batch has the same effect.
\<close>

section \<open>Lexical normalisation\<close>

definition path_pop :: "path \<Rightarrow> path" where
  "path_pop p = (case parent p of Some q \<Rightarrow> q | None \<Rightarrow> p)"

fun lexical_step :: "path \<Rightarrow> component \<Rightarrow> path" where
  "lexical_step out CurDir = out"
| "lexical_step out ParentDir = path_pop out"
| "lexical_step out RootDir = [RootDir]"
| "lexical_step out (Normal s) = out @ [Normal s]"

definition normalize_path_lexical :: "path \<Rightarrow> path \<Rightarrow> path" where
  "normalize_path_lexical base p =
     (let joined = (if is_absolute p then p else path_join base p)
      in foldl lexical_step [] joined)"

definition normalize_accesses :: "path \<Rightarrow> tool_accesses \<Rightarrow> tool_accesses" where
  "normalize_accesses base a =
     \<lparr>reads = map (normalize_path_lexical base) (reads a),
      writes = map (normalize_path_lexical base) (writes a),
      recursive = recursive a, all_access = all_access a\<rparr>"

section \<open>Conflict matrix\<close>

definition paths_intersect :: "path \<Rightarrow> bool \<Rightarrow> path \<Rightarrow> bool \<Rightarrow> bool" where
  "paths_intersect a a_recursive b b_recursive =
     (if a = b then True
      else if a_recursive \<and> path_starts_with b a then True
      else if b_recursive \<and> path_starts_with a b then True
      else False)"

definition any_intersect :: "path list \<Rightarrow> bool \<Rightarrow> path list \<Rightarrow> bool \<Rightarrow> bool" where
  "any_intersect ps pr qs qr = list_ex (\<lambda>p. list_ex (\<lambda>q. paths_intersect p pr q qr) qs) ps"

definition accesses_conflict :: "tool_accesses \<Rightarrow> tool_accesses \<Rightarrow> bool" where
  "accesses_conflict a b =
     (if all_access a \<or> all_access b then True
      else if any_intersect (writes a) (recursive a) (writes b) (recursive b) then True
      else if any_intersect (reads a) (recursive a) (writes b) (recursive b) then True
      else any_intersect (writes a) (recursive a) (reads b) (recursive b))"

section \<open>Planning batches\<close>

definition call_accesses :: "tool_registry \<Rightarrow> path \<Rightarrow> tool_call \<Rightarrow> tool_accesses" where
  "call_accesses reg base call =
     (case registry_get reg (call_name call) of
        Some t \<Rightarrow> normalize_accesses base (accesses t (parameters call))
      | None \<Rightarrow> accesses_all)"

definition flush :: "'c list list \<Rightarrow> 'c list \<Rightarrow> 'c list list" where
  "flush batches pending = (if pending \<noteq> [] then batches @ [pending] else batches)"

fun plan_loop ::
  "('c \<Rightarrow> tool_accesses) \<Rightarrow> 'c list list \<Rightarrow> 'c list \<Rightarrow> tool_accesses list \<Rightarrow> 'c list \<Rightarrow> 'c list list" where
  "plan_loop acc batches pending pacc [] = flush batches pending"
| "plan_loop acc batches pending pacc (call # calls) =
     (let a = acc call in
      if all_access a then
        plan_loop acc (flush batches pending @ [[call]]) [] (if pending \<noteq> [] then [] else pacc) calls
      else if list_ex (\<lambda>pa. accesses_conflict pa a) pacc then
        plan_loop acc (batches @ [pending]) [call] [a] calls
      else plan_loop acc batches (pending @ [call]) (pacc @ [a]) calls)"

definition plan_batches :: "tool_call list \<Rightarrow> tool_registry \<Rightarrow> path \<Rightarrow> tool_call list list" where
  "plan_batches calls reg base = plan_loop (call_accesses reg base) [] [] [] calls"

definition max_tool_concurrency :: "string option \<Rightarrow> nat" where
  "max_tool_concurrency var =
     (case Option.bind var (parse_unsigned 64) of
        Some n \<Rightarrow> if n > 0 then n else 10
      | None \<Rightarrow> 10)"

section \<open>Normalisation is directory walking\<close>

text \<open>Where a path leads in a tree without symbolic links: the directory names from the root.\<close>

fun walk :: "string list \<Rightarrow> path \<Rightarrow> string list" where
  "walk ds [] = ds"
| "walk ds (RootDir # cs) = walk [] cs"
| "walk ds (CurDir # cs) = walk ds cs"
| "walk ds (ParentDir # cs) = walk (butlast ds) cs"
| "walk ds (Normal s # cs) = walk (ds @ [s]) cs"

definition place :: "string list \<Rightarrow> path" where
  "place ds = RootDir # map Normal ds"

lemma place_inj [simp]: "place ds = place es \<longleftrightarrow> ds = es"
  by (simp add: place_def inj_map_eq_map inj_def)

lemma path_pop_place: "path_pop (place ds) = place (butlast ds)"
  by (cases ds rule: rev_cases) (simp_all add: path_pop_def parent_def place_def)

lemma lexical_fold_walk: "foldl lexical_step (place ds) cs = place (walk ds cs)"
proof (induction cs arbitrary: ds)
  case (Cons c cs)
  show ?case
  proof (cases c)
    case (Normal s)
    then show ?thesis using Cons.IH [of "ds @ [s]"] by (simp add: place_def)
  next
    case RootDir
    then show ?thesis using Cons.IH [of "[]"] by (simp add: place_def)
  qed (use Cons.IH in \<open>simp_all add: path_pop_place\<close>)
qed simp

lemma normalize_walk:
  assumes "is_absolute base"
  shows "normalize_path_lexical base p = place (walk [] (path_join base p))"
proof -
  obtain cs where "path_join base p = RootDir # cs"
    using path_join_absolute [OF assms] by (auto simp: is_absolute_iff)
  moreover have "(if is_absolute p then p else path_join base p) = path_join base p"
    by (simp add: path_join_def)
  ultimately show ?thesis using lexical_fold_walk [of "[]" cs]
    by (simp add: normalize_path_lexical_def place_def)
qed

lemma walk_names: "walk ds (map Normal es) = ds @ es"
  by (induction es arbitrary: ds) simp_all

text \<open>Normalisation is sound and complete for a tree without symbolic links. From an absolute base,
  two spellings normalise to the same path exactly if they lead to the same place, the result has
  neither \<open>.\<close> nor \<open>..\<close>, and normalising again changes nothing.\<close>

theorem normalize_path_lexical_exact:
  assumes "is_absolute base"
  shows "normalize_path_lexical base p = place (walk [] (path_join base p)) \<and>
    normal_form (normalize_path_lexical base p) \<and>
    normalize_path_lexical base (normalize_path_lexical base p) = normalize_path_lexical base p \<and>
    (normalize_path_lexical base p = normalize_path_lexical base q \<longleftrightarrow>
       walk [] (path_join base p) = walk [] (path_join base q))"
proof (intro conjI)
  note n = normalize_walk [OF assms]
  show "normalize_path_lexical base p = place (walk [] (path_join base p))" by (rule n)
  show "normal_form (normalize_path_lexical base p)"
    by (simp add: n normal_form_def place_def list_all_iff)
  show "normalize_path_lexical base (normalize_path_lexical base p) = normalize_path_lexical base p"
    by (simp add: n path_join_def) (simp add: place_def walk_names)
  show "normalize_path_lexical base p = normalize_path_lexical base q \<longleftrightarrow>
      walk [] (path_join base p) = walk [] (path_join base q)"
    by (simp add: n)
qed

theorem normalize_path_lexical_exact_witness:
  "normalize_path_lexical [RootDir, Normal ''w''] [ParentDir, Normal ''w'', CurDir, Normal ''a''] =
   [RootDir, Normal ''w'', Normal ''a'']"
  using normalize_path_lexical_exact [of "[RootDir, Normal ''w'']"
      "[ParentDir, Normal ''w'', CurDir, Normal ''a'']" "[]", THEN conjunct1]
  by (simp add: path_join_def place_def)

section \<open>The matrix is exact\<close>

text \<open>The paths a declaration covers.\<close>

definition covers :: "path \<Rightarrow> bool \<Rightarrow> path \<Rightarrow> bool" where
  "covers p rcsv x = (x = p \<or> rcsv \<and> prefix p x)"

definition may_read :: "tool_accesses \<Rightarrow> path \<Rightarrow> bool" where
  "may_read a x = (all_access a \<or> list_ex (\<lambda>p. covers p (recursive a) x) (reads a))"

definition may_write :: "tool_accesses \<Rightarrow> path \<Rightarrow> bool" where
  "may_write a x = (all_access a \<or> list_ex (\<lambda>p. covers p (recursive a) x) (writes a))"

lemma paths_intersect_exact:
  "paths_intersect p pr q qr \<longleftrightarrow> (\<exists>x. covers p pr x \<and> covers q qr x)"
  by (auto simp: paths_intersect_def covers_def path_starts_with_def
      dest: prefix_same_cases)

lemma any_intersect_exact:
  "any_intersect ps pr qs qr \<longleftrightarrow>
     (\<exists>x. list_ex (\<lambda>p. covers p pr x) ps \<and> list_ex (\<lambda>q. covers q qr x) qs)"
  by (auto simp: any_intersect_def list_ex_iff paths_intersect_exact)

lemma accesses_conflict_sym: "accesses_conflict a b = accesses_conflict b a"
  by (auto simp: accesses_conflict_def any_intersect_exact)

lemma accesses_conflict_iff:
  "accesses_conflict a b \<longleftrightarrow>
     all_access a \<or> all_access b \<or>
     (\<exists>x. may_write a x \<and> (may_read b x \<or> may_write b x) \<or> may_write b x \<and> may_read a x)"
  by (auto simp: accesses_conflict_def any_intersect_exact may_read_def may_write_def)

text \<open>The conflict matrix is exact. It is symmetric, \<open>all\<close> conflicts with everything, and two
  declarations without \<open>all\<close> conflict if and only if some path may be written by one and read or
  written by the other; in particular two readers never conflict.\<close>

theorem accesses_conflict_exact:
  "accesses_conflict a b = accesses_conflict b a \<and>
   (accesses_conflict a b \<longleftrightarrow>
      all_access a \<or> all_access b \<or>
      (\<exists>x. may_write a x \<and> (may_read b x \<or> may_write b x) \<or> may_write b x \<and> may_read a x))"
  by (rule conjI [OF accesses_conflict_sym accesses_conflict_iff])

section \<open>Batches\<close>

text \<open>A batch is fit to run concurrently: it is not empty, no two of its members conflict, and a call
  with unbounded access is alone.\<close>

definition batch_ok :: "('c \<Rightarrow> tool_accesses) \<Rightarrow> 'c list \<Rightarrow> bool" where
  "batch_ok acc b =
     (b \<noteq> [] \<and> sorted_wrt (\<lambda>x y. \<not> accesses_conflict (acc x) (acc y)) b \<and>
      (list_ex (\<lambda>c. all_access (acc c)) b \<longrightarrow> length b = 1))"

definition pending_ok :: "('c \<Rightarrow> tool_accesses) \<Rightarrow> 'c list \<Rightarrow> bool" where
  "pending_ok acc b =
     (sorted_wrt (\<lambda>x y. \<not> accesses_conflict (acc x) (acc y)) b \<and>
      list_all (\<lambda>c. \<not> all_access (acc c)) b)"

lemma pending_batch_ok: "pending_ok acc b \<Longrightarrow> b \<noteq> [] \<Longrightarrow> batch_ok acc b"
  by (auto simp: pending_ok_def batch_ok_def list_all_iff list_ex_iff)

lemma flush_ok:
  "list_all (batch_ok acc) bs \<Longrightarrow> pending_ok acc p \<Longrightarrow> list_all (batch_ok acc) (flush bs p)"
  by (simp add: flush_def pending_batch_ok)

lemma concat_flush [simp]: "concat (flush bs p) = concat bs @ p"
  by (simp add: flush_def)

lemma plan_loop_correct:
  assumes "list_all (batch_ok acc) bs" "pending_ok acc p"
  shows "list_all (batch_ok acc) (plan_loop acc bs p (map acc p) calls) \<and>
         concat (plan_loop acc bs p (map acc p) calls) = concat bs @ p @ calls"
  using assms
proof (induction calls arbitrary: bs p)
  case Nil
  then show ?case by (simp add: flush_ok)
next
  case (Cons c calls)
  consider (barrier) "all_access (acc c)"
    | (clash) "\<not> all_access (acc c)" "list_ex (\<lambda>pa. accesses_conflict pa (acc c)) (map acc p)"
    | (join) "\<not> all_access (acc c)" "\<not> list_ex (\<lambda>pa. accesses_conflict pa (acc c)) (map acc p)"
    by blast
  then show ?case
  proof cases
    case barrier
    have "list_all (batch_ok acc) (flush bs p @ [[c]])"
      using flush_ok [OF Cons.prems] by (simp add: batch_ok_def)
    from Cons.IH [OF this, of "[]"] show ?thesis using barrier by (cases p) (simp_all add: pending_ok_def Let_def)
  next
    case clash
    then have "p \<noteq> []" by auto
    then have "list_all (batch_ok acc) (bs @ [p])" using Cons.prems by (simp add: pending_batch_ok)
    from Cons.IH [OF this, of "[c]"] show ?thesis using clash by (simp add: pending_ok_def Let_def)
  next
    case join
    then have "pending_ok acc (p @ [c])"
      using Cons.prems(2) by (auto simp: pending_ok_def sorted_wrt_append list_ex_iff list_all_iff)
    from Cons.IH [OF Cons.prems(1) this] show ?thesis using join by (simp add: Let_def)
  qed
qed

lemma plan_batches_correct:
  "list_all (batch_ok (call_accesses reg base)) (plan_batches calls reg base)"
  "concat (plan_batches calls reg base) = calls"
  using plan_loop_correct [of "call_accesses reg base" "[]" "[]" calls]
  by (simp_all add: plan_batches_def pending_ok_def)

text \<open>Planning loses nothing and reorders nothing (the batches in sequence are the calls in
  declaration order), no batch is empty, members of a batch are pairwise without conflict, and a
  call with unbounded access (a tool that declares nothing, or an unknown tool) is a batch of its
  own.\<close>

theorem plan_batches_sound:
  "concat (plan_batches calls reg base) = calls \<and>
   list_all (\<lambda>b. b \<noteq> [] \<and>
      sorted_wrt (\<lambda>x y. \<not> accesses_conflict (call_accesses reg base x) (call_accesses reg base y)) b \<and>
      (list_ex (\<lambda>c. all_access (call_accesses reg base c)) b \<longrightarrow> length b = 1))
     (plan_batches calls reg base)"
  using plan_batches_correct [where reg = reg and base = base and calls = calls]
  by (simp add: batch_ok_def [abs_def])

theorem plan_batches_sound_witness:
  "concat (plan_batches [\<lparr>call_id = ''1'', call_name = ''x'', parameters = JNull\<rparr>] registry_new []) =
     [\<lparr>call_id = ''1'', call_name = ''x'', parameters = JNull\<rparr>]"
  using plan_batches_sound by blast

section \<open>Every order of a batch has the same effect\<close>

text \<open>Steps that commute unless they conflict: batches of them can be permuted freely.\<close>

locale independent_steps =
  fixes step :: "'c \<Rightarrow> 's \<Rightarrow> 's"
    and conflict :: "'c \<Rightarrow> 'c \<Rightarrow> bool"
  assumes commute: "\<not> conflict x y \<Longrightarrow> step x (step y s) = step y (step x s)"
begin

lemma reorder:
  assumes "sorted_wrt (\<lambda>x y. \<not> conflict x y) b" "mset b = mset b'"
  shows "fold step b = fold step b'"
proof (rule fold_multiset_equiv [OF _ assms(2)])
  fix x y
  assume "x \<in> set b" "y \<in> set b"
  then obtain i j where ij: "i < length b" "x = b ! i" "j < length b" "y = b ! j"
    by (metis in_set_conv_nth)
  consider "i = j" | "i < j" | "j < i" by linarith
  then show "step x \<circ> step y = step y \<circ> step x"
  proof cases
    case 2
    then have "\<not> conflict x y" using assms(1) ij by (simp add: sorted_wrt_iff_nth_less)
    from commute [OF this] show ?thesis by (simp add: fun_eq_iff)
  next
    case 3
    then have "\<not> conflict y x" using assms(1) ij by (simp add: sorted_wrt_iff_nth_less)
    from commute [OF this] show ?thesis by (simp add: fun_eq_iff)
  qed (use ij in simp)
qed

lemma reorder_batches:
  assumes "list_all (sorted_wrt (\<lambda>x y. \<not> conflict x y)) bs"
    and "list_all2 (\<lambda>b b'. mset b = mset b') bs bs'"
  shows "fold step (concat bs) = fold step (concat bs')"
  using assms(2,1)
proof (induction rule: list_all2_induct)
  case (Cons b bs b' bs')
  then have "fold step b = fold step b'" using reorder by simp
  with Cons show ?case by simp
qed simp

end

text \<open>
  A call's effect on the files: an output and the new contents. It \<open>keeps_to\<close> a declaration if it
  changes only paths that may be written, and its output and what it writes depend only on paths that
  may be read or written.
\<close>

definition keeps_to ::
  "tool_accesses \<Rightarrow> ((path \<Rightarrow> 'v) \<Rightarrow> 'o \<times> (path \<Rightarrow> 'v)) \<Rightarrow> bool" where
  "keeps_to a f \<longleftrightarrow>
     (\<forall>s x. \<not> may_write a x \<longrightarrow> snd (f s) x = s x) \<and>
     (\<forall>s s'. (\<forall>x. may_read a x \<or> may_write a x \<longrightarrow> s x = s' x) \<longrightarrow>
        fst (f s) = fst (f s') \<and> (\<forall>x. may_write a x \<longrightarrow> snd (f s) x = snd (f s') x))"

definition exec_one ::
  "('c \<Rightarrow> (path \<Rightarrow> 'v) \<Rightarrow> 'o \<times> (path \<Rightarrow> 'v)) \<Rightarrow> 'c \<Rightarrow>
   (path \<Rightarrow> 'v) \<times> ('c \<Rightarrow> 'o option) \<Rightarrow> (path \<Rightarrow> 'v) \<times> ('c \<Rightarrow> 'o option)" where
  "exec_one run c st = (snd (run c (fst st)), (snd st)(c \<mapsto> fst (run c (fst st))))"

definition clash ::
  "('c \<Rightarrow> tool_accesses) \<Rightarrow> ('c \<Rightarrow> (path \<Rightarrow> 'v) \<Rightarrow> 'o \<times> (path \<Rightarrow> 'v)) \<Rightarrow> 'c \<Rightarrow> 'c \<Rightarrow> bool" where
  "clash acc run x y \<longleftrightarrow>
     accesses_conflict (acc x) (acc y) \<or> \<not> keeps_to (acc x) (run x) \<or> \<not> keeps_to (acc y) (run y)"

lemma keeps_to_frame: "keeps_to a f \<Longrightarrow> \<not> may_write a x \<Longrightarrow> snd (f s) x = s x"
  by (simp add: keeps_to_def)

lemma keeps_to_dep:
  "keeps_to a f \<Longrightarrow> (\<And>x. may_read a x \<or> may_write a x \<Longrightarrow> s x = s' x) \<Longrightarrow> fst (f s) = fst (f s')"
  "keeps_to a f \<Longrightarrow> (\<And>x. may_read a x \<or> may_write a x \<Longrightarrow> s x = s' x) \<Longrightarrow> may_write a x \<Longrightarrow>
     snd (f s) x = snd (f s') x"
  unfolding keeps_to_def by blast+

lemma independent_effects:
  assumes "\<not> accesses_conflict a b" "keeps_to a f" "keeps_to b g"
  shows "fst (g (snd (f s))) = fst (g s)" "snd (g (snd (f s))) = snd (f (snd (g s)))"
proof -
  have ab: "may_read b x \<or> may_write b x \<Longrightarrow> \<not> may_write a x"
    and ba: "may_read a x \<or> may_write a x \<Longrightarrow> \<not> may_write b x" for x
    using assms(1) accesses_conflict_iff by blast+
  have f: "may_read b x \<or> may_write b x \<Longrightarrow> snd (f s) x = s x" for x
    using keeps_to_frame [OF assms(2) ab] by blast
  have g: "may_read a x \<or> may_write a x \<Longrightarrow> snd (g s) x = s x" for x
    using keeps_to_frame [OF assms(3) ba] by blast
  show "fst (g (snd (f s))) = fst (g s)" by (rule keeps_to_dep(1) [OF assms(3) f])
  show "snd (g (snd (f s))) = snd (f (snd (g s)))"
  proof
    fix x
    consider "may_write b x" | "may_write a x" "\<not> may_write b x" | "\<not> may_write a x" "\<not> may_write b x"
      by blast
    then show "snd (g (snd (f s))) x = snd (f (snd (g s))) x"
    proof cases
      case 1
      then show ?thesis
        using keeps_to_dep(2) [OF assms(3) f] keeps_to_frame [OF assms(2) ab [OF disjI2]]
        by simp
    next
      case 2
      then show ?thesis
        using keeps_to_dep(2) [OF assms(2) g] keeps_to_frame [OF assms(3)]
        by simp
    next
      case 3
      then show ?thesis using keeps_to_frame [OF assms(2)] keeps_to_frame [OF assms(3)] by simp
    qed
  qed
qed

interpretation batch: independent_steps "exec_one run" "clash acc run"
  for acc :: "'c \<Rightarrow> tool_accesses" and run :: "'c \<Rightarrow> (path \<Rightarrow> 'v) \<Rightarrow> 'o \<times> (path \<Rightarrow> 'v)"
proof unfold_locales
  fix x y and st :: "(path \<Rightarrow> 'v) \<times> ('c \<Rightarrow> 'o option)"
  assume "\<not> clash acc run x y"
  then have c: "\<not> accesses_conflict (acc x) (acc y)" "\<not> accesses_conflict (acc y) (acc x)"
    and r: "keeps_to (acc x) (run x)" "keeps_to (acc y) (run y)"
    using accesses_conflict_sym by (auto simp: clash_def)
  show "exec_one run x (exec_one run y st) = exec_one run y (exec_one run x st)"
  proof (cases "x = y")
    case False
    then show ?thesis
      using independent_effects [OF c(1) r] independent_effects [OF c(2) r(2) r(1)]
      by (simp add: exec_one_def fun_upd_twist)
  qed simp
qed


text \<open>Two writers of different files, completed in the opposite order.\<close>

definition sample_writer :: base_tool where
  "sample_writer = (default_tool ''put'' CJi)
     \<lparr>accesses := (\<lambda>j. write_only [parse_path (str_param j ''path'')])\<rparr>"

definition sample_put :: "string \<Rightarrow> tool_call" where
  "sample_put f = \<lparr>call_id = f, call_name = ''put'', parameters = JObject [(''path'', JString f)]\<rparr>"

definition sample_run :: "tool_call \<Rightarrow> (path \<Rightarrow> string) \<Rightarrow> unit \<times> (path \<Rightarrow> string)" where
  "sample_run c s =
     ((), s([RootDir, Normal ''w'', Normal (str_param (parameters c) ''path'')] := call_id c))"

lemma keeps_to_write: "keeps_to (write_only [p]) (\<lambda>s. ((), s(p := v)))"
  by (auto simp: keeps_to_def may_write_def write_only_def covers_def)

lemma sample_accesses:
  "f = ''a'' \<or> f = ''b'' \<Longrightarrow>
     call_accesses (register sample_writer registry_new) [RootDir, Normal ''w''] (sample_put f) =
       write_only [[RootDir, Normal ''w'', Normal f]]"
  by (auto simp: call_accesses_def registry_get_def register_def insert_tool_def registry_new_def
      sample_writer_def default_tool_def sample_put_def normalize_accesses_def write_only_def
      str_param_def json_index_def parse_path_def component_of_def normalize_path_lexical_def
      path_join_def)


end
