(* ===== verification/Hooks.thy ===== *)
theory Hooks
  imports GeJu Floats
begin

text \<open>
  Hooks. User hooks (\<open>stems/hooks.rs\<close>) are shell commands run before a tool call, which can block it.
  Spirit hooks (\<open>plates/shen_spirit/hook.rs\<close>) are registered objects, ordered by priority, that observe
  events; a blocking one can cancel a call. Compiling a regular expression, matching a glob, running
  \<open>sh -c\<close> and a hook's own code are parameters.
\<close>

section \<open>User hooks\<close>

datatype user_hook_event = PreToolUse | PostToolUse

record hook_config =
  cfg_event :: string
  cfg_tool_pattern :: "string option"
  cfg_command :: string
  cfg_block_on_exit :: bool

record compiled_hook =
  hk_event :: user_hook_event
  hk_tool_pattern :: "(string \<Rightarrow> bool) option"
  hk_command :: string
  hk_block_on_exit :: bool

datatype hook_config_error = UnknownHookEvent string | BadToolPattern string

definition compile_hook ::
  "(string \<Rightarrow> (string \<Rightarrow> bool) option) \<Rightarrow> hook_config \<Rightarrow> (hook_config_error, compiled_hook) result" where
  "compile_hook regex cfg =
     (let event = (if cfg_event cfg = ''pre_tool_use'' then Ok PreToolUse
                   else if cfg_event cfg = ''post_tool_use'' then Ok PostToolUse
                   else Err (UnknownHookEvent (cfg_event cfg)));
          finish = (\<lambda>ev pat. Ok \<lparr>hk_event = ev, hk_tool_pattern = pat, hk_command = cfg_command cfg,
                                  hk_block_on_exit = cfg_block_on_exit cfg\<rparr>)
      in case event of
           Inl e \<Rightarrow> Err e
         | Inr ev \<Rightarrow>
             (case cfg_tool_pattern cfg of
                None \<Rightarrow> finish ev None
              | Some p \<Rightarrow>
                  (if p = [] then finish ev None
                   else (case regex p of
                           None \<Rightarrow> Err (BadToolPattern p)
                         | Some f \<Rightarrow> finish ev (Some f)))))"

definition matches_tool :: "compiled_hook \<Rightarrow> string \<Rightarrow> bool" where
  "matches_tool h nm = (case hk_tool_pattern h of Some p \<Rightarrow> p nm | None \<Rightarrow> True)"

text \<open>What running \<open>sh -c command\<close> comes to: an exit status, a failed spawn, or a failed join.\<close>

datatype shell_exit = Exited bool | SpawnFailed | JoinFailed

datatype hook_block = HookJoinError | HookBlocked string string

fun run_pre_tool_hooks ::
  "(string \<Rightarrow> string \<Rightarrow> json \<Rightarrow> shell_exit) \<Rightarrow> compiled_hook list \<Rightarrow> string \<Rightarrow> json \<Rightarrow>
   (hook_block, unit) result" where
  "run_pre_tool_hooks sh [] nm input = Ok ()"
| "run_pre_tool_hooks sh (h # hs) nm input =
     (if hk_event h \<noteq> PreToolUse \<or> \<not> matches_tool h nm then run_pre_tool_hooks sh hs nm input
      else (case sh (hk_command h) nm input of
              JoinFailed \<Rightarrow> Err HookJoinError
            | status \<Rightarrow>
                (let success = (case status of Exited ok \<Rightarrow> ok | _ \<Rightarrow> True) in
                 if hk_block_on_exit h \<and> \<not> success then Err (HookBlocked nm (hk_command h))
                 else run_pre_tool_hooks sh hs nm input)))"

text \<open>The hooks that decide: pre-tool hooks for this tool.\<close>

definition deciding :: "string \<Rightarrow> compiled_hook \<Rightarrow> bool" where
  "deciding nm h = (hk_event h = PreToolUse \<and> matches_tool h nm)"

lemma run_pre_tool_hooks_Ok:
  "run_pre_tool_hooks sh hs nm input = Ok () \<longleftrightarrow>
     list_all (\<lambda>h. deciding nm h \<longrightarrow>
        sh (hk_command h) nm input \<noteq> JoinFailed \<and>
        (hk_block_on_exit h \<longrightarrow> sh (hk_command h) nm input \<noteq> Exited False)) hs"
  by (induction hs) (auto simp: deciding_def Let_def split: shell_exit.split)

text \<open>User hooks gate exactly as documented. A call passes if and only if no pre-tool hook that
  matches the tool and is configured to block exits with failure (and the runtime can join every
  hook it starts); a hook that cannot be started, an observing hook and a hook for another tool
  never block.\<close>

theorem user_hooks_gate:
  "run_pre_tool_hooks sh hs nm input = Ok () \<longleftrightarrow>
     \<not> list_ex (\<lambda>h. deciding nm h \<and>
         (sh (hk_command h) nm input = JoinFailed \<or>
          hk_block_on_exit h \<and> sh (hk_command h) nm input = Exited False)) hs"
  unfolding run_pre_tool_hooks_Ok by (auto simp: list_all_iff list_ex_iff)

section \<open>Spirit hooks\<close>

datatype spirit_type = ZhiFu | TengShe | TaiYin | LiuHe | BaiHu | XuanWu | JiuDi | JiuTian

datatype hook_event =
  LlmResponse nat nat "real option"
| ToolPreExecute string json
| ToolPostExecute string string "string option" nat
| BatchEnded nat nat "string option"
| CompactionTriggered nat nat nat nat string

datatype hook_result = HookOk | Cancel string | HookPanicked

record spirit_hook =
  sp_name :: string
  sp_priority :: int
  sp_types :: "spirit_type list"
  sp_matcher :: "string option"
  sp_block_on_failure :: bool
  sp_on_event :: "hook_event \<Rightarrow> hook_result"

type_synonym hook_registry = "spirit_hook list"

definition register_hook :: "spirit_hook \<Rightarrow> hook_registry \<Rightarrow> hook_registry" where
  "register_hook h hooks = sort_key (\<lambda>h. - sp_priority h) (hooks @ [h])"

definition remove_hook :: "string \<Rightarrow> hook_registry \<Rightarrow> hook_registry" where
  "remove_hook nm hooks = filter (\<lambda>h. sp_name h \<noteq> nm) hooks"

definition by_spirit_type :: "spirit_type \<Rightarrow> hook_registry \<Rightarrow> spirit_hook list" where
  "by_spirit_type st hooks = filter (\<lambda>h. st \<in> set (sp_types h)) hooks"

definition event_matches_matcher ::
  "(string \<Rightarrow> (string \<Rightarrow> bool) option) \<Rightarrow> spirit_hook \<Rightarrow> hook_event \<Rightarrow> bool" where
  "event_matches_matcher glob h ev =
     (case sp_matcher h of
        None \<Rightarrow> True
      | Some g \<Rightarrow>
          (let check = (\<lambda>nm. case glob g of Some f \<Rightarrow> f nm | None \<Rightarrow> False) in
           case ev of
             ToolPreExecute nm _ \<Rightarrow> check nm
           | ToolPostExecute nm _ _ _ \<Rightarrow> check nm
           | _ \<Rightarrow> True))"

definition geju_gate_and_collect ::
  "(string \<Rightarrow> (string \<Rightarrow> bool) option) \<Rightarrow> hook_registry \<Rightarrow> spirit_type \<Rightarrow> stem \<Rightarrow> hook_event \<Rightarrow>
   geju_result \<times> spirit_hook list" where
  "geju_gate_and_collect glob hooks st earth ev =
     (let result = evaluate (geju_new Ding earth) in
      if execution_mode result = Denied then (result, [])
      else (result, filter (\<lambda>h. event_matches_matcher glob h ev) (by_spirit_type st hooks)))"

text \<open>Void hooks are started and forgotten: the hooks that are started, in order.\<close>

definition fire_void_hooks ::
  "(string \<Rightarrow> (string \<Rightarrow> bool) option) \<Rightarrow> hook_registry \<Rightarrow> spirit_type \<Rightarrow> stem \<Rightarrow> hook_event \<Rightarrow>
   spirit_hook list" where
  "fire_void_hooks glob hooks st earth ev = snd (geju_gate_and_collect glob hooks st earth ev)"

text \<open>Guarding hooks: a blocking hook is awaited, any other is started and forgotten.\<close>

fun guard_loop :: "hook_event \<Rightarrow> spirit_hook list \<Rightarrow> string option \<times> spirit_hook list" where
  "guard_loop ev [] = (None, [])"
| "guard_loop ev (h # hs) =
     (if \<not> sp_block_on_failure h then
        (case guard_loop ev hs of (r, fired) \<Rightarrow> (r, h # fired))
      else (case sp_on_event h ev of
              Cancel reason \<Rightarrow> (Some reason, [h])
            | _ \<Rightarrow> (case guard_loop ev hs of (r, fired) \<Rightarrow> (r, h # fired))))"

definition fire_guarding_hooks ::
  "(string \<Rightarrow> (string \<Rightarrow> bool) option) \<Rightarrow> hook_registry \<Rightarrow> spirit_type \<Rightarrow> stem \<Rightarrow> hook_event \<Rightarrow>
   string option \<times> spirit_hook list" where
  "fire_guarding_hooks glob hooks st earth ev =
     guard_loop ev (snd (geju_gate_and_collect glob hooks st earth ev))"

lemma hooks_never_denied: "execution_mode (evaluate (geju_new Ding earth)) \<noteq> Denied"
  by (simp add: evaluate_Denied_new)

lemma collected_hooks:
  "snd (geju_gate_and_collect glob hooks st earth ev) =
     filter (\<lambda>h. st \<in> set (sp_types h) \<and> event_matches_matcher glob h ev) hooks"
  by (auto simp: geju_gate_and_collect_def hooks_never_denied by_spirit_type_def Let_def
      intro: filter_cong)

text \<open>The registry's invariant: descending priority.\<close>

definition by_priority :: "hook_registry \<Rightarrow> bool" where
  "by_priority hooks = sorted_wrt (\<lambda>h h'. sp_priority h' \<le> sp_priority h) hooks"

lemma by_priority_sorted: "by_priority hooks \<longleftrightarrow> sorted (map (\<lambda>h. - sp_priority h) hooks)"
  by (simp add: by_priority_def sorted_map)

lemma by_priority_Nil: "by_priority []"
  by (simp add: by_priority_def)

lemma by_priority_register: "by_priority (register_hook h hooks)"
  by (simp add: by_priority_sorted register_hook_def)

lemma by_priority_remove: "by_priority hooks \<Longrightarrow> by_priority (remove_hook nm hooks)"
  by (simp add: by_priority_def remove_hook_def sorted_wrt_filter)

lemma guard_loop_decides:
  "fst (guard_loop ev hs) =
     (case find (\<lambda>h. sp_block_on_failure h \<and> (\<exists>r. sp_on_event h ev = Cancel r)) hs of
        None \<Rightarrow> None
      | Some h \<Rightarrow> (case sp_on_event h ev of Cancel r \<Rightarrow> Some r | _ \<Rightarrow> None))"
  by (induction hs) (auto split: hook_result.splits prod.splits)

lemma guard_loop_fired_prefix: "prefix (snd (guard_loop ev hs)) hs"
  by (induction hs) (auto split: hook_result.splits prod.splits)

definition register_hooks :: "spirit_hook list \<Rightarrow> hook_registry" where
  "register_hooks hs = fold register_hook hs []"

lemma register_hook_filter:
  "filter (\<lambda>x. sp_priority x = k) (register_hook h hooks) =
     filter (\<lambda>x. sp_priority x = k) (hooks @ [h])"
proof -
  have "filter (\<lambda>x. sp_priority x = k) (sort_key (\<lambda>h. - sp_priority h) xs) =
      filter (\<lambda>x. sp_priority x = k) xs" for xs
    using sort_key_stable [of "\<lambda>h. - sp_priority h" "- k" xs] by simp
  then show ?thesis by (simp only: register_hook_def)
qed

text \<open>Guarding hooks decide by priority. However hooks were registered, the registry lists them by
  descending priority and hooks of equal priority in registration order; a call is cancelled exactly
  with the reason of the first matching blocking hook that cancels, the hooks fired are a prefix of
  the matching ones, a panicking or non-blocking hook never cancels, and the geju gate in front
  of the hooks (heaven stem \<open>Ding\<close>) never disables them.\<close>

theorem guarding_hooks_decide:
  "by_priority (register_hooks hs) \<and>
   filter (\<lambda>h. sp_priority h = k) (register_hooks hs) = filter (\<lambda>h. sp_priority h = k) hs \<and>
   fst (fire_guarding_hooks glob hooks st earth ev) =
     (case find (\<lambda>h. st \<in> set (sp_types h) \<and> event_matches_matcher glob h ev \<and>
               sp_block_on_failure h \<and> (\<exists>r. sp_on_event h ev = Cancel r)) hooks of
        None \<Rightarrow> None
      | Some h \<Rightarrow> (case sp_on_event h ev of Cancel r \<Rightarrow> Some r | _ \<Rightarrow> None)) \<and>
   prefix (snd (fire_guarding_hooks glob hooks st earth ev))
     (filter (\<lambda>h. st \<in> set (sp_types h) \<and> event_matches_matcher glob h ev) hooks)"
proof (intro conjI)
  show "by_priority (register_hooks hs)"
    by (cases hs rule: rev_cases) (simp_all add: register_hooks_def by_priority_register by_priority_Nil)
  show "filter (\<lambda>h. sp_priority h = k) (register_hooks hs) = filter (\<lambda>h. sp_priority h = k) hs"
    by (induction hs rule: rev_induct) (simp_all add: register_hooks_def register_hook_filter)
  have find_filter: "find P (filter Q xs) = find (\<lambda>x. Q x \<and> P x) xs" for P Q and xs :: "'x list"
    by (induction xs) auto
  show "fst (fire_guarding_hooks glob hooks st earth ev) =
     (case find (\<lambda>h. st \<in> set (sp_types h) \<and> event_matches_matcher glob h ev \<and>
               sp_block_on_failure h \<and> (\<exists>r. sp_on_event h ev = Cancel r)) hooks of
        None \<Rightarrow> None
      | Some h \<Rightarrow> (case sp_on_event h ev of Cancel r \<Rightarrow> Some r | _ \<Rightarrow> None))"
    unfolding fire_guarding_hooks_def collected_hooks guard_loop_decides find_filter
    by (simp add: conj_assoc)
  show "prefix (snd (fire_guarding_hooks glob hooks st earth ev))
     (filter (\<lambda>h. st \<in> set (sp_types h) \<and> event_matches_matcher glob h ev) hooks)"
    unfolding fire_guarding_hooks_def collected_hooks by (rule guard_loop_fired_prefix)
qed

end
