(* ===== verification/Mano.thy ===== *)
theory Mano
  imports Stems Floats
begin

text \<open>
  Working memory (\<open>vijnana/mano/mod.rs\<close>): the bounded buffer of turn snapshots.
\<close>

record turn_snapshot =
  turn_number :: nat
  intent_stem :: stem
  target_palace :: palace
  geju_name :: string
  snap_execution_mode :: string
  tool_name :: string
  tool_input :: json
  tool_output :: string
  tool_error :: "string option"
  timestamp :: int
  certainty :: "real option"
  active_seed_ids :: "string list"
  tool_count :: nat

record working_memory =
  snapshots :: "turn_snapshot list"
  max_snapshots :: nat

definition wm_new :: "nat \<Rightarrow> working_memory" where
  "wm_new cap = \<lparr>snapshots = [], max_snapshots = cap\<rparr>"

text \<open>
  \<open>remove(0)\<close> panics on an empty buffer; recording into a memory of capacity zero is that case.
\<close>

definition record_snapshot :: "working_memory \<Rightarrow> turn_snapshot \<Rightarrow> working_memory option" where
  "record_snapshot wm s =
     (if max_snapshots wm \<le> length (snapshots wm) then
        (case snapshots wm of
           [] \<Rightarrow> None
         | _ # rest \<Rightarrow> Some (wm\<lparr>snapshots := rest @ [s]\<rparr>))
      else Some (wm\<lparr>snapshots := snapshots wm @ [s]\<rparr>))"

definition wm_len :: "working_memory \<Rightarrow> nat" where
  "wm_len wm = length (snapshots wm)"

definition wm_is_empty :: "working_memory \<Rightarrow> bool" where
  "wm_is_empty wm = (snapshots wm = [])"

definition wm_valid :: "working_memory \<Rightarrow> bool" where
  "wm_valid wm = (0 < max_snapshots wm \<and> length (snapshots wm) \<le> max_snapshots wm)"

text \<open>On a valid memory recording never panics.\<close>

lemma record_snapshot_Some: "wm_valid wm \<Longrightarrow> \<exists>wm'. record_snapshot wm s = Some wm'"
  by (auto simp: record_snapshot_def wm_valid_def split: list.splits)

definition record_ok :: "working_memory \<Rightarrow> turn_snapshot \<Rightarrow> working_memory" where
  "record_ok wm s = (case record_snapshot wm s of Some wm' \<Rightarrow> wm' | None \<Rightarrow> wm)"

fun record_all :: "working_memory \<Rightarrow> turn_snapshot list \<Rightarrow> working_memory option" where
  "record_all wm [] = Some wm"
| "record_all wm (s # ss) =
     (case record_snapshot wm s of None \<Rightarrow> None | Some wm' \<Rightarrow> record_all wm' ss)"

lemma record_ok_contents:
  assumes "wm_valid wm"
  shows "snapshots (record_ok wm s) =
    drop (Suc (length (snapshots wm)) - max_snapshots wm) (snapshots wm @ [s])"
proof (cases "max_snapshots wm \<le> length (snapshots wm)")
  case True
  then have "length (snapshots wm) = max_snapshots wm" "snapshots wm \<noteq> []"
    using assms by (auto simp: wm_valid_def)
  then obtain x xs where "snapshots wm = x # xs" by (cases "snapshots wm") auto
  then show ?thesis
    using True \<open>length (snapshots wm) = max_snapshots wm\<close>
    by (auto simp: record_ok_def record_snapshot_def Suc_diff_le)
next
  case False
  then show ?thesis by (auto simp: record_ok_def record_snapshot_def)
qed

lemma record_ok_capacity: "max_snapshots (record_ok wm s) = max_snapshots wm"
  by (auto simp: record_ok_def record_snapshot_def split: list.splits)

interpretation wm: bounded_history record_ok snapshots max_snapshots wm_valid
proof unfold_locales
  fix wm s
  show "wm_valid wm \<Longrightarrow> length (snapshots wm) \<le> max_snapshots wm"
    by (simp add: wm_valid_def)
  show "max_snapshots (record_ok wm s) = max_snapshots wm" by (rule record_ok_capacity)
  show "wm_valid wm \<Longrightarrow> snapshots (record_ok wm s) =
      drop (Suc (length (snapshots wm)) - max_snapshots wm) (snapshots wm @ [s])"
    by (rule record_ok_contents)
  show "wm_valid wm \<Longrightarrow> wm_valid (record_ok wm s)"
    using record_ok_contents [of wm s] by (auto simp: wm_valid_def record_ok_capacity)
qed

lemma record_all_ok: "wm_valid wm \<Longrightarrow> record_all wm ss = Some (foldl record_ok wm ss)"
proof (induction ss arbitrary: wm)
  case Nil
  then show ?case by simp
next
  case (Cons s ss)
  obtain wm' where r: "record_snapshot wm s = Some wm'"
    using record_snapshot_Some [OF Cons.prems] by blast
  then have "record_ok wm s = wm'" by (simp add: record_ok_def)
  then show ?case using r Cons.IH wm.valid_push [OF Cons.prems, of s] by simp
qed

text \<open>Recording any sequence of turns into a fresh working memory of positive capacity never
  fails and leaves exactly the most recent turns, oldest first, at most the capacity of them.\<close>

theorem working_memory_keeps_latest:
  assumes "0 < cap"
  shows "\<exists>wm. record_all (wm_new cap) ss = Some wm \<and>
    snapshots wm = drop (length ss - cap) ss \<and> wm_len wm \<le> cap"
proof -
  have v: "wm_valid (wm_new cap)" using assms by (simp add: wm_valid_def wm_new_def)
  have c: "snapshots (foldl record_ok (wm_new cap) ss) = drop (length ss - cap) ss"
    using wm.contents_pushes [OF v, of ss] by (simp add: wm_new_def)
  then show ?thesis using record_all_ok [OF v] by (simp add: wm_len_def)
qed

definition sample_snapshot :: "nat \<Rightarrow> turn_snapshot" where
  "sample_snapshot n =
     \<lparr>turn_number = n, intent_stem = Wu, target_palace = Zhen, geju_name = ''g'',
      snap_execution_mode = ''direct'', tool_name = ''read_file'', tool_input = JNull,
      tool_output = [], tool_error = None, timestamp = 0, certainty = None,
      active_seed_ids = [], tool_count = 1\<rparr>"

theorem working_memory_keeps_latest_witness:
  "\<exists>wm. record_all (wm_new 2) (map sample_snapshot [1, 2, 3]) = Some wm \<and>
     snapshots wm = map sample_snapshot [2, 3] \<and> wm_len wm \<le> 2"
  using working_memory_keeps_latest [of 2 "map sample_snapshot [1, 2, 3]"] by simp

end
