(* ===== verification/Principles.thy ===== *)
theory Principles
  imports GeJu Mano
begin

text \<open>
  System principles (\<open>principles/mod.rs\<close>): constraints derived from the error patterns of past turns,
  and Layer 4, which tightens an evaluation with them.
\<close>

section \<open>Formatting\<close>

text \<open>\<open>{:.2}\<close> of a non-negative number: two decimals, to nearest, ties to even.\<close>

definition format_2 :: "real \<Rightarrow> string" where
  "format_2 x = (let n = nat (round_half_even (x * 100))
                 in nat_to_string (n div 100) @ ''.'' @
                    [digit_char ((n div 10) mod 10), digit_char (n mod 10)])"

section \<open>Principles\<close>

datatype principle_constraint =
  AddGuard string string
| EscalateTo string string
| RequireAudit string

record system_principle =
  pid :: string
  session_id :: string
  geju_key_of :: string
  constraint :: principle_constraint
  confidence :: real
  source_seed_count :: nat

subsection \<open>Tightening\<close>

definition escalation_target :: "string \<Rightarrow> execution_mode option" where
  "escalation_target mode =
     (if mode = ''Guarded'' then Some Guarded
      else if mode = ''Sandbox'' then Some Sandbox
      else if mode = ''Denied'' then Some Denied
      else None)"

definition guard_gate :: "string \<Rightarrow> string \<Rightarrow> approval_gate option" where
  "guard_gate gate reason =
     (if gate = ''Permission'' then Some (Permission reason)
      else if gate = ''UserConfirmation'' then Some (UserConfirmation reason)
      else if gate = ''SandboxIsolation'' then Some SandboxIsolation
      else if gate = ''CodeReview'' then Some CodeReview
      else None)"

fun same_discriminant :: "approval_gate \<Rightarrow> approval_gate \<Rightarrow> bool" where
  "same_discriminant (Permission _) (Permission _) = True"
| "same_discriminant (UserConfirmation _) (UserConfirmation _) = True"
| "same_discriminant SandboxIsolation SandboxIsolation = True"
| "same_discriminant CodeReview CodeReview = True"
| "same_discriminant _ _ = False"

text \<open>\<open>SystemPrinciple::tighten\<close>: whether the result was modified, and the result.\<close>

definition tighten :: "system_principle \<Rightarrow> geju_result \<Rightarrow> real \<Rightarrow> bool \<times> geju_result" where
  "tighten p result atma_graha =
     (if 0.50 \<le> atma_graha then (False, result)
      else (case constraint p of
         EscalateTo mode _ \<Rightarrow>
           (case escalation_target mode of
              None \<Rightarrow> (False, result)
            | Some target \<Rightarrow>
                (if is_stricter_than (result\<lparr>execution_mode := target\<rparr>) result
                 then (True, result\<lparr>execution_mode := target, layer := 4\<rparr>)
                 else (False, result)))
       | AddGuard gate reason \<Rightarrow>
           (case guard_gate gate reason of
              None \<Rightarrow> (False, result)
            | Some g \<Rightarrow>
                (if \<not> list_ex (\<lambda>g'. same_discriminant g' g) (approval_chain result)
                 then (True, result\<lparr>approval_chain := approval_chain result @ [g], layer := 4\<rparr>)
                 else (False, result)))
       | RequireAudit _ \<Rightarrow>
           (if \<not> requires_audit result
            then (True, result\<lparr>requires_audit := True, layer := 4\<rparr>)
            else (False, result))))"

text \<open>
  \<open>apply_layer4\<close>: the store's answer is an argument, and so is the deserialiser of the stored JSON.
  A failed load leaves the result alone; an unreadable principle is skipped.
\<close>

fun apply_principles ::
  "(string \<Rightarrow> system_principle option) \<Rightarrow> string list \<Rightarrow> string \<Rightarrow> geju_result \<Rightarrow> real \<Rightarrow> geju_result" where
  "apply_principles from_str [] key result atma = result"
| "apply_principles from_str (j # js) key result atma =
     (case from_str j of
        None \<Rightarrow> apply_principles from_str js key result atma
      | Some p \<Rightarrow>
          (if geju_key_of p = key
           then apply_principles from_str js key (snd (tighten p result atma)) atma
           else apply_principles from_str js key result atma))"

definition apply_layer4 ::
  "(string \<Rightarrow> system_principle option) \<Rightarrow> ('e, string list) result \<Rightarrow> string \<Rightarrow>
   geju_result \<Rightarrow> real \<Rightarrow> geju_result" where
  "apply_layer4 from_str loaded key result atma =
     (case loaded of Inl _ \<Rightarrow> result | Inr ps \<Rightarrow> apply_principles from_str ps key result atma)"

text \<open>The agent loop keeps the deserialised principles and applies those of the evaluated pattern.\<close>

definition tighten_matching :: "system_principle list \<Rightarrow> real \<Rightarrow> geju_result \<Rightarrow> geju_result" where
  "tighten_matching ps atma result =
     fold (\<lambda>p r. snd (tighten p r atma)) (filter (\<lambda>p. geju_key_of p = gname result) ps) result"

subsection \<open>Derivation\<close>

definition escalate_reason :: "real \<Rightarrow> real \<Rightarrow> string" where
  "escalate_reason rate atma =
     ''error_rate='' @ format_2 rate @ '', atma_graha='' @ format_2 atma @
     '' -- repeated failures indicate systemic risk''"

definition guard_reason :: "real \<Rightarrow> string" where
  "guard_reason rate =
     ''error_rate='' @ format_2 rate @ '' -- elevated error rate requires additional checks''"

definition error_rate :: "rounding \<Rightarrow> turn_snapshot list \<Rightarrow> real" where
  "error_rate rnd grp =
     fdiv rnd (of_nat_f rnd (length (filter (\<lambda>s. tool_error s \<noteq> None) grp)))
              (of_nat_f rnd (length grp))"

text \<open>The first half of the loop body: escalate on a high error rate, else guard on a moderate one.\<close>

definition derive_errors ::
  "rounding \<Rightarrow> (nat \<Rightarrow> string) \<Rightarrow> string \<Rightarrow> string \<Rightarrow> turn_snapshot list \<Rightarrow> real \<Rightarrow>
   system_principle list \<Rightarrow> system_principle list" where
  "derive_errors rnd fresh sid key grp atma ps =
     (let rate = error_rate rnd grp; n = length grp in
      if rnd 0.7 \<le> rate \<and> atma < rnd 0.4 then
        ps @ [\<lparr>pid = fresh (length ps), session_id = sid, geju_key_of = key,
               constraint = EscalateTo ''Sandbox'' (escalate_reason rate atma),
               confidence = min (fadd rnd (fmul rnd rate (rnd 0.7))
                                          (fmul rnd (fsub rnd 1 atma) (rnd 0.3))) 1,
               source_seed_count = n\<rparr>]
      else if rnd 0.4 \<le> rate then
        ps @ [\<lparr>pid = fresh (length ps), session_id = sid, geju_key_of = key,
               constraint = AddGuard ''Permission'' (guard_reason rate),
               confidence = min (fadd rnd (fmul rnd rate (rnd 0.6)) (rnd 0.2)) 1,
               source_seed_count = n\<rparr>]
      else ps)"

text \<open>The second half: a pattern seen more than five times. \<open>upgrade_first\<close> is \<open>iter_mut().find\<close>.\<close>

fun upgrade_first :: "(system_principle \<Rightarrow> bool) \<Rightarrow> (system_principle \<Rightarrow> system_principle) \<Rightarrow>
    system_principle list \<Rightarrow> system_principle list option" where
  "upgrade_first P f [] = None"
| "upgrade_first P f (p # ps) =
     (if P p then Some (f p # ps) else map_option ((#) p) (upgrade_first P f ps))"

definition derive_audit ::
  "rounding \<Rightarrow> (nat \<Rightarrow> string) \<Rightarrow> string \<Rightarrow> string \<Rightarrow> nat \<Rightarrow>
   system_principle list \<Rightarrow> system_principle list" where
  "derive_audit rnd fresh sid key n ps =
     (if n > 5 then
        (case upgrade_first (\<lambda>p. geju_key_of p = key)
                (\<lambda>p. p\<lparr>constraint := EscalateTo ''Sandbox''
                         (nat_to_string n @ '' seeds accumulated -- systemic pattern detected''),
                       confidence := min (fadd rnd (confidence p) (rnd 0.2)) 1\<rparr>) ps of
           Some ps' \<Rightarrow> ps'
         | None \<Rightarrow>
             ps @ [\<lparr>pid = fresh (length ps), session_id = sid, geju_key_of = key,
                    constraint = RequireAudit (nat_to_string n @
                      '' seeds accumulated -- pattern requires audit oversight''),
                    confidence = rnd 0.6, source_seed_count = n\<rparr>])
      else ps)"

text \<open>
  \<open>SystemPrinciple::derive\<close>. The snapshots are grouped by pattern name in a hash map, whose iteration
  order is unspecified: the argument \<open>keys\<close> is that order. \<open>fresh\<close> supplies the UUIDs.
\<close>

definition derive_group ::
  "rounding \<Rightarrow> (nat \<Rightarrow> string) \<Rightarrow> string \<Rightarrow> turn_snapshot list \<Rightarrow> real \<Rightarrow> string \<Rightarrow>
   system_principle list \<Rightarrow> system_principle list" where
  "derive_group rnd fresh sid snaps atma key ps =
     (let grp = filter (\<lambda>s. geju_name s = key) snaps in
      if length grp < 3 then ps
      else derive_audit rnd fresh sid key (length grp)
             (derive_errors rnd fresh sid key grp atma ps))"

definition derive ::
  "rounding \<Rightarrow> (nat \<Rightarrow> string) \<Rightarrow> string list \<Rightarrow> string \<Rightarrow> turn_snapshot list \<Rightarrow> real \<Rightarrow>
   system_principle list" where
  "derive rnd fresh keys sid snaps atma = fold (derive_group rnd fresh sid snaps atma) keys []"

definition iteration_order :: "string list \<Rightarrow> turn_snapshot list \<Rightarrow> bool" where
  "iteration_order keys snaps = (distinct keys \<and> set keys = geju_name ` set snaps)"

section \<open>Layer 4 only tightens\<close>

text \<open>
  The specification of tightening: the mode does not go down, an audit requirement is not dropped,
  the approval chain is only extended, and name and retry budget are untouched.
\<close>

definition at_least_as_strict :: "geju_result \<Rightarrow> geju_result \<Rightarrow> bool" where
  "at_least_as_strict r' r =
     (execution_mode r \<le> execution_mode r' \<and>
      (requires_audit r \<longrightarrow> requires_audit r') \<and>
      prefix (approval_chain r) (approval_chain r') \<and>
      gname r' = gname r \<and> max_retries r' = max_retries r)"

lemma tighten_at_least_as_strict: "at_least_as_strict (snd (tighten p r atma)) r"
proof (cases "constraint p")
  case (AddGuard gate reason)
  then show ?thesis
    by (simp add: tighten_def at_least_as_strict_def split: option.split)
next
  case (EscalateTo mode reason)
  then show ?thesis
    by (auto simp: tighten_def at_least_as_strict_def is_stricter_mode_change
        split: option.split)
next
  case (RequireAudit reason)
  then show ?thesis by (simp add: tighten_def at_least_as_strict_def)
qed

interpretation layer4: one_way_tightening at_least_as_strict "\<lambda>p r. snd (tighten p r atma)" for atma
proof unfold_locales
  show "\<And>r. at_least_as_strict r r" by (simp add: at_least_as_strict_def)
  show "\<And>c b a. at_least_as_strict c b \<Longrightarrow> at_least_as_strict b a \<Longrightarrow> at_least_as_strict c a"
    by (auto simp: at_least_as_strict_def intro: prefix_order.trans)
  show "\<And>p r. at_least_as_strict (snd (tighten p r atma)) r"
    by (rule tighten_at_least_as_strict)
qed

lemma apply_principles_fold:
  "apply_principles from_str js key r atma =
     fold (\<lambda>p r. snd (tighten p r atma))
       (filter (\<lambda>p. geju_key_of p = key) (List.map_filter from_str js)) r"
  by (induction js arbitrary: r) (auto simp: List.map_filter_simps split: option.splits)

lemma apply_layer4_strict: "at_least_as_strict (apply_layer4 from_str loaded key r atma) r"
  by (auto simp: apply_layer4_def apply_principles_fold layer4.tighten_all layer4.strict_refl
      split: sum.split)

lemma tighten_matching_strict: "at_least_as_strict (tighten_matching ps atma r) r"
  unfolding tighten_matching_def by (rule layer4.tighten_all)

text \<open>C32: Layer 4 is one-way. Whatever principles are stored, and whether or not they can be read,
  applying them never lowers the execution mode, never drops an audit requirement, never removes
  or reorders an approval gate, and keeps the pattern name and the retry budget; and for an agent
  with \<open>atma_graha\<close> of at least one half it changes nothing at all.\<close>

theorem layer4_only_tightens:
  "at_least_as_strict (apply_layer4 from_str loaded key r atma) r \<and>
   (0.5 \<le> atma \<longrightarrow> apply_layer4 from_str loaded key r atma = r)"
proof -
  have "apply_principles from_str js key r atma = r" if "0.5 \<le> atma" for js
    using that by (induction js) (auto simp: tighten_def split: option.splits)
  then have "0.5 \<le> atma \<longrightarrow> apply_layer4 from_str loaded key r atma = r"
    by (cases loaded) (simp_all add: apply_layer4_def)
  then show ?thesis using apply_layer4_strict by blast
qed

definition sample_principle :: system_principle where
  "sample_principle = \<lparr>pid = ''p1'', session_id = ''s'', geju_key_of = ''k'',
     constraint = EscalateTo ''Denied'' ''r'', confidence = 1, source_seed_count = 6\<rparr>"

theorem layer4_only_tightens_witness:
  "0.5 \<le> (0.6::real) \<and>
   apply_layer4 (\<lambda>_. Some sample_principle) (Inr [''p''] :: unit + string list) ''k''
     (evaluate (geju_new Wu Wu)) 0.6 = evaluate (geju_new Wu Wu)"
  using layer4_only_tightens [of "\<lambda>_. Some sample_principle" "Inr [''p''] :: unit + string list"
      "''k''" "evaluate (geju_new Wu Wu)" "0.6"]
  by simp

section \<open>What derivation produces\<close>

lemma upgrade_first_None: "upgrade_first P f ps = None \<longleftrightarrow> list_all (\<lambda>p. \<not> P p) ps"
  by (induction ps) auto

lemma upgrade_first_snoc:
  "list_all (\<lambda>p. \<not> P p) ps \<Longrightarrow> P q \<Longrightarrow> upgrade_first P f (ps @ [q]) = Some (ps @ [f q])"
  by (induction ps) auto

text \<open>What one group of snapshots contributes: nothing, or one principle.\<close>

definition group_principle ::
  "rounding \<Rightarrow> (nat \<Rightarrow> string) \<Rightarrow> string \<Rightarrow> turn_snapshot list \<Rightarrow> real \<Rightarrow> string \<Rightarrow> nat \<Rightarrow>
   system_principle list" where
  "group_principle rnd fresh sid snaps atma key i =
     (let grp = filter (\<lambda>s. geju_name s = key) snaps;
          n = length grp;
          rate = error_rate rnd grp;
          hi = rnd 0.7 \<le> rate \<and> atma < rnd 0.4;
          conf = (if hi then min (fadd rnd (fmul rnd rate (rnd 0.7))
                                           (fmul rnd (fsub rnd 1 atma) (rnd 0.3))) 1
                  else min (fadd rnd (fmul rnd rate (rnd 0.6)) (rnd 0.2)) 1);
          mk = (\<lambda>c cf. [\<lparr>pid = fresh i, session_id = sid, geju_key_of = key, constraint = c,
                        confidence = cf, source_seed_count = n\<rparr>])
      in if n < 3 then []
         else if hi \<or> rnd 0.4 \<le> rate then
           (if n > 5 then
              mk (EscalateTo ''Sandbox''
                    (nat_to_string n @ '' seeds accumulated -- systemic pattern detected''))
                 (min (fadd rnd conf (rnd 0.2)) 1)
            else if hi then mk (EscalateTo ''Sandbox'' (escalate_reason rate atma)) conf
            else mk (AddGuard ''Permission'' (guard_reason rate)) conf)
         else if n > 5 then
           mk (RequireAudit (nat_to_string n @
                 '' seeds accumulated -- pattern requires audit oversight'')) (rnd 0.6)
         else [])"

lemma derive_group_eq:
  assumes "list_all (\<lambda>p. geju_key_of p \<noteq> key) ps"
  shows "derive_group rnd fresh sid snaps atma key ps =
    ps @ group_principle rnd fresh sid snaps atma key (length ps)"
proof -
  let ?P = "\<lambda>p. geju_key_of p = key"
  have none: "upgrade_first ?P f ps = None" for f
    using assms by (simp add: upgrade_first_None)
  have snoc: "geju_key_of q = key \<Longrightarrow> upgrade_first ?P f (ps @ [q]) = Some (ps @ [f q])" for f q
    using assms by (simp add: upgrade_first_snoc)
  show ?thesis
    by (simp add: derive_group_def derive_errors_def derive_audit_def group_principle_def
        Let_def none snoc)
qed

lemma group_principle_key:
  "p \<in> set (group_principle rnd fresh sid snaps atma key i) \<Longrightarrow> geju_key_of p = key"
  by (auto simp: group_principle_def Let_def split: if_splits)

lemma group_principle_length: "length (group_principle rnd fresh sid snaps atma key i) \<le> 1"
  by (auto simp: group_principle_def Let_def)

lemma derive_fold_keys:
  assumes "distinct keys" "set keys \<inter> geju_key_of ` set ps = {}"
  shows "\<exists>idx. fold (derive_group rnd fresh sid snaps atma) keys ps =
    ps @ concat (map (\<lambda>k. group_principle rnd fresh sid snaps atma k (idx k)) keys)"
  using assms
proof (induction keys arbitrary: ps)
  case Nil
  then show ?case by simp
next
  case (Cons k ks)
  let ?g = "group_principle rnd fresh sid snaps atma k (length ps)"
  have "list_all (\<lambda>p. geju_key_of p \<noteq> k) ps"
    using Cons.prems(2) by (auto simp: list_all_iff)
  then have step: "derive_group rnd fresh sid snaps atma k ps = ps @ ?g"
    by (rule derive_group_eq)
  have "geju_key_of ` set ?g \<subseteq> {k}" using group_principle_key by fastforce
  then have "set ks \<inter> geju_key_of ` set (ps @ ?g) = {}"
    using Cons.prems by auto
  then obtain idx where idx: "fold (derive_group rnd fresh sid snaps atma) ks (ps @ ?g) =
      (ps @ ?g) @ concat (map (\<lambda>k. group_principle rnd fresh sid snaps atma k (idx k)) ks)"
    using Cons.IH [of "ps @ ?g"] Cons.prems(1) by auto
  have eq: "concat (map (\<lambda>k'. group_principle rnd fresh sid snaps atma k'
        (if k' = k then length ps else idx k')) ks) =
      concat (map (\<lambda>k'. group_principle rnd fresh sid snaps atma k' (idx k')) ks)"
    using Cons.prems(1) by (intro arg_cong [where f = concat] map_cong) auto
  show ?case
    by (rule exI [of _ "idx(k := length ps)"]) (simp add: step idx eq)
qed

lemma derive_mem:
  assumes "iteration_order keys snaps" "p \<in> set (derive rnd fresh keys sid snaps atma)"
  shows "\<exists>i. p \<in> set (group_principle rnd fresh sid snaps atma (geju_key_of p) i)"
proof -
  have "distinct keys" using assms(1) by (simp add: iteration_order_def)
  then obtain idx where "derive rnd fresh keys sid snaps atma =
      concat (map (\<lambda>k. group_principle rnd fresh sid snaps atma k (idx k)) keys)"
    using derive_fold_keys [of keys "[]" rnd fresh sid snaps atma]
    by (auto simp: derive_def)
  then obtain k where "p \<in> set (group_principle rnd fresh sid snaps atma k (idx k))"
    using assms(2) by auto
  then show ?thesis using group_principle_key by metis
qed

lemma group_principle_source:
  assumes "p \<in> set (group_principle rnd fresh sid snaps atma key i)"
  shows "source_seed_count p = length (filter (\<lambda>s. geju_name s = key) snaps) \<and>
    3 \<le> source_seed_count p \<and> session_id p = sid"
  using assms by (auto simp: group_principle_def Let_def split: if_splits)

lemma group_principle_confidence:
  assumes "p \<in> set (group_principle round_f32 fresh sid snaps atma key i)"
  shows "confidence p \<le> 1"
  using assms f32.rnd_le_one [of "0.6"]
  by (auto simp: group_principle_def Let_def split: if_splits)

lemma group_principle_frequent:
  assumes "p \<in> set (group_principle rnd fresh sid snaps atma key i)"
  shows "5 < source_seed_count p \<longrightarrow>
    (\<exists>reason. constraint p = EscalateTo ''Sandbox'' reason \<or> constraint p = RequireAudit reason)"
  using assms by (auto simp: group_principle_def Let_def split: if_splits)

text \<open>A derived principle is backed by data. Every principle that \<open>derive\<close> produces belongs to a
  pattern seen in at least three turns, records exactly how many turns that was, carries a
  confidence of at most one, and a pattern seen more than five times never keeps a mere permission
  guard: it is escalated to the sandbox or put under audit.\<close>

theorem derive_backed_by_data:
  assumes "iteration_order keys snaps"
    and "p \<in> set (derive round_f32 fresh keys sid snaps atma)"
  shows "3 \<le> source_seed_count p \<and>
    source_seed_count p = length (filter (\<lambda>s. geju_name s = geju_key_of p) snaps) \<and>
    confidence p \<le> 1 \<and>
    (5 < source_seed_count p \<longrightarrow>
       (\<exists>reason. constraint p = EscalateTo ''Sandbox'' reason \<or> constraint p = RequireAudit reason))"
proof -
  obtain i where i: "p \<in> set (group_principle round_f32 fresh sid snaps atma (geju_key_of p) i)"
    using derive_mem [OF assms] by blast
  show ?thesis
    using group_principle_source [OF i] group_principle_confidence [OF i]
      group_principle_frequent [OF i] by simp
qed

lemma error_rate_no_errors:
  "\<forall>s \<in> set grp. tool_error s = None \<Longrightarrow> error_rate round_f32 grp = 0"
  by (simp add: error_rate_def fdiv_def of_nat_f_def)

lemma derive_audit_sample:
  "derive round_f32 (\<lambda>_. ''id'') [''g''] ''s'' (map sample_snapshot [1, 2, 3, 4, 5, 6]) atma =
     [\<lparr>pid = ''id'', session_id = ''s'', geju_key_of = ''g'',
       constraint = RequireAudit (nat_to_string 6 @
         '' seeds accumulated -- pattern requires audit oversight''),
       confidence = round_f32 0.6, source_seed_count = 6\<rparr>]"
  using f32_decimal_positive [of "0.7"] f32_decimal_positive [of "0.4"]
  by (simp add: derive_def derive_group_eq group_principle_def error_rate_no_errors
      sample_snapshot_def) (simp add: eval_nat_numeral)

theorem derive_backed_by_data_witness:
  "\<exists>p. p \<in> set (derive round_f32 (\<lambda>_. ''id'') [''g''] ''s''
            (map sample_snapshot [1, 2, 3, 4, 5, 6]) 0.2) \<and>
     iteration_order [''g''] (map sample_snapshot [1, 2, 3, 4, 5, 6]) \<and>
     3 \<le> source_seed_count p \<and> confidence p \<le> 1 \<and>
     (\<exists>reason. constraint p = EscalateTo ''Sandbox'' reason \<or> constraint p = RequireAudit reason)"
proof -
  let ?snaps = "map sample_snapshot [1, 2, 3, 4, 5, 6]"
  let ?p = "\<lparr>pid = ''id'', session_id = ''s'', geju_key_of = ''g'',
       constraint = RequireAudit (nat_to_string 6 @
         '' seeds accumulated -- pattern requires audit oversight''),
       confidence = round_f32 0.6, source_seed_count = 6\<rparr>"
  have o: "iteration_order [''g''] ?snaps"
    by (simp add: iteration_order_def sample_snapshot_def)
  have m: "?p \<in> set (derive round_f32 (\<lambda>_. ''id'') [''g''] ''s'' ?snaps 0.2)"
    by (simp only: derive_audit_sample list.set insert_iff) simp
  show ?thesis
    using derive_backed_by_data [OF o m] o m by (intro exI [of _ ?p]) simp
qed

end
