(* ===== verification/Dispatch.thy ===== *)
theory Dispatch
  imports Scheduler Hooks Principles Context
begin

text \<open>
  The serial gate in front of every tool call (\<open>gate_one_tool\<close> of \<open>plates/tian_heaven/loop_dispatch.rs\<close>)
  and the early dispatch of calls while the model is still streaming (\<open>EarlyDispatch\<close> there, and
  \<open>early_gate_dispatch\<close> of \<open>loop.rs\<close>). Messages to the user are the constructors of \<open>gate_error\<close>.
\<close>

section \<open>Plan mode\<close>

fun as_array :: "json \<Rightarrow> json list option" where
  "as_array (JArray xs) = Some xs"
| "as_array _ = None"

definition is_mutable :: "json \<Rightarrow> bool" where
  "is_mutable v =
     (case as_str (json_index v ''subagent_type'') of
        Some s \<Rightarrow> eq_ignore_ascii_case s ''coder'' \<or> eq_ignore_ascii_case s ''verifier''
      | None \<Rightarrow> False)"

definition requests_coder :: "json \<Rightarrow> bool" where
  "requests_coder params =
     (if is_mutable params then True
      else (case as_array (json_index params ''tasks'') of
              Some arr \<Rightarrow> list_ex is_mutable arr
            | None \<Rightarrow> False))"

definition is_verifier :: "json \<Rightarrow> bool" where
  "is_verifier v =
     (case as_str (json_index v ''subagent_type'') of
        Some s \<Rightarrow> eq_ignore_ascii_case s ''verifier''
      | None \<Rightarrow> False)"

definition requests_verifier :: "json \<Rightarrow> bool" where
  "requests_verifier params =
     (if is_verifier params then True
      else (case as_array (json_index params ''tasks'') of
              Some arr \<Rightarrow> list_ex is_verifier arr
            | None \<Rightarrow> False))"

section \<open>The gate\<close>

datatype gate_error =
  FailureStreak string nat
| UnknownTool string
| PlanningDenied string
| UserHook hook_block
| GuardHook string
| DispatchDenied denial
| ToolFailed string
| SiblingCancelled
| StreamInterrupted

record call_outcome =
  co_output :: string
  co_error :: "gate_error option"
  co_geju_name :: string
  co_execution_mode :: string
  co_heaven_stem :: stem
  co_target_palace :: palace
  co_synthetic_cancel :: bool

definition gate_denied ::
  "gate_error \<Rightarrow> string \<Rightarrow> string \<Rightarrow> stem \<Rightarrow> palace \<Rightarrow> call_outcome" where
  "gate_denied err geju mode heaven target =
     \<lparr>co_output = [], co_error = Some err, co_geju_name = geju, co_execution_mode = mode,
      co_heaven_stem = heaven, co_target_palace = target, co_synthetic_cancel = False\<rparr>"

record cleared_call =
  cl_tool :: base_tool
  cl_geju_result :: geju_result
  cl_geju_name :: string
  cl_execution_mode :: string
  cl_heaven_stem :: stem
  cl_target_palace :: palace

datatype gated_call = Cleared cleared_call | Finished call_outcome

text \<open>What the gate sends: the two agent events, the two bus events, and the hooks it starts.\<close>

datatype gate_signal =
  SentToolCall string json
| SentToolResult string "gate_error option" "string option" "string option"
| BusGeJu string string string
| BusToolCall string json
| FiredHooks "string list"

fun mode_string :: "execution_mode \<Rightarrow> string" where
  "mode_string Direct = ''direct''"
| "mode_string Guarded = ''guarded''"
| "mode_string Sandbox = ''sandbox''"
| "mode_string Denied = ''denied''"

record gate_env =
  ge_registry :: tool_registry
  ge_hooks :: hook_registry
  ge_user_hooks :: "compiled_hook list"
  ge_principles :: "system_principle list"
  ge_atma_graha :: real
  ge_mode :: interaction_mode
  ge_max_failures :: nat
  ge_glob :: "string \<Rightarrow> (string \<Rightarrow> bool) option"
  ge_sh :: "string \<Rightarrow> string \<Rightarrow> json \<Rightarrow> shell_exit"

definition refused ::
  "tool_call \<Rightarrow> call_outcome \<Rightarrow> string option \<Rightarrow> string option \<Rightarrow> gate_signal list" where
  "refused tc out geju mode =
     [SentToolCall (call_name tc) (parameters tc),
      SentToolResult (call_name tc) (co_error out) geju mode]"

definition plan_blocked :: "tool_call \<Rightarrow> base_tool \<Rightarrow> bool" where
  "plan_blocked tc t =
     (is_destructive t \<or> call_name tc = ''send_message'' \<or>
      call_name tc = ''delegate'' \<and> requests_coder (parameters tc))"

definition tool_geju :: "gate_env \<Rightarrow> base_tool \<Rightarrow> json \<Rightarrow> geju_result" where
  "tool_geju ge t input =
     tighten_matching (ge_principles ge) (ge_atma_graha ge)
       (evaluate (geju_new (intent_stem_from_tool (ceremony t)) (palace_stem (tool_palace t input))))"

text \<open>After the user hooks: the guarding hooks, and the signals of a cleared call.\<close>

definition gate_guarded ::
  "gate_env \<Rightarrow> tool_call \<Rightarrow> base_tool \<Rightarrow> geju_result \<Rightarrow> string \<Rightarrow> stem \<Rightarrow> stem \<Rightarrow> palace \<Rightarrow>
   gated_call \<times> gate_signal list" where
  "gate_guarded ge tc t g mode earth heaven target =
     (case fire_guarding_hooks (ge_glob ge) (ge_hooks ge) ZhiFu earth
             (ToolPreExecute (call_name tc) (parameters tc)) of
        (Some reason, fired) \<Rightarrow>
          (let out = gate_denied (GuardHook reason) (gname g) mode heaven target
           in (Finished out,
               [BusGeJu (call_name tc) (gname g) mode, FiredHooks (map sp_name fired)] @
               refused tc out (Some (gname g)) (Some mode) @
               [FiredHooks (map sp_name (fire_void_hooks (ge_glob ge) (ge_hooks ge) ZhiFu earth
                  (ToolPostExecute (call_name tc) [] (Some (''Blocked by hook: '' @ reason)) 0)))]))
      | (None, fired) \<Rightarrow>
          (Cleared \<lparr>cl_tool = t, cl_geju_result = g, cl_geju_name = gname g, cl_execution_mode = mode,
                    cl_heaven_stem = heaven, cl_target_palace = target\<rparr>,
           [BusGeJu (call_name tc) (gname g) mode, FiredHooks (map sp_name fired),
            BusToolCall (call_name tc) (parameters tc), SentToolCall (call_name tc) (parameters tc)]))"

definition gate_known :: "gate_env \<Rightarrow> tool_call \<Rightarrow> gated_call \<times> gate_signal list" where
  "gate_known ge tc =
     (case registry_get (ge_registry ge) (call_name tc) of
        None \<Rightarrow>
          (let out = gate_denied (UnknownTool (call_name tc)) [] [] Jia Zhong
           in (Finished out, refused tc out None None))
      | Some t \<Rightarrow>
          (let target = tool_palace t (parameters tc);
               earth = palace_stem target;
               heaven = intent_stem_from_tool (ceremony t)
           in if ge_mode ge = Plan \<and> plan_blocked tc t then
                (let out = gate_denied (PlanningDenied (call_name tc)) [] ''planning_denied'' heaven target
                 in (Finished out, refused tc out None (Some ''planning_denied'')))
              else
                (let g = tool_geju ge t (parameters tc);
                     mode = mode_string (execution_mode g)
                 in case (if execution_mode g \<noteq> Denied
                          then run_pre_tool_hooks (ge_sh ge) (ge_user_hooks ge) (call_name tc) (parameters tc)
                          else Ok ()) of
                      Inl b \<Rightarrow>
                        (let out = gate_denied (UserHook b) (gname g) ''hook_denied'' heaven target
                         in (Finished out, refused tc out (Some (gname g)) (Some ''hook_denied'')))
                    | Inr _ \<Rightarrow>
                        gate_guarded ge tc t g mode earth heaven target)))"

definition gate_one_tool ::
  "gate_env \<Rightarrow> (string \<rightharpoonup> nat) \<Rightarrow> tool_call \<Rightarrow> gated_call \<times> gate_signal list" where
  "gate_one_tool ge failures tc =
     (case failures (call_name tc) of
        Some n \<Rightarrow>
          (if n \<ge> ge_max_failures ge then
             (let out = gate_denied (FailureStreak (call_name tc) n) [] [] Jia Zhong
              in (Finished out, refused tc out None None))
           else gate_known ge tc)
      | None \<Rightarrow> gate_known ge tc)"

section \<open>What a cleared call has passed\<close>

lemma gate_guarded_Cleared:
  assumes "fst (gate_guarded ge tc t g mode earth heaven target) = Cleared cl"
  shows "cl = \<lparr>cl_tool = t, cl_geju_result = g, cl_geju_name = gname g, cl_execution_mode = mode,
               cl_heaven_stem = heaven, cl_target_palace = target\<rparr>"
    and "fst (fire_guarding_hooks (ge_glob ge) (ge_hooks ge) ZhiFu earth
          (ToolPreExecute (call_name tc) (parameters tc))) = None"
  using assms by (auto simp: gate_guarded_def Let_def split: prod.splits option.splits)

lemma gate_known_Cleared:
  assumes "fst (gate_known ge tc) = Cleared cl"
  obtains t where "registry_get (ge_registry ge) (call_name tc) = Some t"
    "\<not> (ge_mode ge = Plan \<and> plan_blocked tc t)"
    "cl_tool cl = t" "cl_geju_result cl = tool_geju ge t (parameters tc)"
    "execution_mode (cl_geju_result cl) \<noteq> Denied \<Longrightarrow>
       run_pre_tool_hooks (ge_sh ge) (ge_user_hooks ge) (call_name tc) (parameters tc) = Ok ()"
    "fst (fire_guarding_hooks (ge_glob ge) (ge_hooks ge) ZhiFu (palace_stem (tool_palace t (parameters tc)))
       (ToolPreExecute (call_name tc) (parameters tc))) = None"
proof -
  from assms obtain t where t: "registry_get (ge_registry ge) (call_name tc) = Some t"
    by (cases "registry_get (ge_registry ge) (call_name tc)") (simp_all add: gate_known_def Let_def)
  with assms have p: "\<not> (ge_mode ge = Plan \<and> plan_blocked tc t)"
    by (auto simp: gate_known_def Let_def)
  let ?g = "tool_geju ge t (parameters tc)"
  let ?h = "if execution_mode ?g \<noteq> Denied
    then run_pre_tool_hooks (ge_sh ge) (ge_user_hooks ge) (call_name tc) (parameters tc) else Ok ()"
  from assms t p obtain u where u: "?h = Ok u"
    by (cases ?h) (simp_all add: gate_known_def Let_def)
  with assms t p have "fst (gate_guarded ge tc t ?g (mode_string (execution_mode ?g))
      (palace_stem (tool_palace t (parameters tc))) (intent_stem_from_tool (ceremony t))
      (tool_palace t (parameters tc))) = Cleared cl"
    by (simp add: gate_known_def Let_def)
  from gate_guarded_Cleared [OF this] u show ?thesis
    by (intro that [OF t p]) auto
qed

lemma gate_one_tool_Cleared:
  assumes "fst (gate_one_tool ge failures tc) = Cleared cl"
  shows "fst (gate_known ge tc) = Cleared cl"
    and "\<forall>n. failures (call_name tc) = Some n \<longrightarrow> n < ge_max_failures ge"
  using assms by (auto simp: gate_one_tool_def Let_def split: option.splits if_splits)


definition sample_gate :: gate_env where
  "sample_gate =
     \<lparr>ge_registry = register (default_tool ''delegate'' CWu) registry_new, ge_hooks = [],
      ge_user_hooks = [], ge_principles = [], ge_atma_graha = 0, ge_mode = Plan, ge_max_failures = 3,
      ge_glob = (\<lambda>_. None), ge_sh = (\<lambda>_ _ _. Exited True)\<rparr>"

definition coder_call :: "string \<Rightarrow> tool_call" where
  "coder_call nm = \<lparr>call_id = ''1'', call_name = nm,
     parameters = JObject [(''subagent_type'', JString ''Coder'')]\<rparr>"

lemma lower_sample: "to_lowercase ''Coder'' = ''coder''" "to_lowercase ''coder'' = ''coder''"
  "to_lowercase ''Delegate'' = ''delegate''" "to_lowercase ''delegate'' = ''delegate''"
  by code_simp+

lemma coder_requests: "requests_coder (parameters (coder_call nm))"
  by (simp add: requests_coder_def is_mutable_def coder_call_def json_index_def
      eq_ignore_ascii_case_def lower_sample)

lemma sample_lookup:
  "nm = ''delegate'' \<or> nm = ''Delegate'' \<Longrightarrow>
     registry_get (ge_registry sample_gate) nm = Some (default_tool ''delegate'' CWu)"
  by (auto simp: sample_gate_def registry_get_def register_def insert_tool_def registry_new_def
      default_tool_def lower_sample)

section \<open>Plan mode is case sensitive\<close>

lemma cleared_without_hooks:
  assumes "ge_user_hooks ge = []" "ge_hooks ge = []" "failures (call_name tc) = None"
    and "registry_get (ge_registry ge) (call_name tc) = Some t"
    and "\<not> (ge_mode ge = Plan \<and> plan_blocked tc t)"
  shows "\<exists>cl. fst (gate_one_tool ge failures tc) = Cleared cl \<and> cl_tool cl = t"
proof -
  have "fire_guarding_hooks (ge_glob ge) (ge_hooks ge) ZhiFu e ev = (None, [])" for e ev
    by (simp add: fire_guarding_hooks_def collected_hooks assms(2))
  then show ?thesis using assms
    by (auto simp: gate_one_tool_def gate_known_def gate_guarded_def Let_def)
qed

text \<open>C39: plan mode can be left by spelling. The registry finds a tool whatever the case of the name the
  model writes, but the plan-mode block compares the name as written: with no hooks configured, a
  delegation to a writing sub-agent spelled other than \<open>delegate\<close> is cleared in plan mode, while the
  exact spelling is refused.\<close>

theorem plan_mode_case_bypass:
  assumes "ge_mode ge = Plan" "ge_user_hooks ge = []" "ge_hooks ge = []"
    and "registry_get (ge_registry ge) (call_name tc) = Some t" "\<not> is_destructive t"
    and "call_name tc \<noteq> ''delegate''" "call_name tc \<noteq> ''send_message''"
    and "failures (call_name tc) = None" "failures ''delegate'' = None"
    and "registry_get (ge_registry ge) ''delegate'' = Some t" "requests_coder (parameters tc)"
  shows "(\<exists>cl. fst (gate_one_tool ge failures tc) = Cleared cl \<and> cl_tool cl = t) \<and>
         (\<exists>out. fst (gate_one_tool ge failures (tc\<lparr>call_name := ''delegate''\<rparr>)) = Finished out)"
proof
  show "\<exists>cl. fst (gate_one_tool ge failures tc) = Cleared cl \<and> cl_tool cl = t"
    using assms by (intro cleared_without_hooks) (auto simp: plan_blocked_def)
  show "\<exists>out. fst (gate_one_tool ge failures (tc\<lparr>call_name := ''delegate''\<rparr>)) = Finished out"
    using assms by (simp add: gate_one_tool_def gate_known_def plan_blocked_def Let_def)
qed

theorem plan_mode_case_bypass_witness:
  "\<exists>cl. fst (gate_one_tool sample_gate Map.empty (coder_call ''Delegate'')) = Cleared cl"
  using plan_mode_case_bypass [of sample_gate "coder_call ''Delegate''" "default_tool ''delegate'' CWu"
      Map.empty] coder_requests sample_lookup
  by (auto simp: sample_gate_def coder_call_def default_tool_def default_is_destructive_def)


section \<open>Finalising a call\<close>

definition spill_notice :: "string \<Rightarrow> nat \<Rightarrow> string \<Rightarrow> string" where
  "spill_notice path nbytes call =
     [CHR 0x0A] @ ''['' @
     [CHR 0xE5, CHR 0xAE, CHR 0x8C, CHR 0xE6, CHR 0x95, CHR 0xB4, CHR 0xE8, CHR 0xBE, CHR 0x93, CHR 0xE5, CHR 0x87, CHR 0xBA,
      CHR 0xE5, CHR 0xB7, CHR 0xB2, CHR 0xE4, CHR 0xBF, CHR 0x9D, CHR 0xE5, CHR 0xAD, CHR 0x98] @ '': '' @ path @ '' ('' @ nat_to_string nbytes @ '' bytes). '' @
     [CHR 0xE7, CHR 0x94, CHR 0xA8] @ '' retrieve_tool_result '' @ [CHR 0xE6, CHR 0x8C, CHR 0x89] @ '' tool_call_id '' @ [CHR 0x22] @ call @ [CHR 0x22] @
     [CHR 0x20, CHR 0xE5, CHR 0x88, CHR 0x86, CHR 0xE6, CHR 0xAE, CHR 0xB5, CHR 0xE5, CHR 0x8F, CHR 0x96, CHR 0xE5, CHR 0x9B,
      CHR 0x9E, CHR 0x5D]"

text \<open>The parameters of finalising: tokenizer, writing to disk (the path and size, or a failure), and
  the JSON parser.\<close>

record finalize_env =
  fe_enc :: "string \<Rightarrow> nat list"
  fe_dec :: "nat list \<Rightarrow> string option"
  fe_budget :: tool_output_budget
  fe_persist :: "string \<Rightarrow> string \<Rightarrow> (string \<times> nat) option"
  fe_from_str :: "string \<Rightarrow> json option"

definition finalized_output :: "finalize_env \<Rightarrow> tool_call \<Rightarrow> string \<Rightarrow> string" where
  "finalized_output fe tc raw =
     (let outp = truncate_output (fe_enc fe) (fe_dec fe) (fe_budget fe) raw (call_name tc) in
      if raw \<noteq> [] \<and> outp \<noteq> raw then
        (case fe_persist fe (call_id tc) raw of
           Some (path, nbytes) \<Rightarrow> outp @ spill_notice path nbytes (call_id tc)
         | None \<Rightarrow> outp)
      else outp)"

definition touched_ids :: "finalize_env \<Rightarrow> string \<Rightarrow> string list" where
  "touched_ids fe raw =
     (case fe_from_str fe raw of
        None \<Rightarrow> []
      | Some v \<Rightarrow>
          (case Option.bind (json_get v ''touched_ids'') as_array of
             Some ids \<Rightarrow> List.map_filter as_str ids
           | None \<Rightarrow> []))"

definition finalize_outcome ::
  "finalize_env \<Rightarrow> tool_call \<Rightarrow> string \<Rightarrow> call_outcome \<Rightarrow> string list \<Rightarrow> call_outcome \<times> string list" where
  "finalize_outcome fe tc raw out touched_acc =
     (out\<lparr>co_output := finalized_output fe tc raw\<rparr>,
      touched_acc @ (if co_error out = None \<and> raw \<noteq> [] then touched_ids fe raw else []))"

lemma finalize_fields [simp]:
  "co_error (fst (finalize_outcome fe tc raw out ids)) = co_error out"
  "co_synthetic_cancel (fst (finalize_outcome fe tc raw out ids)) = co_synthetic_cancel out"
  by (simp_all add: finalize_outcome_def)

section \<open>Early dispatch\<close>

datatype early_slot =
  Gated cleared_call
| Done call_outcome
| Running string string stem palace
| Consumed

text \<open>
  \<open>jobs\<close> is the join set: the indices of the tasks that were spawned and not yet joined. A joined task
  reports its output, error and duration, or was aborted (or panicked).
\<close>

record early_dispatch =
  slots :: "early_slot list"
  jobs :: "nat list"
  in_flight :: "(nat \<times> tool_accesses) list"
  completed :: "nat \<rightharpoonup> string \<times> gate_error option \<times> nat"
  aborted :: bool

definition early_new :: early_dispatch where
  "early_new = \<lparr>slots = [], jobs = [], in_flight = [], completed = Map.empty, aborted = False\<rparr>"

definition eligible ::
  "early_dispatch \<Rightarrow> tool_accesses \<Rightarrow> execution_mode \<Rightarrow> bool \<Rightarrow> chain_verdict \<Rightarrow> nat \<Rightarrow> bool" where
  "eligible e a mode jingxiang_open chain max_conc =
     (\<not> aborted e \<and> \<not> all_access a \<and> writes a = [] \<and> mode = Direct \<and> jingxiang_open \<and>
      chain = Pass \<and> length (jobs e) < max_conc \<and>
      \<not> list_ex (\<lambda>(_, b). accesses_conflict b a) (in_flight e))"

definition early_spawn :: "early_dispatch \<Rightarrow> nat \<Rightarrow> tool_accesses \<Rightarrow> early_dispatch" where
  "early_spawn e i a = e\<lparr>in_flight := in_flight e @ [(i, a)], jobs := jobs e @ [i]\<rparr>"

type_synonym joined = "nat \<times> (string \<times> gate_error option \<times> nat) option"

text \<open>One joined task in \<open>poll\<close>; \<open>abort_all\<close> leaves the tasks to be joined as aborted.\<close>

definition poll_one :: "early_dispatch \<Rightarrow> joined \<Rightarrow> early_dispatch" where
  "poll_one e j =
     (let e1 = e\<lparr>jobs := remove1 (fst j) (jobs e)\<rparr> in
      case snd j of
        None \<Rightarrow> e1
      | Some (raw, err, dur) \<Rightarrow>
          (let e2 = e1\<lparr>in_flight := filter (\<lambda>(i, _). i \<noteq> fst j) (in_flight e1)\<rparr>;
               e3 = (if err \<noteq> None \<and> \<not> aborted e2
                     then e2\<lparr>aborted := True, in_flight := []\<rparr> else e2)
           in e3\<lparr>completed := (completed e3)(fst j \<mapsto> (raw, err, dur))\<rparr>))"

definition poll :: "joined list \<Rightarrow> early_dispatch \<Rightarrow> early_dispatch" where
  "poll js e = foldl poll_one e js"

definition drain_one :: "early_dispatch \<Rightarrow> joined \<times> bool \<Rightarrow> early_dispatch" where
  "drain_one e jc =
     (let j = fst jc;
          e1 = e\<lparr>jobs := remove1 (fst j) (jobs e)\<rparr>;
          e2 = (case snd j of
                  None \<Rightarrow> e1
                | Some (raw, err, dur) \<Rightarrow>
                    (let e' = (if err \<noteq> None \<and> \<not> aborted e1 then e1\<lparr>aborted := True\<rparr> else e1)
                     in e'\<lparr>completed := (completed e')(fst j \<mapsto> (raw, err, dur))\<rparr>))
      in if snd jc \<and> \<not> aborted e2 then e2\<lparr>aborted := True\<rparr> else e2)"

text \<open>\<open>drain\<close> joins everything that remains; the flag says whether the run is cancelled by then.\<close>

definition drain :: "(joined \<times> bool) list \<Rightarrow> early_dispatch \<Rightarrow> early_dispatch" where
  "drain js e = (foldl drain_one e js)\<lparr>in_flight := []\<rparr>"

definition abort_and_reset :: "early_dispatch \<Rightarrow> early_dispatch" where
  "abort_and_reset e = early_new"

definition early_abort :: "early_dispatch \<Rightarrow> early_dispatch" where
  "early_abort e = e\<lparr>jobs := [], in_flight := []\<rparr>"

definition take_completed ::
  "early_dispatch \<Rightarrow> nat \<Rightarrow> (string \<times> gate_error option \<times> nat) option \<times> early_dispatch" where
  "take_completed e i = (completed e i, e\<lparr>completed := (completed e)(i := None)\<rparr>)"

definition push_slot :: "early_slot \<Rightarrow> early_dispatch \<Rightarrow> early_dispatch" where
  "push_slot s e = e\<lparr>slots := slots e @ [s]\<rparr>"

definition early_gate_dispatch ::
  "gate_env \<Rightarrow> environment \<Rightarrow> human_plate \<Rightarrow> finalize_env \<Rightarrow> path \<Rightarrow> nat \<Rightarrow> string \<Rightarrow> (string \<rightharpoonup> nat) \<Rightarrow>
   joined list \<Rightarrow> nat \<Rightarrow> tool_call \<Rightarrow> early_dispatch \<times> string list \<times> human_state \<Rightarrow>
   early_dispatch \<times> string list \<times> human_state" where
  "early_gate_dispatch ge env pl fe base max_conc sid failures js index tc est =
     (case est of (e, touched_acc, st) \<Rightarrow>
        (case fst (gate_one_tool ge failures tc) of
           Finished out \<Rightarrow> (push_slot (Done out) e, touched_acc, st)
         | Cleared cl \<Rightarrow>
             (let t = tool.truncate (cl_tool cl);
                  a = normalize_accesses base (accesses (cl_tool cl) (parameters tc));
                  e1 = poll js e
              in if \<not> eligible e1 a (execution_mode (cl_geju_result cl)) (gate_is_open pl JingXiangMen)
                       (policy_verdict env pl t (parameters tc)) max_conc
                 then (push_slot (Gated cl) e1, touched_acc, st)
                 else
                   (case prepare env pl t (parameters tc) sid (cl_geju_result cl) st of
                      (Inr v, st') \<Rightarrow>
                        (push_slot (Running (cl_geju_name cl) (cl_execution_mode cl) (cl_heaven_stem cl)
                            (cl_target_palace cl)) (early_spawn e1 index a), touched_acc, st')
                    | (Inl d, st') \<Rightarrow>
                        (let (out, ids) = finalize_outcome fe tc []
                               (gate_denied (DispatchDenied d) (cl_geju_name cl) (cl_execution_mode cl)
                                  (cl_heaven_stem cl) (cl_target_palace cl)) touched_acc
                         in (push_slot (Done out) e1, ids, st'))))))"

section \<open>Early dispatch never asks and never conflicts\<close>

text \<open>The invariant of the stream: what is in flight only reads, the window is respected, and an
  in-flight entry disappears with the first failure.\<close>

definition early_ok :: "nat \<Rightarrow> early_dispatch \<Rightarrow> bool" where
  "early_ok max_conc e =
     (list_all (\<lambda>(_, a). \<not> all_access a \<and> writes a = []) (in_flight e) \<and>
      length (jobs e) \<le> max_conc \<and> (aborted e \<longrightarrow> in_flight e = []))"

lemma early_ok_new: "early_ok max_conc early_new"
  by (simp add: early_ok_def early_new_def)

lemma early_ok_push [simp]: "early_ok max_conc (push_slot s e) = early_ok max_conc e"
  by (simp add: early_ok_def push_slot_def)

lemma early_ok_poll_one: "early_ok max_conc e \<Longrightarrow> early_ok max_conc (poll_one e j)"
  by (auto simp: early_ok_def poll_one_def Let_def list_all_iff length_remove1
      split: option.splits prod.splits)

lemma early_ok_poll: "early_ok max_conc e \<Longrightarrow> early_ok max_conc (poll js e)"
  unfolding poll_def by (induction js arbitrary: e) (simp_all add: early_ok_poll_one)

lemma early_ok_spawn:
  "early_ok max_conc e \<Longrightarrow> eligible e a mode jx ch max_conc \<Longrightarrow> early_ok max_conc (early_spawn e i a)"
  by (auto simp: early_ok_def eligible_def early_spawn_def)

lemma early_ok_dispatch:
  assumes "early_ok max_conc e"
  shows "early_ok max_conc (fst (early_gate_dispatch ge env pl fe base max_conc sid failures js i tc (e, ids, st)))"
  using assms early_ok_poll [OF assms, of js]
  by (auto simp: early_gate_dispatch_def Let_def early_ok_spawn
      split: gated_call.splits prod.splits sum.splits)

lemma readers_independent:
  "\<not> all_access a \<Longrightarrow> writes a = [] \<Longrightarrow> \<not> all_access b \<Longrightarrow> writes b = [] \<Longrightarrow> \<not> accesses_conflict a b"
  by (simp add: accesses_conflict_def any_intersect_def list_ex_iff)

lemma early_ok_independent:
  assumes "early_ok max_conc e"
  shows "sorted_wrt (\<lambda>x y. \<not> accesses_conflict (snd x) (snd y)) (in_flight e)"
proof -
  have r: "\<not> all_access (snd x) \<and> writes (snd x) = []" if "x \<in> set (in_flight e)" for x
    using assms that by (auto simp: early_ok_def list_all_iff)
  show ?thesis
    unfolding sorted_wrt_iff_nth_less using r by (metis nth_mem order.strict_trans readers_independent)
qed

lemma eligible_prepare:
  assumes "eligible e a (execution_mode g) (gate_is_open pl JingXiangMen)
    (policy_verdict env pl t input) max_conc"
  shows "bus (snd (prepare env pl t input sid g st)) = bus st"
    "questions (snd (prepare env pl t input sid g st)) = questions st"
    "verifier_gate env pl t input = Ok () \<Longrightarrow> prepare env pl t input sid g st = (Ok input, st)"
proof -
  have e: "execution_mode g = Direct" "gate_is_open pl JingXiangMen" "policy_verdict env pl t input = Pass"
    using assms by (simp_all add: eligible_def)
  then have ok: "verifier_gate env pl t input = Ok () \<Longrightarrow> prepare env pl t input sid g st = (Ok input, st)"
    by (simp add: prepare_mode)
  then show "verifier_gate env pl t input = Ok () \<Longrightarrow> prepare env pl t input sid g st = (Ok input, st)" .
  have "bus (snd (prepare env pl t input sid g st)) = bus st \<and>
      questions (snd (prepare env pl t input sid g st)) = questions st"
    using ok by (cases "verifier_gate env pl t input") (simp_all add: prepare_def)
  then show "bus (snd (prepare env pl t input sid g st)) = bus st"
    "questions (snd (prepare env pl t input sid g st)) = questions st" by simp_all
qed


definition sample_finalize :: finalize_env where
  "sample_finalize =
     \<lparr>fe_enc = (\<lambda>s. map (\<lambda>_. 0) s), fe_dec = (\<lambda>_. None), fe_budget = budget_default,
      fe_persist = (\<lambda>_ _. None), fe_from_str = (\<lambda>_. None)\<rparr>"


end
