(* ===== verification/Guards.thy ===== *)
theory Guards
  imports Dispatch
begin

text \<open>
  Two loop-local guards of \<open>plates/tian_heaven/loop.rs\<close>: the repeat guard, which counts consecutive
  identical tool calls and ends a turn that repeats itself, and the verification tracker, which
  reminds the agent to verify completed tasks.
\<close>

section \<open>Repeat guard\<close>

definition REPEAT_REMIND :: nat where "REPEAT_REMIND = 3"
definition REPEAT_ESCALATE :: nat where "REPEAT_ESCALATE = 5"
definition REPEAT_FINAL_WARN :: nat where "REPEAT_FINAL_WARN = 8"
definition REPEAT_FORCE_STOP :: nat where "REPEAT_FORCE_STOP = 12"

record repeat_guard =
  last_key :: "string option"
  streak :: nat

definition repeat_guard_default :: repeat_guard where
  "repeat_guard_default = \<lparr>last_key = None, streak = 0\<rparr>"

definition call_key :: "(json \<Rightarrow> string) \<Rightarrow> string \<Rightarrow> json \<Rightarrow> string" where
  "call_key ser name params = name @ '':'' @ ser params"

definition track :: "(json \<Rightarrow> string) \<Rightarrow> repeat_guard \<Rightarrow> string \<Rightarrow> json \<Rightarrow> nat \<times> repeat_guard" where
  "track ser g name params =
     (let key = call_key ser name params;
          g' = (if last_key g = Some key then g\<lparr>streak := streak g + 1\<rparr>
                else g\<lparr>streak := 1, last_key := Some key\<rparr>)
      in (streak g', g'))"

definition reminder_remind :: "string \<Rightarrow> string" where
  "reminder_remind tool =
     ''[Repeat guard] You have called '' @
     [CHR 0x60] @
     tool @
     [CHR 0x60] @
     '' with identical parameters '' @
     nat_to_string REPEAT_REMIND @
     '' times in a row. Before calling it again, state explicitly what NEW '' @
     ''information you expect this call to return that the previous identical '' @
     ''calls did not.''"

definition reminder_escalate :: "string \<Rightarrow> string" where
  "reminder_escalate tool =
     ''[Repeat guard] '' @
     [CHR 0x60] @
     tool @
     [CHR 0x60] @
     '' with identical parameters has now run '' @
     nat_to_string REPEAT_ESCALATE @
     '' times consecutively. Choose ONE: (1) falsify this direction '' @
     [CHR 0xE2, CHR 0x80, CHR 0x94] @
     '' use a different tool or different parameters; (2) ask the user for the '' @
     ''missing input; (3) wrap up with what you already have.''"

definition reminder_final :: "string \<Rightarrow> string" where
  "reminder_final tool =
     ''[Repeat guard] FINAL WARNING: '' @
     [CHR 0x60] @
     tool @
     [CHR 0x60] @
     '' repeated '' @
     nat_to_string REPEAT_FINAL_WARN @
     '' times with identical parameters. At '' @
     nat_to_string REPEAT_FORCE_STOP @
     '' consecutive repetitions the turn is terminated automatically.''"

definition reminder :: "repeat_guard \<Rightarrow> string \<Rightarrow> string option" where
  "reminder g tool =
     (if streak g = REPEAT_REMIND then Some (reminder_remind tool)
      else if streak g = REPEAT_ESCALATE then Some (reminder_escalate tool)
      else if streak g = REPEAT_FINAL_WARN then Some (reminder_final tool)
      else None)"

text \<open>What the loop does with one call before it is gated: stop the turn, or go on with the reminder
  that is queued, if any.\<close>

datatype repeat_verdict = ForceStop | GoOn "string option"

definition repeat_check ::
  "(json \<Rightarrow> string) \<Rightarrow> repeat_guard \<Rightarrow> tool_call \<Rightarrow> repeat_verdict \<times> repeat_guard" where
  "repeat_check ser g tc =
     (case track ser g (call_name tc) (parameters tc) of
        (n, g') \<Rightarrow>
          (if n \<ge> REPEAT_FORCE_STOP then (ForceStop, g') else (GoOn (reminder g' (call_name tc)), g')))"

lemmas repeat_limits = REPEAT_REMIND_def REPEAT_ESCALATE_def REPEAT_FINAL_WARN_def REPEAT_FORCE_STOP_def

fun track_all :: "(json \<Rightarrow> string) \<Rightarrow> repeat_guard \<Rightarrow> tool_call list \<Rightarrow> repeat_guard" where
  "track_all ser g [] = g"
| "track_all ser g (tc # tcs) = track_all ser (snd (track ser g (call_name tc) (parameters tc))) tcs"

abbreviation key_of :: "(json \<Rightarrow> string) \<Rightarrow> tool_call \<Rightarrow> string" where
  "key_of ser tc \<equiv> call_key ser (call_name tc) (parameters tc)"

lemma track_all_append: "track_all ser g (xs @ ys) = track_all ser (track_all ser g xs) ys"
  by (induction xs arbitrary: g) simp_all

text \<open>The specification: how many of the last calls have the key of the very last one.\<close>

definition trailing :: "(json \<Rightarrow> string) \<Rightarrow> tool_call list \<Rightarrow> nat" where
  "trailing ser tcs =
     (if tcs = [] then 0 else length (takeWhile (\<lambda>tc. key_of ser tc = key_of ser (last tcs)) (rev tcs)))"

lemma trailing_snoc:
  "trailing ser (tcs @ [tc]) =
     (if tcs \<noteq> [] \<and> key_of ser (last tcs) = key_of ser tc then Suc (trailing ser tcs) else 1)"
proof (cases "tcs = []")
  case False
  then obtain ys y where "tcs = ys @ [y]" by (metis rev_exhaust)
  then show ?thesis by (simp add: trailing_def)
qed (simp add: trailing_def)

lemma track_all_trailing:
  "streak (track_all ser repeat_guard_default tcs) = trailing ser tcs \<and>
   last_key (track_all ser repeat_guard_default tcs) = (if tcs = [] then None else Some (key_of ser (last tcs)))"
proof (induction tcs rule: rev_induct)
  case Nil
  then show ?case by (simp add: repeat_guard_default_def trailing_def)
next
  case (snoc tc tcs)
  then show ?case by (auto simp: track_all_append track_def Let_def trailing_snoc)
qed

text \<open>The repeat guard stops a looping agent and nothing else. After any sequence of calls, the
  next one ends the turn exactly if it would be the twelfth or later identical call in a row (same
  tool, same parameters), and a reminder is queued exactly at the third, fifth and eighth.\<close>

theorem repeat_guard_exact:
  "(fst (repeat_check ser (track_all ser repeat_guard_default tcs) tc) = ForceStop \<longleftrightarrow>
      12 \<le> trailing ser (tcs @ [tc])) \<and>
   ((\<exists>r. fst (repeat_check ser (track_all ser repeat_guard_default tcs) tc) = GoOn (Some r)) \<longleftrightarrow>
      trailing ser (tcs @ [tc]) \<in> {3, 5, 8})"
proof -
  let ?g = "track_all ser repeat_guard_default tcs"
  have t: "track ser ?g (call_name tc) (parameters tc) =
      (trailing ser (tcs @ [tc]), track_all ser repeat_guard_default (tcs @ [tc]))"
    using track_all_trailing [of ser "tcs @ [tc]"] by (simp add: track_all_append) (simp add: track_def Let_def)
  have "streak (track_all ser repeat_guard_default (tcs @ [tc])) = trailing ser (tcs @ [tc])"
    using track_all_trailing by blast
  then show ?thesis by (simp add: repeat_check_def t reminder_def repeat_limits)
qed

section \<open>Verification tracker\<close>

definition VERIFY_NUDGE_STREAK :: nat where "VERIFY_NUDGE_STREAK = 3"

record verify_tracker =
  completions_since_verify :: nat
  pending_nudge :: "string option"
  touched_files :: "string list"
  verifier_nudges :: nat

definition verify_default :: verify_tracker where
  "verify_default = \<lparr>completions_since_verify = 0, pending_nudge = None, touched_files = [], verifier_nudges = 0\<rparr>"

definition verify_nudge :: string where
  "verify_nudge =
     ''[Verification] 3 tasks in a row were marked completed without any test or '' @
     ''verification command in between. Before wrapping up, run the project'' @
     [CHR 0x27] @
     ''s test suite (e.g. cargo test / pytest / pnpm test / go test) to confirm '' @
     ''the completed work holds '' @
     [CHR 0xE2, CHR 0x80, CHR 0x94] @
     '' or state explicitly why no verification is needed.''"

definition note_task_completion :: "verify_tracker \<Rightarrow> verify_tracker" where
  "note_task_completion v =
     (let n = completions_since_verify v + 1 in
      if n \<ge> VERIFY_NUDGE_STREAK
      then v\<lparr>completions_since_verify := 0,
             pending_nudge := (case pending_nudge v of None \<Rightarrow> Some verify_nudge | Some m \<Rightarrow> Some m)\<rparr>
      else v\<lparr>completions_since_verify := n\<rparr>)"

definition note_verification :: "verify_tracker \<Rightarrow> verify_tracker" where
  "note_verification v = v\<lparr>completions_since_verify := 0\<rparr>"

definition note_touched :: "verify_tracker \<Rightarrow> string \<Rightarrow> verify_tracker" where
  "note_touched v p =
     (if p \<noteq> [] \<and> \<not> list_ex (\<lambda>q. q = p) (touched_files v)
      then v\<lparr>touched_files := touched_files v @ [p]\<rparr> else v)"

definition verify_ok :: "verify_tracker \<Rightarrow> bool" where
  "verify_ok v = (completions_since_verify v < VERIFY_NUDGE_STREAK \<and> distinct (touched_files v) \<and>
     [] \<notin> set (touched_files v))"

lemma verify_ok_default: "verify_ok verify_default"
  by (simp add: verify_ok_def verify_default_def VERIFY_NUDGE_STREAK_def)

lemma verify_ok_steps:
  assumes "verify_ok v"
  shows "verify_ok (note_task_completion v)" "verify_ok (note_verification v)" "verify_ok (note_touched v p)"
  using assms
  by (auto simp: verify_ok_def note_task_completion_def note_verification_def note_touched_def
      VERIFY_NUDGE_STREAK_def Let_def list_ex_iff)

end
