(* ===== verification/BatchExec.thy ===== *)
theory BatchExec
  imports Guards
begin

text \<open>
  Executing one batch of calls (phases one to three of the dispatch loop in \<open>plates/tian_heaven/loop.rs\<close>):
  the serial phase that gates and prepares each call, the window of concurrent tasks with its sibling
  abort, and the barrier that turns results into outcomes. Which task finishes next, with what
  result, and in which order a hash map is walked are arguments.
\<close>

section \<open>The window of concurrent tasks\<close>

record batch_exec =
  bx_queue :: "nat list"
  bx_running :: "nat list"
  bx_completed :: "nat \<rightharpoonup> string \<times> gate_error option \<times> nat"
  bx_aborted :: bool

definition batch_start :: "nat \<Rightarrow> nat list \<Rightarrow> batch_exec" where
  "batch_start max_conc queue =
     \<lparr>bx_queue = drop max_conc queue, bx_running = take max_conc queue,
      bx_completed = Map.empty, bx_aborted = False\<rparr>"

fun refill :: "nat \<Rightarrow> nat list \<Rightarrow> nat list \<Rightarrow> nat list \<times> nat list" where
  "refill max_conc running [] = (running, [])"
| "refill max_conc running (i # queue) =
     (if length running < max_conc then refill max_conc (running @ [i]) queue
      else (running, i # queue))"

definition abort_batch :: "batch_exec \<Rightarrow> batch_exec" where
  "abort_batch b = b\<lparr>bx_aborted := True, bx_queue := []\<rparr>"

text \<open>
  One joined task. \<open>abort_all\<close> asks the tasks still in the set to stop: each is joined later, as aborted
  or, when it had already finished, with its result.
\<close>

definition settle :: "joined \<Rightarrow> batch_exec \<Rightarrow> batch_exec" where
  "settle j b =
     (let b1 = b\<lparr>bx_running := remove1 (fst j) (bx_running b)\<rparr> in
      case snd j of
        None \<Rightarrow> b1
      | Some (raw, err, dur) \<Rightarrow>
          (let b2 = (if err \<noteq> None \<and> \<not> bx_aborted b1 then abort_batch b1 else b1)
           in b2\<lparr>bx_completed := (bx_completed b2)(fst j \<mapsto> (raw, err, dur))\<rparr>))"

definition check_cancelled :: "bool \<Rightarrow> batch_exec \<Rightarrow> batch_exec" where
  "check_cancelled cancelled b = (if cancelled \<and> \<not> bx_aborted b then abort_batch b else b)"

definition refill_window :: "nat \<Rightarrow> batch_exec \<Rightarrow> batch_exec" where
  "refill_window max_conc b =
     (if bx_aborted b then b
      else (case refill max_conc (bx_running b) (bx_queue b) of
              (r, q) \<Rightarrow> b\<lparr>bx_running := r, bx_queue := q\<rparr>))"

definition join_step :: "nat \<Rightarrow> joined \<Rightarrow> bool \<Rightarrow> batch_exec \<Rightarrow> batch_exec" where
  "join_step max_conc j cancelled b =
     refill_window max_conc (check_cancelled cancelled (settle j b))"

text \<open>The loop over \<open>join_next\<close>: a schedule is one the join set can produce if it always names a running
  task and ends when none is left; otherwise the result is \<open>None\<close>.\<close>

fun join_loop :: "nat \<Rightarrow> (joined \<times> bool) list \<Rightarrow> batch_exec \<Rightarrow> batch_exec option" where
  "join_loop max_conc [] b = (if bx_running b = [] then Some b else None)"
| "join_loop max_conc ((j, cancelled) # js) b =
     (if fst j \<in> set (bx_running b) then join_loop max_conc js (join_step max_conc j cancelled b)
      else None)"

section \<open>The serial phase\<close>

record prepared_exec =
  pe_index :: nat
  pe_input :: json
  pe_geju_name :: string
  pe_execution_mode :: string
  pe_heaven_stem :: stem
  pe_target_palace :: palace

record phase_env =
  phe_gate :: gate_env
  phe_human :: environment
  phe_plate :: human_plate
  phe_finalize :: finalize_env
  phe_session :: string
  phe_ser :: "json \<Rightarrow> string"
  phe_by_id :: "string \<rightharpoonup> nat"

record phase =
  ph_outcomes :: "call_outcome option list"
  ph_prepared :: "prepared_exec list"
  ph_guard :: repeat_guard
  ph_reminder :: "string option"
  ph_touched :: "string list"
  ph_state :: human_state
  ph_slots :: "early_slot list"

text \<open>The slots of the stream by call id; on equal ids the later slot wins, as in collecting a map.\<close>

definition early_by_id :: "tool_call list \<Rightarrow> early_slot list \<Rightarrow> string \<rightharpoonup> nat" where
  "early_by_id calls slts = map_of (rev (zip (map call_id calls) [0..<length slts]))"

definition set_outcome :: "nat \<Rightarrow> call_outcome \<Rightarrow> phase \<Rightarrow> phase" where
  "set_outcome i out ph = ph\<lparr>ph_outcomes := (ph_outcomes ph)[i := Some out]\<rparr>"

definition prepare_cleared :: "phase_env \<Rightarrow> nat \<Rightarrow> tool_call \<Rightarrow> cleared_call \<Rightarrow> phase \<Rightarrow> phase" where
  "prepare_cleared pe i tc cl ph =
     (case prepare (phe_human pe) (phe_plate pe) (tool.truncate (cl_tool cl)) (parameters tc)
             (phe_session pe) (cl_geju_result cl) (ph_state ph) of
        (Inr v, st) \<Rightarrow>
          ph\<lparr>ph_state := st,
             ph_prepared := ph_prepared ph @
               [\<lparr>pe_index = i, pe_input = v, pe_geju_name = cl_geju_name cl,
                 pe_execution_mode = cl_execution_mode cl, pe_heaven_stem = cl_heaven_stem cl,
                 pe_target_palace = cl_target_palace cl\<rparr>]\<rparr>
      | (Inl d, st) \<Rightarrow>
          (let (out, ids) = finalize_outcome (phe_finalize pe) tc []
                 (gate_denied (DispatchDenied d) (cl_geju_name cl) (cl_execution_mode cl)
                    (cl_heaven_stem cl) (cl_target_palace cl)) (ph_touched ph)
           in set_outcome i out (ph\<lparr>ph_state := st, ph_touched := ids\<rparr>)))"

text \<open>A call the stream has not gated: the repeat guard, then the gate. The flag is the forced stop.\<close>

definition gate_call ::
  "phase_env \<Rightarrow> (string \<rightharpoonup> nat) \<Rightarrow> nat \<Rightarrow> tool_call \<Rightarrow> phase \<Rightarrow> bool \<times> phase" where
  "gate_call pe failures i tc ph =
     (case repeat_check (phe_ser pe) (ph_guard ph) tc of
        (ForceStop, g) \<Rightarrow> (True, ph\<lparr>ph_guard := g\<rparr>)
      | (GoOn r, g) \<Rightarrow>
          (let ph1 = ph\<lparr>ph_guard := g,
                        ph_reminder := (case r of None \<Rightarrow> ph_reminder ph | Some t \<Rightarrow> Some t)\<rparr>
           in (False,
               (case fst (gate_one_tool (phe_gate pe) failures tc) of
                  Finished out \<Rightarrow> set_outcome i out ph1
                | Cleared cl \<Rightarrow> prepare_cleared pe i tc cl ph1))))"

definition phase_call ::
  "phase_env \<Rightarrow> (string \<rightharpoonup> nat) \<Rightarrow> nat \<Rightarrow> tool_call \<Rightarrow> phase \<Rightarrow> bool \<times> phase" where
  "phase_call pe failures i tc ph =
     (case phe_by_id pe (call_id tc) of
        Some k \<Rightarrow>
          (let ph1 = ph\<lparr>ph_slots := (ph_slots ph)[k := Consumed]\<rparr> in
           case ph_slots ph ! k of
             Done out \<Rightarrow> (False, set_outcome i out ph1)
           | Gated cl \<Rightarrow> (False, prepare_cleared pe i tc cl ph1)
           | _ \<Rightarrow> gate_call pe failures i tc ph)
      | None \<Rightarrow> gate_call pe failures i tc ph)"

fun phase_loop ::
  "phase_env \<Rightarrow> (string \<rightharpoonup> nat) \<Rightarrow> nat \<Rightarrow> tool_call list \<Rightarrow> phase \<Rightarrow> bool \<times> phase" where
  "phase_loop pe failures i [] ph = (False, ph)"
| "phase_loop pe failures i (tc # tcs) ph =
     (case phase_call pe failures i tc ph of
        (True, ph') \<Rightarrow> (True, ph')
      | (False, ph') \<Rightarrow> phase_loop pe failures (Suc i) tcs ph')"

definition phase_begin ::
  "nat \<Rightarrow> repeat_guard \<Rightarrow> string option \<Rightarrow> string list \<Rightarrow> human_state \<Rightarrow> early_slot list \<Rightarrow> phase" where
  "phase_begin n g r ids st slts =
     \<lparr>ph_outcomes = replicate n None, ph_prepared = [], ph_guard = g, ph_reminder = r,
      ph_touched = ids, ph_state = st, ph_slots = slts\<rparr>"

section \<open>The barrier\<close>

text \<open>
  What the tasks of a batch do: the result of a call that runs alone, the schedule of a concurrent
  batch, and the order in which the map of the barrier is walked.
\<close>

record batch_world =
  bw_single :: "string \<times> gate_error option \<times> nat"
  bw_joins :: "(joined \<times> bool) list"
  bw_order :: "nat list"

definition exec_outcome :: "prepared_exec \<Rightarrow> gate_error option \<Rightarrow> bool \<Rightarrow> call_outcome" where
  "exec_outcome p err cancelled =
     \<lparr>co_output = [], co_error = err, co_geju_name = pe_geju_name p,
      co_execution_mode = pe_execution_mode p, co_heaven_stem = pe_heaven_stem p,
      co_target_palace = pe_target_palace p, co_synthetic_cancel = cancelled\<rparr>"

definition barrier_outcome ::
  "finalize_env \<Rightarrow> (nat \<rightharpoonup> string \<times> gate_error option \<times> nat) \<Rightarrow> tool_call \<Rightarrow> prepared_exec \<Rightarrow> string list \<Rightarrow>
   call_outcome \<times> string list" where
  "barrier_outcome fe done tc p ids =
     (case done (pe_index p) of
        Some (raw, err, _) \<Rightarrow> finalize_outcome fe tc raw (exec_outcome p err False) ids
      | None \<Rightarrow> finalize_outcome fe tc [] (exec_outcome p (Some SiblingCancelled) True) ids)"

definition barrier_one ::
  "finalize_env \<Rightarrow> (nat \<rightharpoonup> string \<times> gate_error option \<times> nat) \<Rightarrow> tool_call list \<Rightarrow> prepared_exec list \<Rightarrow> nat \<Rightarrow>
   call_outcome option list \<times> string list \<Rightarrow> call_outcome option list \<times> string list" where
  "barrier_one fe done batch ps i acc =
     (case find (\<lambda>p. pe_index p = i) ps of
        None \<Rightarrow> acc
      | Some p \<Rightarrow>
          (case barrier_outcome fe done (batch ! i) p (snd acc) of
             (out, ids) \<Rightarrow> ((fst acc)[i := Some out], ids)))"

definition execute_batch ::
  "finalize_env \<Rightarrow> nat \<Rightarrow> batch_world \<Rightarrow> tool_call list \<Rightarrow> prepared_exec list \<Rightarrow>
   call_outcome option list \<times> string list \<Rightarrow> (call_outcome option list \<times> string list) option" where
  "execute_batch fe max_conc w batch ps acc =
     (case ps of
        [] \<Rightarrow> Some acc
      | [p] \<Rightarrow>
          (case bw_single w of
             (raw, err, _) \<Rightarrow>
               (case finalize_outcome fe (batch ! pe_index p) raw (exec_outcome p err False) (snd acc) of
                  (out, ids) \<Rightarrow> Some ((fst acc)[pe_index p := Some out], ids)))
      | _ \<Rightarrow>
          (case join_loop max_conc (bw_joins w) (batch_start max_conc (map pe_index ps)) of
             None \<Rightarrow> None
           | Some b \<Rightarrow> Some (fold (barrier_one fe (bx_completed b) batch ps) (bw_order w) acc)))"

text \<open>Phases one to three of one batch; the flag is the forced stop.\<close>

definition run_batch ::
  "phase_env \<Rightarrow> (string \<rightharpoonup> nat) \<Rightarrow> nat \<Rightarrow> batch_world \<Rightarrow> tool_call list \<Rightarrow> phase \<Rightarrow> (bool \<times> phase) option" where
  "run_batch pe failures max_conc w batch ph0 =
     (case phase_loop pe failures 0 batch ph0 of
        (True, ph) \<Rightarrow> Some (True, ph)
      | (False, ph) \<Rightarrow>
          (case execute_batch (phe_finalize pe) max_conc w batch (ph_prepared ph)
                  (ph_outcomes ph, ph_touched ph) of
             None \<Rightarrow> None
           | Some (outs, ids) \<Rightarrow> Some (False, ph\<lparr>ph_outcomes := outs, ph_touched := ids\<rparr>)))"

section \<open>What the window guarantees\<close>

text \<open>A call is somewhere: waiting, running, finished, or lost to an abort or a panic.\<close>

definition window_base :: "nat \<Rightarrow> nat list \<Rightarrow> batch_exec \<Rightarrow> bool" where
  "window_base max_conc calls b =
     (distinct (bx_running b @ bx_queue b) \<and> set (bx_running b @ bx_queue b) \<subseteq> set calls \<and>
      dom (bx_completed b) \<subseteq> set calls \<and> dom (bx_completed b) \<inter> set (bx_running b @ bx_queue b) = {} \<and>
      length (bx_running b) \<le> max_conc \<and> (bx_aborted b \<longrightarrow> bx_queue b = []))"

definition window_ok :: "nat \<Rightarrow> nat list \<Rightarrow> batch_exec \<Rightarrow> bool" where
  "window_ok max_conc calls b =
     (window_base max_conc calls b \<and> (bx_queue b \<noteq> [] \<longrightarrow> length (bx_running b) = max_conc))"

lemma refill_append: "refill m r q = (r', q') \<Longrightarrow> r' @ q' = r @ q"
  by (induction m r q rule: refill.induct) (auto split: if_splits)

lemma refill_full:
  "refill m r q = (r', q') \<Longrightarrow> length r \<le> m \<Longrightarrow>
     length r' \<le> m \<and> (q' \<noteq> [] \<longrightarrow> length r' = m)"
  by (induction m r q rule: refill.induct) (auto split: if_splits)

lemma window_ok_start:
  assumes "distinct calls"
  shows "window_ok m calls (batch_start m calls)"
  using assms by (auto simp: window_ok_def window_base_def batch_start_def min_def distinct_append
      simp flip: set_append dest: in_set_takeD in_set_dropD)

lemma window_base_abort: "window_base m calls b \<Longrightarrow> window_base m calls (abort_batch b)"
  by (auto simp: window_base_def abort_batch_def)

lemma window_base_complete:
  "window_base m calls b \<Longrightarrow> i \<in> set calls \<Longrightarrow> i \<notin> set (bx_running b @ bx_queue b) \<Longrightarrow>
     window_base m calls (b\<lparr>bx_completed := (bx_completed b)(i \<mapsto> r)\<rparr>)"
  by (auto simp: window_base_def)

lemma window_base_leave:
  assumes "window_base m calls b" "i \<in> set (bx_running b)"
  shows "window_base m calls (b\<lparr>bx_running := remove1 i (bx_running b)\<rparr>)"
    and "i \<in> set calls" "i \<notin> set (remove1 i (bx_running b) @ bx_queue b)"
  using assms by (auto simp: window_base_def length_remove1)

lemma window_base_settle:
  assumes "window_base m calls b" "fst j \<in> set (bx_running b)"
  shows "window_base m calls (settle j b)"
proof -
  let ?b = "b\<lparr>bx_running := remove1 (fst j) (bx_running b)\<rparr>"
  note leave = window_base_leave [OF assms]
  have "window_base m calls (c\<lparr>bx_completed := (bx_completed c)(fst j \<mapsto> r)\<rparr>)"
    if "c = ?b \<or> c = abort_batch ?b" for c r
    by (rule window_base_complete)
      (use that leave window_base_abort [OF leave(1)] in \<open>auto simp: abort_batch_def\<close>)
  then show ?thesis using leave(1) by (auto simp: settle_def Let_def split: option.splits prod.splits)
qed

lemma window_base_check: "window_base m calls b \<Longrightarrow> window_base m calls (check_cancelled c b)"
  by (simp add: check_cancelled_def window_base_abort)

lemma window_ok_refill:
  assumes "window_base m calls b"
  shows "window_ok m calls (refill_window m b)"
proof (cases "bx_aborted b")
  case True
  then show ?thesis using assms by (auto simp: refill_window_def window_ok_def window_base_def)
next
  case False
  obtain r q where rq: "refill m (bx_running b) (bx_queue b) = (r, q)" by fastforce
  then show ?thesis using assms False refill_append [OF rq] refill_full [OF rq]
    by (simp add: refill_window_def window_ok_def window_base_def del: set_append distinct_append)
qed

lemma join_step_ok:
  "window_ok m calls b \<Longrightarrow> fst j \<in> set (bx_running b) \<Longrightarrow> window_ok m calls (join_step m j c b)"
  unfolding join_step_def
  by (intro window_ok_refill window_base_check window_base_settle) (simp_all add: window_ok_def)

text \<open>Each join shrinks what is waiting or running by at least the task that was joined.\<close>

definition pending_work :: "batch_exec \<Rightarrow> nat" where
  "pending_work b = length (bx_running b) + length (bx_queue b)"

lemma settle_work:
  assumes "fst j \<in> set (bx_running b)"
  shows "pending_work (settle j b) < pending_work b"
proof -
  have "length (remove1 (fst j) (bx_running b)) < length (bx_running b)"
    using assms length_pos_if_in_set [OF assms] by (simp add: length_remove1)
  then show ?thesis
    by (auto simp: settle_def pending_work_def abort_batch_def Let_def split: option.splits prod.splits)
qed

lemma abort_work: "pending_work (abort_batch b) \<le> pending_work b"
  by (simp add: pending_work_def abort_batch_def)

lemma refill_window_work: "pending_work (refill_window m b) = pending_work b"
proof -
  obtain r q where rq: "refill m (bx_running b) (bx_queue b) = (r, q)" by fastforce
  have "length r + length q = length (bx_running b) + length (bx_queue b)"
    using refill_append [OF rq] by (metis length_append)
  then show ?thesis by (simp add: refill_window_def pending_work_def rq)
qed

lemma join_step_work:
  assumes "fst j \<in> set (bx_running b)"
  shows "pending_work (join_step m j c b) < pending_work b"
  using settle_work [OF assms] abort_work [of "settle j b"]
  by (auto simp: join_step_def refill_window_work check_cancelled_def)

lemma join_loop_ok:
  "join_loop m js b = Some b' \<Longrightarrow> window_ok m calls b \<Longrightarrow>
     window_ok m calls b' \<and> bx_running b' = [] \<and> length js \<le> pending_work b"
proof (induction m js b rule: join_loop.induct)
  case (1 m b)
  then show ?case by (simp split: if_splits)
next
  case (2 m j c js b)
  then have j: "fst j \<in> set (bx_running b)" by (simp split: if_splits)
  show ?case using 2 j join_step_ok [of m calls b j c] join_step_work [OF j, of m c] by fastforce
qed

section \<open>Every call of a batch is accounted for\<close>

text \<open>The state after a prefix of the schedule.\<close>

definition after_joins :: "nat \<Rightarrow> (joined \<times> bool) list \<Rightarrow> batch_exec \<Rightarrow> batch_exec" where
  "after_joins m js b = fold (\<lambda>(j, c). join_step m j c) js b"

lemma after_joins_simps [simp]:
  "after_joins m [] b = b"
  "after_joins m ((j, c) # js) b = after_joins m js (join_step m j c b)"
  by (simp_all add: after_joins_def)

lemma join_loop_prefix:
  "join_loop m (js @ js') b = Some b' \<Longrightarrow> window_ok m calls b \<Longrightarrow>
     window_ok m calls (after_joins m js b) \<and> join_loop m js' (after_joins m js b) = Some b'"
proof (induction js arbitrary: b)
  case Nil
  then show ?case by simp
next
  case (Cons x js)
  obtain j c where x: "x = (j, c)" by fastforce
  then have "fst j \<in> set (bx_running b)" using Cons.prems by (simp split: if_splits)
  then show ?case using Cons join_step_ok [of m calls b j c] x by simp
qed

definition halting :: "joined \<times> bool \<Rightarrow> bool" where
  "halting jc = (snd jc \<or> (\<exists>raw e dur. snd (fst jc) = Some (raw, Some e, dur)))"

lemma settle_completed:
  "bx_completed (settle j b) =
     (case snd j of None \<Rightarrow> bx_completed b | Some r \<Rightarrow> (bx_completed b)(fst j \<mapsto> r))"
  by (auto simp: settle_def abort_batch_def Let_def split: option.splits prod.splits)

lemma join_step_completed [simp]: "bx_completed (join_step m j c b) = bx_completed (settle j b)"
  by (auto simp: join_step_def refill_window_def check_cancelled_def abort_batch_def split: prod.splits)

lemma join_step_aborted: "bx_aborted (join_step m j c b) = (bx_aborted b \<or> halting (j, c))"
  by (auto simp: join_step_def refill_window_def check_cancelled_def abort_batch_def settle_def
      Let_def halting_def split: prod.splits option.splits)

text \<open>Where a joined task goes: out of the window, and into the results unless it was lost.\<close>

lemma join_step_window:
  assumes "window_ok m calls b" "fst j \<in> set (bx_running b)" "\<not> bx_aborted (join_step m j c b)"
  shows "set (bx_running (join_step m j c b) @ bx_queue (join_step m j c b)) =
    set (bx_running b @ bx_queue b) - {fst j}"
proof -
  let ?b = "b\<lparr>bx_running := remove1 (fst j) (bx_running b)\<rparr>"
  have ab: "\<not> bx_aborted b" "\<not> halting (j, c)" using assms(3) by (simp_all add: join_step_aborted)
  then have s: "bx_running (settle j b) = remove1 (fst j) (bx_running b)"
      "bx_queue (settle j b) = bx_queue b" "\<not> bx_aborted (settle j b)" "\<not> c"
    by (auto simp: settle_def Let_def halting_def split: option.splits prod.splits)
  obtain r q where rq: "refill m (remove1 (fst j) (bx_running b)) (bx_queue b) = (r, q)" by fastforce
  have "set (r @ q) = set (remove1 (fst j) (bx_running b) @ bx_queue b)"
    using refill_append [OF rq] by simp
  moreover have "distinct (bx_running b @ bx_queue b)" using assms(1) by (simp add: window_ok_def window_base_def)
  ultimately show ?thesis
    using s assms(2) by (auto simp: join_step_def check_cancelled_def refill_window_def rq)
qed

lemma join_loop_completed:
  assumes "join_loop m js b = Some b'" "window_ok m calls b"
  shows "bx_completed b' i = Some r \<longleftrightarrow> bx_completed b i = Some r \<or> (i, Some r) \<in> fst ` set js"
  using assms
proof (induction js arbitrary: b)
  case Nil
  then show ?case by (simp split: if_splits)
next
  case (Cons x js)
  obtain j c where x: "x = (j, c)" by fastforce
  then have j: "fst j \<in> set (bx_running b)" using Cons.prems by (simp split: if_splits)
  then have n: "bx_completed b (fst j) = None"
    using Cons.prems(2) by (auto simp: window_ok_def window_base_def)
  have "bx_completed b' i = Some r \<longleftrightarrow>
      bx_completed (settle j b) i = Some r \<or> (i, Some r) \<in> fst ` set js"
    using Cons.IH [of "join_step m j c b"] Cons.prems j join_step_ok [OF Cons.prems(2) j, of c] x by simp
  moreover have "bx_completed (settle j b) i = Some r \<longleftrightarrow> bx_completed b i = Some r \<or> j = (i, Some r)"
    using n by (cases j) (auto simp: settle_completed split: option.splits)
  ultimately show ?case using x by auto
qed

lemma join_loop_aborted:
  "join_loop m js b = Some b' \<Longrightarrow> bx_aborted b' = (bx_aborted b \<or> list_ex halting js)"
proof (induction js arbitrary: b)
  case Nil
  then show ?case by (simp split: if_splits)
next
  case (Cons x js)
  then show ?case by (cases x) (auto simp: join_step_aborted split: if_splits)
qed

lemma join_loop_lost:
  assumes "join_loop m js b = Some b'" "window_ok m calls b" "\<not> bx_aborted b'"
    and "i \<in> set (bx_running b @ bx_queue b)" "bx_completed b' i = None" "0 < m"
  shows "(i, None) \<in> fst ` set js"
  using assms
proof (induction js arbitrary: b)
  case Nil
  then show ?case
    by (cases "bx_queue b") (auto simp: window_ok_def window_base_def split: if_splits)
next
  case (Cons x js)
  obtain j c where x: "x = (j, c)" by fastforce
  then have j: "fst j \<in> set (bx_running b)" using Cons.prems by (simp split: if_splits)
  let ?b = "join_step m j c b"
  have l: "join_loop m js ?b = Some b'" using Cons.prems(1) x j by simp
  have ok: "window_ok m calls ?b" using Cons.prems(2) j by (rule join_step_ok)
  have na: "\<not> bx_aborted ?b" using join_loop_aborted [OF l] Cons.prems(3) by simp
  show ?case
  proof (cases "i = fst j")
    case False
    then have "i \<in> set (bx_running ?b @ bx_queue ?b)"
      using Cons.prems(4) join_step_window [OF Cons.prems(2) j na] by blast
    then show ?thesis using Cons.IH [OF l ok Cons.prems(3)] Cons.prems(5,6) by auto
  next
    case True
    then have "snd j = None"
      using join_loop_completed [OF l ok, of i] Cons.prems(5)
      by (cases "snd j") (auto simp: settle_completed)
    then show ?thesis using x True by (metis fst_conv image_eqI list.set_intros(1) prod.collapse)
  qed
qed

text \<open>Whatever the tasks return and whichever finishes first, the loop ends.\<close>

lemma join_loop_ends:
  assumes "window_ok m calls b" "0 < m"
  shows "\<exists>js b'. join_loop m js b = Some b' \<and> (\<forall>x \<in> set js. snd (fst x) = res (fst (fst x)) \<and> \<not> snd x)"
  using assms
proof (induction "pending_work b" arbitrary: b rule: less_induct)
  case less
  show ?case
  proof (cases "bx_running b")
    case Nil
    then have "join_loop m [] b = Some b" by simp
    then show ?thesis by (metis empty_iff list.set(1))
  next
    case (Cons i rest)
    let ?j = "(i, res i)"
    have j: "fst ?j \<in> set (bx_running b)" using Cons by simp
    from less.hyps [OF join_step_work [OF j] join_step_ok [OF less.prems(1) j] less.prems(2)]
    obtain js b' where "join_loop m js (join_step m ?j False b) = Some b'"
      "\<forall>x \<in> set js. snd (fst x) = res (fst (fst x)) \<and> \<not> snd x" by blast
    then have "join_loop m ((?j, False) # js) b = Some b' \<and>
        (\<forall>x \<in> set ((?j, False) # js). snd (fst x) = res (fst (fst x)) \<and> \<not> snd x)"
      using j by simp
    then show ?thesis by blast
  qed
qed

text \<open>A schedule in progress: every task joined so far was running when it was joined.\<close>

fun joins_run :: "nat \<Rightarrow> (joined \<times> bool) list \<Rightarrow> batch_exec \<Rightarrow> batch_exec option" where
  "joins_run m [] b = Some b"
| "joins_run m ((j, c) # js) b =
     (if fst j \<in> set (bx_running b) then joins_run m js (join_step m j c b) else None)"

lemma joins_run_work:
  "joins_run m js b = Some b' \<Longrightarrow> window_ok m calls b \<Longrightarrow>
     window_ok m calls b' \<and> pending_work b' + length js \<le> pending_work b \<and>
     join_loop m (js @ js') b = join_loop m js' b'"
proof (induction m js b rule: joins_run.induct)
  case (1 m b)
  then show ?case by simp
next
  case (2 m j c js b)
  then have j: "fst j \<in> set (bx_running b)" by (simp split: if_splits)
  show ?case using 2 j join_step_ok [of m calls b j c] join_step_work [OF j, of m c] by force
qed

text \<open>C14: the join loop of a batch ends. However the tasks have finished so far, and whether or not the
  batch was cancelled on the way, no more tasks have been joined than the batch has calls, and letting
  the tasks that are left finish, with any results, brings the loop to its end.\<close>

theorem join_loop_terminates:
  assumes "distinct calls" "0 < m" "joins_run m js (batch_start m calls) = Some b"
  shows "length js \<le> length calls \<and>
    (\<forall>res. \<exists>js' b'. join_loop m (js @ js') (batch_start m calls) = Some b' \<and>
       (\<forall>x \<in> set js'. snd (fst x) = res (fst (fst x))))"
proof -
  let ?s = "batch_start m calls"
  have ok: "window_ok m calls ?s" using assms(1) by (rule window_ok_start)
  have run: "window_ok m calls b" "pending_work b + length js \<le> pending_work ?s"
    "join_loop m (js @ js') ?s = join_loop m js' b" for js'
    using joins_run_work [OF assms(3) ok] by blast+
  have "pending_work ?s = length calls"
    by (simp add: pending_work_def batch_start_def min_def)
  then show ?thesis using run(2,3) join_loop_ends [OF run(1) assms(2)] by (metis add_leD2)
qed

theorem join_loop_terminates_witness:
  "\<exists>js' b'. join_loop 2 (((1, None), True) # js') (batch_start 2 [0, 1, 2 :: nat]) = Some b'"
proof -
  obtain b where "joins_run 2 [((1, None), True)] (batch_start 2 [0, 1, 2]) = Some b"
    by (simp add: batch_start_def)
  moreover have "distinct [0, 1, 2 :: nat]" by simp
  ultimately show ?thesis
    using join_loop_terminates [of "[0, 1, 2]" 2 "[((1, None), True)]" b]
    by (metis append_Cons append_Nil zero_less_numeral)
qed

text \<open>C15: the concurrent execution of a batch accounts for every call. Along the run at most the window
  of tasks is running. It ends after at most one join per call, with exactly the results the tasks
  reported; a call without a result was lost to a panic, or the batch was stopped, and the batch is
  stopped only by a failing call or by cancellation.\<close>

theorem batch_window_accounts:
  assumes "distinct calls" "0 < m" "join_loop m js (batch_start m calls) = Some b"
  shows "(\<forall>k. length (bx_running (after_joins m (take k js) (batch_start m calls))) \<le> m) \<and>
    length js \<le> length calls \<and>
    (\<forall>i r. bx_completed b i = Some r \<longleftrightarrow> (i, Some r) \<in> fst ` set js) \<and>
    dom (bx_completed b) \<subseteq> set calls \<and>
    (\<forall>i \<in> set calls. bx_completed b i = None \<longrightarrow> (i, None) \<in> fst ` set js \<or> list_ex halting js)"
proof -
  let ?s = "batch_start m calls"
  have ok: "window_ok m calls ?s" using assms(1) by (rule window_ok_start)
  have run: "window_ok m calls b \<and> bx_running b = [] \<and> length js \<le> pending_work ?s"
    using join_loop_ok [OF assms(3) ok] .
  have "length (bx_running (after_joins m (take k js) ?s)) \<le> m" for k
    using join_loop_prefix [of m "take k js" "drop k js" ?s b calls] assms(3) ok
    by (simp add: window_ok_def window_base_def)
  moreover have "length js \<le> length calls"
    using run by (simp add: pending_work_def batch_start_def min_def split: if_splits)
  moreover have "\<forall>i r. bx_completed b i = Some r \<longleftrightarrow> (i, Some r) \<in> fst ` set js"
    using join_loop_completed [OF assms(3) ok] by (simp add: batch_start_def)
  moreover have "dom (bx_completed b) \<subseteq> set calls" using run by (simp add: window_ok_def window_base_def)
  moreover have "(i, None) \<in> fst ` set js \<or> list_ex halting js"
    if "i \<in> set calls" "bx_completed b i = None" for i
  proof (cases "bx_aborted b")
    case True
    then show ?thesis using join_loop_aborted [OF assms(3)] by (simp add: batch_start_def)
  next
    case False
    have "i \<in> set (bx_running ?s @ bx_queue ?s)" using that(1) by (simp add: batch_start_def flip: set_append)
    then show ?thesis using join_loop_lost [OF assms(3) ok False _ that(2) assms(2)] by blast
  qed
  ultimately show ?thesis by blast
qed

definition sample_joins :: "(joined \<times> bool) list" where
  "sample_joins =
     [((1, Some (''b'', None, 5)), False), ((0, Some ([], Some (ToolFailed ''e''), 9)), False),
      ((2, None), False)]"

theorem batch_window_accounts_witness:
  "\<exists>b. join_loop 2 sample_joins (batch_start 2 [0, 1, 2, 3]) = Some b \<and>
     bx_completed b 3 = None \<and> list_ex halting sample_joins"
proof -
  obtain b where b: "join_loop 2 sample_joins (batch_start 2 [0, 1, 2, 3]) = Some b" "bx_completed b 3 = None"
    by (simp add: sample_joins_def batch_start_def join_step_def settle_def abort_batch_def
        check_cancelled_def refill_window_def Let_def)
  moreover have "(3, None) \<notin> fst ` set sample_joins" by (simp add: sample_joins_def)
  moreover have "distinct [0, 1, 2, 3 :: nat]" by simp
  ultimately show ?thesis
    using batch_window_accounts [of "[0, 1, 2, 3]" 2 sample_joins b] by auto
qed

section \<open>Every executed call was cleared\<close>

definition cleared_by ::
  "phase_env \<Rightarrow> (string \<rightharpoonup> nat) \<Rightarrow> early_slot list \<Rightarrow> tool_call \<Rightarrow> json \<Rightarrow> bool" where
  "cleared_by pe failures slts tc v =
     (\<exists>cl st st'.
        (fst (gate_one_tool (phe_gate pe) failures tc) = Cleared cl \<or> Gated cl \<in> set slts) \<and>
        prepare (phe_human pe) (phe_plate pe) (tool.truncate (cl_tool cl)) (parameters tc)
          (phe_session pe) (cl_geju_result cl) st = (Ok v, st'))"

definition phase_inv ::
  "phase_env \<Rightarrow> (string \<rightharpoonup> nat) \<Rightarrow> early_slot list \<Rightarrow> tool_call list \<Rightarrow> nat \<Rightarrow> phase \<Rightarrow> bool" where
  "phase_inv pe failures slts batch i ph =
     (length (ph_outcomes ph) = length batch \<and> length (ph_slots ph) = length slts \<and>
      set (ph_slots ph) \<subseteq> insert Consumed (set slts) \<and>
      sorted_wrt (<) (map pe_index (ph_prepared ph)) \<and>
      (\<forall>p \<in> set (ph_prepared ph). pe_index p < i \<and> cleared_by pe failures slts (batch ! pe_index p) (pe_input p)) \<and>
      (\<forall>k < length batch. ph_outcomes ph ! k = None \<longleftrightarrow> i \<le> k \<or> k \<in> pe_index ` set (ph_prepared ph)))"

lemma phase_inv_begin: "phase_inv pe failures slts batch 0 (phase_begin (length batch) g r ids st slts)"
  by (auto simp: phase_inv_def phase_begin_def)

lemma phase_inv_frame [simp]:
  "phase_inv pe failures slts batch i (ph\<lparr>ph_guard := g\<rparr>) = phase_inv pe failures slts batch i ph"
  "phase_inv pe failures slts batch i (ph\<lparr>ph_reminder := r\<rparr>) = phase_inv pe failures slts batch i ph"
  "phase_inv pe failures slts batch i (ph\<lparr>ph_touched := ids\<rparr>) = phase_inv pe failures slts batch i ph"
  "phase_inv pe failures slts batch i (ph\<lparr>ph_state := st\<rparr>) = phase_inv pe failures slts batch i ph"
  by (simp_all add: phase_inv_def)

lemma phase_inv_consume:
  "phase_inv pe failures slts batch i ph \<Longrightarrow>
     phase_inv pe failures slts batch i (ph\<lparr>ph_slots := (ph_slots ph)[k := Consumed]\<rparr>)"
  unfolding phase_inv_def using set_update_subset_insert [of "ph_slots ph" k Consumed] by auto

lemma phase_inv_outcome:
  assumes "phase_inv pe failures slts batch i ph" "i < length batch"
  shows "phase_inv pe failures slts batch (Suc i) (set_outcome i out ph)"
proof -
  have "i \<notin> pe_index ` set (ph_prepared ph)" using assms(1) by (auto simp: phase_inv_def)
  then show ?thesis using assms
    by (auto simp: phase_inv_def set_outcome_def nth_list_update less_Suc_eq Suc_le_eq le_less)
qed

lemma phase_inv_prepared:
  assumes "phase_inv pe failures slts batch i ph" "i < length batch"
    and "cleared_by pe failures slts (batch ! i) (pe_input p)" "pe_index p = i"
  shows "phase_inv pe failures slts batch (Suc i) (ph\<lparr>ph_prepared := ph_prepared ph @ [p]\<rparr>)"
  using assms by (auto simp: phase_inv_def sorted_wrt_append less_Suc_eq le_less Suc_le_eq)

lemma prepare_cleared_inv:
  assumes "phase_inv pe failures slts batch i ph" "i < length batch"
    and "fst (gate_one_tool (phe_gate pe) failures (batch ! i)) = Cleared cl \<or> Gated cl \<in> set slts"
  shows "phase_inv pe failures slts batch (Suc i) (prepare_cleared pe i (batch ! i) cl ph)"
proof -
  let ?r = "prepare (phe_human pe) (phe_plate pe) (tool.truncate (cl_tool cl)) (parameters (batch ! i))
             (phe_session pe) (cl_geju_result cl) (ph_state ph)"
  obtain r st where r: "?r = (r, st)" by fastforce
  show ?thesis
  proof (cases r)
    case (Inr v)
    then have "cleared_by pe failures slts (batch ! i) v"
      using r assms(3) unfolding cleared_by_def by blast
    then show ?thesis using Inr r assms(1,2) phase_inv_prepared [where ph = "ph\<lparr>ph_state := st\<rparr>"]
      by (simp add: prepare_cleared_def)
  next
    case (Inl d)
    then show ?thesis using r assms(1,2)
      by (auto simp: prepare_cleared_def Let_def phase_inv_outcome split: prod.splits)
  qed
qed

lemma gate_call_inv:
  assumes "phase_inv pe failures slts batch i ph" "i < length batch"
    and "gate_call pe failures i (batch ! i) ph = (False, ph')"
  shows "phase_inv pe failures slts batch (Suc i) ph'"
  using assms
  by (auto simp: gate_call_def Let_def phase_inv_outcome prepare_cleared_inv
      split: prod.splits repeat_verdict.splits gated_call.splits)

definition slots_known :: "phase_env \<Rightarrow> early_slot list \<Rightarrow> bool" where
  "slots_known pe slts = (\<forall>x k. phe_by_id pe x = Some k \<longrightarrow> k < length slts)"

lemma early_by_id_known: "phe_by_id pe = early_by_id calls slts \<Longrightarrow> slots_known pe slts"
  by (auto simp: slots_known_def early_by_id_def dest!: map_of_SomeD set_zip_rightD)

lemma phase_call_inv:
  assumes "phase_inv pe failures slts batch i ph" "i < length batch" "slots_known pe slts"
    and "phase_call pe failures i (batch ! i) ph = (False, ph')"
  shows "phase_inv pe failures slts batch (Suc i) ph'"
proof (cases "phe_by_id pe (call_id (batch ! i))")
  case None
  then show ?thesis using assms gate_call_inv by (simp add: phase_call_def)
next
  case (Some k)
  then have "k < length (ph_slots ph)" using assms(1,3) by (simp add: phase_inv_def slots_known_def)
  then have "ph_slots ph ! k \<in> insert Consumed (set slts)"
    using assms(1) nth_mem unfolding phase_inv_def by blast
  then show ?thesis using Some assms(1,2,4) gate_call_inv [OF assms(1,2)]
    by (auto simp: phase_call_def Let_def phase_inv_outcome phase_inv_consume prepare_cleared_inv
        split: early_slot.splits)
qed

lemma phase_loop_inv:
  "phase_inv pe failures slts batch i ph \<Longrightarrow> slots_known pe slts \<Longrightarrow> tcs = drop i batch \<Longrightarrow>
     i \<le> length batch \<Longrightarrow> phase_loop pe failures i tcs ph = (False, ph') \<Longrightarrow>
     phase_inv pe failures slts batch (length batch) ph'"
proof (induction pe failures i tcs ph rule: phase_loop.induct)
  case (1 pe failures i ph)
  then show ?case by simp
next
  case (2 pe failures i tc tcs ph)
  have d: "drop i batch = tc # tcs" using "2.prems"(3) by simp
  then have i: "i < length batch" by (cases "i < length batch") simp_all
  then have tc: "tc = batch ! i" "tcs = drop (Suc i) batch"
    using d by (simp_all add: Cons_nth_drop_Suc [symmetric])
  obtain ph1 where ph1: "phase_call pe failures i tc ph = (False, ph1)"
    using "2.prems"(5) by (auto split: prod.splits bool.splits)
  have "phase_inv pe failures slts batch (Suc i) ph1"
    using phase_call_inv [OF "2.prems"(1) i "2.prems"(2)] ph1 tc by simp
  then show ?case using "2.IH" [OF ph1 [symmetric]] "2.prems"(2,5) ph1 tc i by simp
qed

section \<open>A batch gives every call one outcome\<close>

lemma barrier_outcome_fst: "fst (barrier_outcome fe done tc p ids) = fst (barrier_outcome fe done tc p [])"
  by (auto simp: barrier_outcome_def finalize_outcome_def split: option.splits)

lemma barrier_one_fst:
  "fst (barrier_one fe done batch ps i acc) =
     (case find (\<lambda>p. pe_index p = i) ps of
        None \<Rightarrow> fst acc
      | Some p \<Rightarrow> (fst acc)[i := Some (fst (barrier_outcome fe done (batch ! i) p []))])"
  by (auto simp: barrier_one_def barrier_outcome_fst [of fe "done" "batch ! i" _ "snd acc", symmetric]
      split: option.splits prod.splits)

lemma fold_barrier_length [simp]:
  "length (fst (fold (barrier_one fe done batch ps) order acc)) = length (fst acc)"
  by (induction order arbitrary: acc) (simp_all add: barrier_one_fst split: option.splits)

lemma fold_barrier_nth:
  assumes "k < length (fst acc)"
  shows "fst (fold (barrier_one fe done batch ps) order acc) ! k =
    (case find (\<lambda>p. pe_index p = k) ps of
       Some p \<Rightarrow> if k \<in> set order then Some (fst (barrier_outcome fe done (batch ! k) p [])) else fst acc ! k
     | None \<Rightarrow> fst acc ! k)"
  using assms
proof (induction order arbitrary: acc)
  case Nil
  then show ?case by (simp split: option.splits)
next
  case (Cons i order)
  then show ?case
    by (cases "i = k") (auto simp: barrier_one_fst split: option.splits)
qed

lemma find_index:
  "(\<exists>p. find (\<lambda>p. pe_index p = k) ps = Some p) \<longleftrightarrow> k \<in> pe_index ` set ps"
  by (induction ps) auto

definition covers_batch :: "batch_world \<Rightarrow> tool_call list \<Rightarrow> bool" where
  "covers_batch w batch = ({..<length batch} \<subseteq> set (bw_order w))"

lemma execute_batch_simps [simp]:
  "execute_batch fe m w batch [] acc = Some acc"
  "execute_batch fe m w batch [p] acc =
     (case bw_single w of
        (raw, err, _) \<Rightarrow>
          (case finalize_outcome fe (batch ! pe_index p) raw (exec_outcome p err False) (snd acc) of
             (out, ids) \<Rightarrow> Some ((fst acc)[pe_index p := Some out], ids)))"
  by (simp_all add: execute_batch_def)

lemma execute_batch_many:
  "execute_batch fe m w batch (p # q # ps) acc =
     map_option (\<lambda>b. fold (barrier_one fe (bx_completed b) batch (p # q # ps)) (bw_order w) acc)
       (join_loop m (bw_joins w) (batch_start m (map pe_index (p # q # ps))))"
  by (simp add: execute_batch_def split: option.splits)

lemma execute_batch_cases:
  obtains (none) "ps = []" | (single) p where "ps = [p]" | (many) p q qs where "ps = p # q # qs"
  by (metis list.exhaust)

lemma execute_batch_length:
  assumes "execute_batch fe m w batch ps acc = Some (outs, ids)"
  shows "length outs = length (fst acc)"
proof (cases rule: execute_batch_cases [of ps])
  case (many p q qs)
  then show ?thesis using assms fold_barrier_length [of fe _ batch ps "bw_order w" acc]
    by (auto simp: execute_batch_many simp del: fold_barrier_length) (metis fst_conv)
qed (use assms in \<open>auto split: prod.splits\<close>)

lemma execute_batch_nth:
  assumes "execute_batch fe m w batch ps acc = Some (outs, ids)"
    and "k < length (fst acc)" "k \<in> set (bw_order w)"
  shows "if k \<in> pe_index ` set ps then outs ! k \<noteq> None else outs ! k = fst acc ! k"
proof (cases rule: execute_batch_cases [of ps])
  case (many p q qs)
  then obtain b :: batch_exec where "fold (barrier_one fe (bx_completed b) batch ps) (bw_order w) acc = (outs, ids)"
    using assms(1) by (auto simp: execute_batch_many)
  then have "outs ! k = fst (fold (barrier_one fe (bx_completed b) batch ps) (bw_order w) acc) ! k" by simp
  then show ?thesis using fold_barrier_nth [OF assms(2)] assms(3) find_index [of k ps]
    by (auto split: option.splits)
qed (use assms in \<open>auto split: prod.splits\<close>)

lemma execute_batch_order:
  assumes "execute_batch fe m w batch ps acc = Some (outs, ids)" "length (fst acc) = length batch"
    and "{..<length batch} \<subseteq> set (bw_order w)" "{..<length batch} \<subseteq> set order"
  shows "map_option fst (execute_batch fe m (w\<lparr>bw_order := order\<rparr>) batch ps acc) = Some outs"
proof (cases rule: execute_batch_cases [of ps])
  case (many p q qs)
  then obtain b where j: "join_loop m (bw_joins w) (batch_start m (map pe_index (p # q # qs))) = Some b"
    and "fold (barrier_one fe (bx_completed b) batch ps) (bw_order w) acc = (outs, ids)"
    using assms(1) by (auto simp: execute_batch_many)
  then have outs: "outs = fst (fold (barrier_one fe (bx_completed b) batch ps) (bw_order w) acc)" by simp
  have "fst (fold (barrier_one fe (bx_completed b) batch ps) order acc) = outs"
    unfolding outs using assms(2-4) by (intro nth_equalityI) (auto simp: fold_barrier_nth subset_iff split: option.splits)
  then show ?thesis using many j by (simp add: execute_batch_many)
qed (use assms in \<open>auto split: prod.splits\<close>)

lemma run_batch_split:
  assumes "run_batch pe failures m w batch ph0 = Some (False, ph)"
  obtains ph1 outs ids where "phase_loop pe failures 0 batch ph0 = (False, ph1)"
    "execute_batch (phe_finalize pe) m w batch (ph_prepared ph1) (ph_outcomes ph1, ph_touched ph1) = Some (outs, ids)"
    "ph = ph1\<lparr>ph_outcomes := outs, ph_touched := ids\<rparr>"
  using assms by (auto simp: run_batch_def split: prod.splits bool.splits option.splits)

lemma run_batch_total:
  assumes "slots_known pe slts" "covers_batch w batch"
    and "run_batch pe failures m w batch (phase_begin (length batch) g r ids st slts) = Some (False, ph)"
  shows "length (ph_outcomes ph) = length batch" "\<forall>k < length batch. \<exists>out. ph_outcomes ph ! k = Some out"
    "\<forall>p \<in> set (ph_prepared ph). pe_index p < length batch \<and>
       cleared_by pe failures slts (batch ! pe_index p) (pe_input p)"
    "length (ph_slots ph) = length slts"
proof -
  obtain ph1 outs ids' where ph1: "phase_loop pe failures 0 batch (phase_begin (length batch) g r ids st slts) = (False, ph1)"
    and ex: "execute_batch (phe_finalize pe) m w batch (ph_prepared ph1) (ph_outcomes ph1, ph_touched ph1) =
      Some (outs, ids')"
    and ph: "ph = ph1\<lparr>ph_outcomes := outs, ph_touched := ids'\<rparr>"
    using run_batch_split [OF assms(3)] .
  have inv: "phase_inv pe failures slts batch (length batch) ph1"
    using phase_loop_inv [OF phase_inv_begin assms(1) _ _ ph1] by simp
  have "outs ! k \<noteq> None" if "k < length batch" for k
  proof -
    have "k \<in> set (bw_order w)" using that assms(2) by (auto simp: covers_batch_def)
    then show ?thesis using execute_batch_nth [OF ex, of k] inv that
      by (cases "k \<in> pe_index ` set (ph_prepared ph1)") (simp_all add: phase_inv_def)
  qed
  then show "\<forall>k < length batch. \<exists>out. ph_outcomes ph ! k = Some out" using ph by simp
  show "length (ph_outcomes ph) = length batch" "length (ph_slots ph) = length slts"
    "\<forall>p \<in> set (ph_prepared ph). pe_index p < length batch \<and>
       cleared_by pe failures slts (batch ! pe_index p) (pe_input p)"
    using execute_batch_length [OF ex] inv ph by (simp_all add: phase_inv_def)
qed

lemma run_batch_order:
  assumes "slots_known pe slts" "covers_batch w batch" "{..<length batch} \<subseteq> set order"
    and "run_batch pe failures m w batch (phase_begin (length batch) g r ids st slts) = Some (False, ph)"
  shows "map_option (\<lambda>(s, ph'). (s, ph_outcomes ph'))
    (run_batch pe failures m (w\<lparr>bw_order := order\<rparr>) batch (phase_begin (length batch) g r ids st slts)) =
    Some (False, ph_outcomes ph)"
proof -
  obtain ph1 outs ids' where ph1: "phase_loop pe failures 0 batch (phase_begin (length batch) g r ids st slts) = (False, ph1)"
    and ex: "execute_batch (phe_finalize pe) m w batch (ph_prepared ph1) (ph_outcomes ph1, ph_touched ph1) =
      Some (outs, ids')"
    and ph: "ph = ph1\<lparr>ph_outcomes := outs, ph_touched := ids'\<rparr>"
    using run_batch_split [OF assms(4)] .
  have "length (ph_outcomes ph1) = length batch"
    using phase_loop_inv [OF phase_inv_begin assms(1) _ _ ph1] by (simp add: phase_inv_def)
  then show ?thesis
    using execute_batch_order [OF ex _ _ assms(3)] assms(2) ph ph1
    by (auto simp: run_batch_def covers_batch_def split: option.splits)
qed


definition sample_phase_env :: phase_env where
  "sample_phase_env =
     \<lparr>phe_gate = sample_gate, phe_human = sample_env, phe_plate = with_state sample_matrix,
      phe_finalize = sample_finalize, phe_session = ''s'', phe_ser = (\<lambda>_. ''{}''),
      phe_by_id = early_by_id [coder_call ''Delegate''] []\<rparr>"

definition sample_world :: batch_world where
  "sample_world = \<lparr>bw_single = (''ok'', None, 1), bw_joins = [], bw_order = [0]\<rparr>"

lemma phase_call_goes_on:
  "fst (repeat_check (phe_ser pe) (ph_guard ph) tc) \<noteq> ForceStop \<Longrightarrow>
     \<exists>ph'. phase_call pe failures i tc ph = (False, ph')"
  by (auto simp: phase_call_def gate_call_def Let_def split: option.splits early_slot.splits
      prod.splits repeat_verdict.splits)

lemma single_prepared:
  assumes "phase_call pe failures 0 tc ph = (False, ph')" "ph_prepared ph = []"
  shows "length (ph_prepared ph') \<le> 1"
  using assms by (auto simp: phase_call_def gate_call_def prepare_cleared_def set_outcome_def Let_def
      split: option.splits early_slot.splits prod.splits repeat_verdict.splits gated_call.splits sum.splits)

text \<open>A single call the repeat guard lets through always completes its batch.\<close>

lemma run_single_batch:
  "\<exists>ph. run_batch pe failures m w [tc] (phase_begin 1 repeat_guard_default r ids st slts) = Some (False, ph)"
proof -
  let ?ph0 = "phase_begin 1 repeat_guard_default r ids st slts"
  have "fst (repeat_check (phe_ser pe) (ph_guard ?ph0) tc) \<noteq> ForceStop"
    by (simp add: repeat_check_def track_def phase_begin_def repeat_guard_default_def repeat_limits Let_def)
  from phase_call_goes_on [OF this] obtain ph1 where
    ph1: "phase_call pe failures 0 tc ?ph0 = (False, ph1)" by blast
  then have "length (ph_prepared ph1) \<le> 1" by (rule single_prepared) (simp add: phase_begin_def)
  then consider "ph_prepared ph1 = []" | p where "ph_prepared ph1 = [p]"
    by (cases "ph_prepared ph1") auto
  then show ?thesis
    using ph1 by cases (auto simp: run_batch_def finalize_outcome_def split: prod.splits)
qed


end
