(* ===== verification/Completion.thy ===== *)
theory Completion
  imports TextUtil "HOL-Library.AList"
begin

text \<open>
  The completion checklist (\<open>plates/shen_spirit/completion_check.rs\<close>): recognising test commands and their
  failed cases, and the bounded table of per-session observations behind it. The lock is a state
  argument; a panic is \<open>None\<close>.
\<close>

section \<open>Test commands\<close>

datatype test_kind = Cargo | Pytest | Go | Vitest | NpmLike

fun kind_str :: "test_kind \<Rightarrow> string" where
  "kind_str Cargo = ''cargo''"
| "kind_str Pytest = ''pytest''"
| "kind_str Go = ''go''"
| "kind_str Vitest = ''vitest''"
| "kind_str NpmLike = ''npm''"

definition detect_test_command :: "string \<Rightarrow> test_kind option" where
  "detect_test_command command =
     (if str_contains command ''cargo nextest'' \<or> str_contains command ''cargo test'' then Some Cargo
      else if str_contains command ''pytest'' then Some Pytest
      else if str_contains command ''go test'' then Some Go
      else if str_contains command ''vitest'' then Some Vitest
      else if str_contains command ''jest'' then Some NpmLike
      else if list_ex (\<lambda>pm. str_contains command (pm @ '' test'') \<or> str_contains command (pm @ '' run test''))
                [''pnpm'', ''npm'', ''yarn'', ''bun''] then Some NpmLike
      else None)"

record test_failure =
  tf_command :: string
  tf_kind :: test_kind
  tf_failed_cases :: "string list"
  tf_tail_excerpt :: "string option"

definition push_case :: "string \<Rightarrow> string list \<Rightarrow> string list" where
  "push_case name cases =
     (let n = trim name in if n \<noteq> [] \<and> n \<notin> set cases then cases @ [n] else cases)"

definition cargo_line :: "string \<Rightarrow> string list \<Rightarrow> string list" where
  "cargo_line line cases =
     (let t = trim line in
      if prefix ''test '' t \<and> suffix ''FAILED'' t
      then push_case (trim (trim_end_char (CHR ''.'') (trim (take (length t - 11) (drop 5 t))))) cases
      else cases)"

fun cargo_section :: "bool \<Rightarrow> string list \<Rightarrow> string list \<Rightarrow> string list" where
  "cargo_section in_failures [] cases = cases"
| "cargo_section in_failures (line # lines) cases =
     (let t = trim line in
      if t = ''failures:'' then cargo_section True lines cases
      else if \<not> in_failures then cargo_section in_failures lines cases
      else if t = [] then cargo_section False lines cases
      else cargo_section in_failures lines
             (if prefix ''    '' line \<and> \<not> list_ex is_whitespace t then push_case t cases else cases))"

definition pytest_line :: "string \<Rightarrow> string list \<Rightarrow> string list" where
  "pytest_line line cases =
     (case strip_prefix_str (trim line) ''FAILED '' of
        Some rest \<Rightarrow> push_case (before_first rest '' - '') cases
      | None \<Rightarrow> cases)"

definition go_line :: "string \<Rightarrow> string list \<Rightarrow> string list" where
  "go_line line cases =
     (case strip_prefix_str (trim line) ''--- FAIL: '' of
        Some rest \<Rightarrow> push_case (case split_whitespace rest of w # _ \<Rightarrow> w | [] \<Rightarrow> rest) cases
      | None \<Rightarrow> cases)"

definition push_after :: "string \<Rightarrow> string \<Rightarrow> string list \<Rightarrow> string list" where
  "push_after pat t cases =
     (case strip_prefix_str t pat of Some rest \<Rightarrow> push_case rest cases | None \<Rightarrow> cases)"

definition js_line :: "string \<Rightarrow> string list \<Rightarrow> string list" where
  "js_line line cases =
     (let t = trim line;
          c1 = push_after [CHR 0xC3, CHR 0x97] t (push_after [CHR 0xE2, CHR 0x9C, CHR 0x95] t cases);
          c2 = push_after ''FAIL '' t c1
      in case strip_prefix_str t [CHR 0xE2, CHR 0x97, CHR 0x8F, CHR 0x20] of
           Some rest \<Rightarrow> (if prefix ''Console'' rest then c2 else push_case rest c2)
         | None \<Rightarrow> c2)"

definition parse_failed_cases :: "test_kind \<Rightarrow> string \<Rightarrow> string list" where
  "parse_failed_cases kind outp =
     (case kind of
        Cargo \<Rightarrow> cargo_section False (str_lines outp) (fold cargo_line (str_lines outp) [])
      | Pytest \<Rightarrow> fold pytest_line (str_lines outp) []
      | Go \<Rightarrow> fold go_line (str_lines outp) []
      | _ \<Rightarrow> fold js_line (str_lines outp) [])"

text \<open>The last twelve lines that are not blank, cut to the last 1500 bytes.\<close>

definition tail_excerpt :: "string \<Rightarrow> string option" where
  "tail_excerpt outp =
     (let lines = filter (\<lambda>l. trim l \<noteq> []) (str_lines outp);
          s = join_lines (drop (length lines - 12) lines)
      in if length s > 1500 then slice_from s (length s - 1500) else Some s)"

definition bullets :: "string list \<Rightarrow> string" where
  "bullets cases = concat (map (\<lambda>c. [CHR 0x0A] @ ''- '' @ c) cases)"

definition format_failure_reminder :: "test_failure \<Rightarrow> string" where
  "format_failure_reminder f =
     ''[Verification] Test command failed: '' @
        [CHR 0x60] @ tf_command f @ [CHR 0x60] @
        '' ('' @ kind_str (tf_kind f) @ '').'' @
     (if tf_failed_cases f \<noteq> [] then
        [CHR 0x0A] @
        ''Failed cases ('' @ nat_to_string (length (tf_failed_cases f)) @ ''):'' @ bullets (tf_failed_cases f) @
        [CHR 0x0A] @
        ''Suggested focus: re-run the failing cases individually for the full output, '' @
        ''fix them, then re-run the whole suite to confirm before wrapping up.''
      else
        [CHR 0x0A] @
        ''Individual failing cases could not be parsed from the output; tail excerpt:'' @
        [CHR 0x0A, CHR 0x60, CHR 0x60, CHR 0x60, CHR 0x0A] @ (case tf_tail_excerpt f of Some t \<Rightarrow> t | None \<Rightarrow> ''(no output)'') @
        [CHR 0x0A, CHR 0x60, CHR 0x60, CHR 0x60, CHR 0x0A] @
        ''Locate the failure from the output above, fix it, then re-run to confirm.'')"

text \<open>\<open>str::parse::<i32>\<close>.\<close>

definition parse_i32 :: "string \<Rightarrow> int option" where
  "parse_i32 s =
     (case s of
        [] \<Rightarrow> None
      | c # cs \<Rightarrow>
          (if c = CHR ''-'' then
             (if cs = [] then None
              else (case parse_digits 0 cs of
                      Some n \<Rightarrow> if n \<le> 2 ^ 31 then Some (- int n) else None
                    | None \<Rightarrow> None))
           else (case parse_unsigned 31 s of Some n \<Rightarrow> Some (int n) | None \<Rightarrow> None)))"

definition parse_exit_code :: "string \<Rightarrow> int option" where
  "parse_exit_code outp =
     (case str_rfind ''[exit code:'' outp of
        None \<Rightarrow> None
      | Some pos \<Rightarrow>
          (let rest = drop (pos + 11) outp in
           case str_find '']'' rest of
             None \<Rightarrow> None
           | Some e \<Rightarrow> parse_i32 (trim (take e rest))))"

definition extract_file_path :: "string \<Rightarrow> string option" where
  "extract_file_path outp =
     (let t = trim outp in if prefix ''/'' t \<or> prefix ''./'' t then Some t else None)"

section \<open>The table of sessions\<close>

record completion_vector =
  cv_exit_codes :: "int list"
  cv_files_created :: "string list"
  cv_grep_matches :: "nat list"
  cv_test_failures :: "test_failure list"
  cv_anomaly_pending :: bool

definition cv_default :: completion_vector where
  "cv_default = \<lparr>cv_exit_codes = [], cv_files_created = [], cv_grep_matches = [],
     cv_test_failures = [], cv_anomaly_pending = False\<rparr>"

definition MAX_SESSION_VECTORS :: nat where "MAX_SESSION_VECTORS = 64"

definition HOOK_BUCKET :: string where "HOOK_BUCKET = ''__hook__''"

record session_vectors =
  sv_map :: "(string \<times> completion_vector) list"
  sv_order :: "string list"

definition sv_new :: session_vectors where
  "sv_new = \<lparr>sv_map = [], sv_order = []\<rparr>"

definition sv_touch :: "string \<Rightarrow> session_vectors \<Rightarrow> session_vectors" where
  "sv_touch sid sv = sv\<lparr>sv_order := filter (\<lambda>k. k \<noteq> sid) (sv_order sv) @ [sid]\<rparr>"

fun evict ::
  "(string \<times> completion_vector) list \<Rightarrow> string list \<Rightarrow> (string \<times> completion_vector) list \<times> string list" where
  "evict m [] = (m, [])"
| "evict m (oldest # order) =
     (if length m \<ge> MAX_SESSION_VECTORS then evict (AList.delete oldest m) order else (m, oldest # order))"

text \<open>\<open>bucket\<close> hands out a reference: it is the entry to change, and \<open>with_bucket\<close> is a change of it.\<close>

definition bucket :: "string \<Rightarrow> session_vectors \<Rightarrow> session_vectors" where
  "bucket sid sv =
     sv_touch sid
       (if map_of (sv_map sv) sid = None
        then (case evict (sv_map sv) (sv_order sv) of
                (m, order) \<Rightarrow> sv\<lparr>sv_map := AList.update sid cv_default m, sv_order := order\<rparr>)
        else sv)"

definition with_bucket ::
  "string \<Rightarrow> (completion_vector \<Rightarrow> completion_vector) \<Rightarrow> session_vectors \<Rightarrow> session_vectors" where
  "with_bucket sid f sv =
     (let sv1 = bucket sid sv in
      sv1\<lparr>sv_map := AList.update sid (f (the (map_of (sv_map sv1) sid))) (sv_map sv1)\<rparr>)"

definition bucket_if_present ::
  "string \<Rightarrow> session_vectors \<Rightarrow> completion_vector option \<times> session_vectors" where
  "bucket_if_present sid sv =
     (case map_of (sv_map sv) sid of
        None \<Rightarrow> (None, sv)
      | Some v \<Rightarrow> (Some v, sv_touch sid sv))"

definition set_bucket :: "string \<Rightarrow> completion_vector \<Rightarrow> session_vectors \<Rightarrow> session_vectors" where
  "set_bucket sid v sv = sv\<lparr>sv_map := AList.update sid v (sv_map sv)\<rparr>"

definition sv_remove :: "string \<Rightarrow> session_vectors \<Rightarrow> session_vectors" where
  "sv_remove sid sv =
     sv\<lparr>sv_map := AList.delete sid (sv_map sv), sv_order := filter (\<lambda>k. k \<noteq> sid) (sv_order sv)\<rparr>"

section \<open>The checklist\<close>

definition ingest :: "string \<Rightarrow> string \<Rightarrow> 'e option \<Rightarrow> session_vectors \<Rightarrow> session_vectors" where
  "ingest tool outp err =
     with_bucket HOOK_BUCKET (\<lambda>v.
       let v1 = (case parse_exit_code outp of
                   Some c \<Rightarrow> v\<lparr>cv_exit_codes := cv_exit_codes v @ [c]\<rparr> | None \<Rightarrow> v);
           v2 = (if tool = ''write_file'' then
                   (case extract_file_path outp of
                      Some p \<Rightarrow> v1\<lparr>cv_files_created := cv_files_created v1 @ [p]\<rparr> | None \<Rightarrow> v1)
                 else v1)
       in if tool = ''grep'' \<and> err = None
          then v2\<lparr>cv_grep_matches := cv_grep_matches v2 @ [length (str_lines outp)]\<rparr>
          else v2)"

datatype completion_assessment = SilentPass | UpgradeToUser nat "string list"

definition assess ::
  "(string \<Rightarrow> bool) \<Rightarrow> session_vectors \<Rightarrow> completion_assessment \<times> session_vectors" where
  "assess path_exists sv =
     (case bucket_if_present HOOK_BUCKET sv of
        (None, sv1) \<Rightarrow> (SilentPass, sv1)
      | (Some v, sv1) \<Rightarrow>
          (let failures = length (filter (\<lambda>c. c \<noteq> 0) (cv_exit_codes v));
               gone = filter (\<lambda>p. \<not> path_exists p) (cv_files_created v)
           in if failures = 0 \<and> gone = [] then (SilentPass, sv1) else (UpgradeToUser failures gone, sv1)))"

definition checklist_reset :: "session_vectors \<Rightarrow> session_vectors" where
  "checklist_reset = with_bucket HOOK_BUCKET (\<lambda>_. cv_default)"

definition ingest_test_command ::
  "string \<Rightarrow> string \<Rightarrow> string \<Rightarrow> 'e option \<Rightarrow> session_vectors \<Rightarrow> session_vectors option" where
  "ingest_test_command sid command outp err sv =
     (case detect_test_command command of
        None \<Rightarrow> Some sv
      | Some kind \<Rightarrow>
          (let failed_cases = parse_failed_cases kind outp;
               exit_nonzero = (case parse_exit_code outp of Some c \<Rightarrow> c \<noteq> 0 | None \<Rightarrow> False)
           in if failed_cases = [] \<and> \<not> exit_nonzero \<and> err = None then Some sv
              else (case (if failed_cases = [] then map_option Some (tail_excerpt outp) else Some None) of
                      None \<Rightarrow> None
                    | Some tail \<Rightarrow>
                        Some (with_bucket sid (\<lambda>v.
                          v\<lparr>cv_anomaly_pending := True,
                            cv_test_failures := cv_test_failures v @
                              [\<lparr>tf_command = truncate_chars command 120, tf_kind = kind,
                                tf_failed_cases = failed_cases, tf_tail_excerpt = tail\<rparr>]\<rparr>) sv))))"

definition take_test_failure_reminders :: "string \<Rightarrow> session_vectors \<Rightarrow> string list \<times> session_vectors" where
  "take_test_failure_reminders sid sv =
     (case bucket_if_present sid sv of
        (None, sv1) \<Rightarrow> ([], sv1)
      | (Some v, sv1) \<Rightarrow>
          (map format_failure_reminder (cv_test_failures v),
           set_bucket sid (v\<lparr>cv_test_failures := []\<rparr>) sv1))"

definition take_verification_anomaly :: "string \<Rightarrow> session_vectors \<Rightarrow> bool \<times> session_vectors" where
  "take_verification_anomaly sid sv =
     (case bucket_if_present sid sv of
        (None, sv1) \<Rightarrow> (False, sv1)
      | (Some v, sv1) \<Rightarrow> (cv_anomaly_pending v, set_bucket sid (v\<lparr>cv_anomaly_pending := False\<rparr>) sv1))"

definition note_verification_anomaly :: "string \<Rightarrow> session_vectors \<Rightarrow> session_vectors" where
  "note_verification_anomaly sid = with_bucket sid (\<lambda>v. v\<lparr>cv_anomaly_pending := True\<rparr>)"

definition end_session :: "string \<Rightarrow> session_vectors \<Rightarrow> session_vectors" where
  "end_session sid sv = sv_remove sid sv"

section \<open>The table stays bounded and consistent\<close>

definition sv_lookup :: "session_vectors \<Rightarrow> string \<Rightarrow> completion_vector option" where
  "sv_lookup sv = map_of (sv_map sv)"

definition consistent :: "(string \<times> completion_vector) list \<Rightarrow> string list \<Rightarrow> bool" where
  "consistent m order = (distinct (map fst m) \<and> distinct order \<and> set order = set (map fst m))"

definition sv_ok :: "session_vectors \<Rightarrow> bool" where
  "sv_ok sv = (consistent (sv_map sv) (sv_order sv) \<and> length (sv_map sv) \<le> MAX_SESSION_VECTORS)"

lemma consistent_length: "consistent m order \<Longrightarrow> length order = length m"
  unfolding consistent_def by (metis distinct_card length_map)

lemma consistent_delete:
  "consistent m (k # order) \<Longrightarrow> consistent (AList.delete k m) order"
  by (auto simp: consistent_def AList.delete_keys distinct_removeAll simp del: set_map)

lemma consistent_touch:
  "consistent m order \<Longrightarrow> k \<in> set (map fst m) \<Longrightarrow> consistent m (filter (\<lambda>x. x \<noteq> k) order @ [k])"
  by (auto simp: consistent_def)

lemma consistent_update:
  "consistent m order \<Longrightarrow> k \<notin> set order \<Longrightarrow> consistent (AList.update k v m) (order @ [k])"
  by (auto simp: consistent_def AList.update_keys simp del: set_map)

lemma consistent_overwrite:
  "consistent m order \<Longrightarrow> k \<in> set order \<Longrightarrow> consistent (AList.update k v m) order"
  by (auto simp: consistent_def AList.update_keys simp del: set_map)

lemma length_update:
  "length (AList.update k v m) = (if k \<in> set (map fst m) then length m else Suc (length m))"
  using arg_cong [OF AList.update_keys, of length k v m] by (auto split: if_splits)

lemma evict_bounded:
  assumes "consistent m order" "length m \<le> MAX_SESSION_VECTORS"
  shows "evict m order =
    (if length m < MAX_SESSION_VECTORS then (m, order) else (AList.delete (hd order) m, tl order))"
proof (cases order)
  case Nil
  then show ?thesis using consistent_length [OF assms(1)] by (simp add: MAX_SESSION_VECTORS_def)
next
  case (Cons k rest)
  then have "length (AList.delete k m) = length rest"
    using consistent_length consistent_delete assms(1) by metis
  then have "length (AList.delete k m) < length m" using consistent_length [OF assms(1)] Cons by simp
  then show ?thesis using Cons assms(2) by (cases rest) auto
qed

lemma sv_keys: "sv_lookup sv sid \<noteq> None \<longleftrightarrow> sid \<in> set (map fst (sv_map sv))"
  unfolding sv_lookup_def by (simp add: map_of_eq_None_iff del: not_None_eq)

lemma sv_present: "sv_ok sv \<Longrightarrow> sv_lookup sv sid \<noteq> None \<longleftrightarrow> sid \<in> set (sv_order sv)"
  unfolding sv_keys by (simp add: sv_ok_def consistent_def del: set_map)

text \<open>What \<open>bucket\<close> does to an absent session: the least recently touched session makes room.\<close>

lemma bucket_absent:
  assumes "sv_ok sv" "sv_lookup sv sid = None"
  shows "sv_ok (bucket sid sv)" "sv_lookup (bucket sid sv) sid = Some cv_default"
    "k \<noteq> sid \<Longrightarrow> sv_lookup (bucket sid sv) k =
       (if length (sv_order sv) = MAX_SESSION_VECTORS \<and> k = hd (sv_order sv) then None else sv_lookup sv k)"
proof -
  obtain m order where mo: "evict (sv_map sv) (sv_order sv) = (m, order)" by fastforce
  have c: "consistent (sv_map sv) (sv_order sv)" "length (sv_map sv) \<le> MAX_SESSION_VECTORS"
    using assms(1) by (simp_all add: sv_ok_def)
  note len = consistent_length [OF c(1)]
  have ev: "(m, order) = (if length (sv_map sv) < MAX_SESSION_VECTORS then (sv_map sv, sv_order sv)
      else (AList.delete (hd (sv_order sv)) (sv_map sv), tl (sv_order sv)))"
    using evict_bounded [OF c] mo by simp
  have cm: "consistent m order \<and> length m < MAX_SESSION_VECTORS \<and> set order \<subseteq> set (sv_order sv)"
  proof (cases "length (sv_map sv) < MAX_SESSION_VECTORS")
    case True
    then show ?thesis using ev c by simp
  next
    case False
    then obtain o1 rest where o1: "sv_order sv = o1 # rest"
      using len by (cases "sv_order sv") (simp_all add: MAX_SESSION_VECTORS_def)
    then have "consistent m order" "order = rest" using False ev c consistent_delete by simp_all
    then show ?thesis using consistent_length [of m order] len o1 c(2) by auto
  qed
  have sid: "sid \<notin> set (sv_order sv)" using sv_present [OF assms(1)] assms(2) by metis
  have f: "filter (\<lambda>k. k \<noteq> sid) order = order" by (rule filter_True) (use sid cm in blast)
  have b: "bucket sid sv = sv\<lparr>sv_map := AList.update sid cv_default m, sv_order := order @ [sid]\<rparr>"
    using assms(2) mo f by (simp add: bucket_def sv_touch_def sv_lookup_def)
  have so: "sid \<notin> set order" using sid cm by blast
  have "sid \<notin> set (map fst m)" using so cm by (simp add: consistent_def)
  then show "sv_ok (bucket sid sv)"
    using b cm consistent_update [of m order sid] so by (simp add: sv_ok_def length_update)
  show "sv_lookup (bucket sid sv) sid = Some cv_default"
    by (simp add: b sv_lookup_def AList.update_conv')
  show "sv_lookup (bucket sid sv) k =
       (if length (sv_order sv) = MAX_SESSION_VECTORS \<and> k = hd (sv_order sv) then None else sv_lookup sv k)"
    if "k \<noteq> sid"
    using that ev c(2) len by (auto simp: b sv_lookup_def AList.update_conv' AList.delete_conv' split: if_splits)
qed

lemma touch_ok: "sv_ok sv \<Longrightarrow> sv_lookup sv sid \<noteq> None \<Longrightarrow> sv_ok (sv_touch sid sv)"
  unfolding sv_keys using consistent_touch by (simp add: sv_ok_def sv_touch_def)

lemma touch_lookup [simp]: "sv_lookup (sv_touch sid sv) = sv_lookup sv"
  by (simp add: sv_touch_def sv_lookup_def)

lemma set_bucket_ok: "sv_ok sv \<Longrightarrow> sv_lookup sv sid \<noteq> None \<Longrightarrow> sv_ok (set_bucket sid v sv)"
  using sv_present [of sv sid] consistent_overwrite [of "sv_map sv" "sv_order sv" sid v]
  unfolding sv_keys by (simp add: sv_ok_def set_bucket_def length_update)

lemma set_bucket_lookup [simp]: "sv_lookup (set_bucket sid v sv) = (sv_lookup sv)(sid \<mapsto> v)"
  by (simp add: set_bucket_def sv_lookup_def AList.update_conv')

lemma bucket_present: "sv_lookup sv sid \<noteq> None \<Longrightarrow> bucket sid sv = sv_touch sid sv"
  by (auto simp: bucket_def sv_lookup_def)

lemma bucket_ok: "sv_ok sv \<Longrightarrow> sv_ok (bucket sid sv)"
  using bucket_absent(1) touch_ok bucket_present by metis

lemma bucket_lookup:
  assumes "sv_ok sv"
  shows "sv_lookup (bucket sid sv) sid = Some (case sv_lookup sv sid of Some v \<Rightarrow> v | None \<Rightarrow> cv_default)"
  using assms bucket_absent(2) bucket_present by (cases "sv_lookup sv sid") auto

lemma with_bucket_set:
  "with_bucket sid f sv = set_bucket sid (f (the (sv_lookup (bucket sid sv) sid))) (bucket sid sv)"
  by (simp add: with_bucket_def set_bucket_def sv_lookup_def Let_def)

lemma with_bucket_ok: "sv_ok sv \<Longrightarrow> sv_ok (with_bucket sid f sv)"
  by (simp add: with_bucket_set set_bucket_ok bucket_ok bucket_lookup)

lemma with_bucket_same:
  "sv_ok sv \<Longrightarrow> sv_lookup (with_bucket sid f sv) sid =
     Some (f (case sv_lookup sv sid of Some v \<Rightarrow> v | None \<Rightarrow> cv_default))"
  by (simp add: with_bucket_set bucket_lookup)

text \<open>A session that is not the oldest of a full table is not affected by the others.\<close>

definition safe_from :: "string \<Rightarrow> string \<Rightarrow> session_vectors \<Rightarrow> bool" where
  "safe_from sid k sv =
     (sv_lookup sv sid \<noteq> None \<or> length (sv_order sv) < MAX_SESSION_VECTORS \<or> hd (sv_order sv) \<noteq> k)"

lemma with_bucket_other:
  assumes "sv_ok sv" "k \<noteq> sid" "safe_from sid k sv"
  shows "sv_lookup (with_bucket sid f sv) k = sv_lookup sv k"
proof (cases "sv_lookup sv sid")
  case None
  then show ?thesis
    using assms bucket_absent(3) [OF assms(1) None, of k] by (auto simp: with_bucket_set safe_from_def)
next
  case (Some v)
  then show ?thesis using assms(2) by (simp add: with_bucket_set bucket_present)
qed

section \<open>Runs of the checklist\<close>

datatype checklist_op =
  Ingest string string "string option"
| Assess "string \<Rightarrow> bool"
| Reset
| TestCommand string string string "string option"
| TakeReminders string
| TakeAnomaly string
| NoteAnomaly string
| EndSession string

fun apply_op :: "checklist_op \<Rightarrow> session_vectors \<Rightarrow> session_vectors option" where
  "apply_op (Ingest tool outp err) sv = Some (ingest tool outp err sv)"
| "apply_op (Assess ex) sv = Some (snd (assess ex sv))"
| "apply_op Reset sv = Some (checklist_reset sv)"
| "apply_op (TestCommand sid cmd outp err) sv = ingest_test_command sid cmd outp err sv"
| "apply_op (TakeReminders sid) sv = Some (snd (take_test_failure_reminders sid sv))"
| "apply_op (TakeAnomaly sid) sv = Some (snd (take_verification_anomaly sid sv))"
| "apply_op (NoteAnomaly sid) sv = Some (note_verification_anomaly sid sv)"
| "apply_op (EndSession sid) sv = Some (end_session sid sv)"

fun op_session :: "checklist_op \<Rightarrow> string" where
  "op_session (TestCommand sid _ _ _) = sid"
| "op_session (TakeReminders sid) = sid"
| "op_session (TakeAnomaly sid) = sid"
| "op_session (NoteAnomaly sid) = sid"
| "op_session (EndSession sid) = sid"
| "op_session _ = HOOK_BUCKET"

fun run_ops :: "checklist_op list \<Rightarrow> session_vectors \<Rightarrow> session_vectors option" where
  "run_ops [] sv = Some sv"
| "run_ops (op # ops) sv = Option.bind (apply_op op sv) (run_ops ops)"

text \<open>Every operation leaves the table alone, changes one bucket, or removes one.\<close>

inductive table_change :: "string \<Rightarrow> session_vectors \<Rightarrow> session_vectors \<Rightarrow> bool" where
  same: "table_change sid sv sv"
| touched: "sv_lookup sv sid = Some v \<Longrightarrow> table_change sid sv (sv_touch sid sv)"
| written: "table_change sid sv (with_bucket sid f sv)"
| rewritten: "sv_lookup sv sid = Some v \<Longrightarrow> table_change sid sv (set_bucket sid w (sv_touch sid sv))"
| dropped: "table_change sid sv (sv_remove sid sv)"

lemma bucket_if_present_cases:
  "bucket_if_present sid sv =
     (case sv_lookup sv sid of None \<Rightarrow> (None, sv) | Some v \<Rightarrow> (Some v, sv_touch sid sv))"
  by (simp add: bucket_if_present_def sv_lookup_def)

lemma apply_op_change:
  assumes "apply_op op sv = Some sv'"
  shows "table_change (op_session op) sv sv'"
proof (cases op)
  case (Assess ex)
  then show ?thesis using assms
    by (auto simp: assess_def bucket_if_present_cases Let_def intro: table_change.intros split: option.splits)
next
  case (TakeReminders sid)
  then show ?thesis using assms
    by (auto simp: take_test_failure_reminders_def bucket_if_present_cases
        intro: table_change.intros split: option.splits)
next
  case (TakeAnomaly sid)
  then show ?thesis using assms
    by (auto simp: take_verification_anomaly_def bucket_if_present_cases
        intro: table_change.intros split: option.splits)
next
  case (TestCommand sid cmd outp err)
  then show ?thesis using assms
    by (auto simp: ingest_test_command_def Let_def intro: table_change.intros split: option.splits if_splits)
qed (use assms in \<open>auto simp: ingest_def checklist_reset_def note_verification_anomaly_def end_session_def
  intro: table_change.intros\<close>)

lemma sv_remove_ok:
  assumes "sv_ok sv"
  shows "sv_ok (sv_remove sid sv)"
proof -
  have "length (AList.delete sid (sv_map sv)) \<le> MAX_SESSION_VECTORS"
    using assms AList.length_delete_le [of sid "sv_map sv"] by (simp add: sv_ok_def)
  moreover have "consistent (AList.delete sid (sv_map sv)) (filter (\<lambda>k. k \<noteq> sid) (sv_order sv))"
    using assms by (auto simp: sv_ok_def consistent_def AList.delete_keys distinct_removeAll simp del: set_map)
  ultimately show ?thesis by (simp add: sv_ok_def sv_remove_def)
qed

lemma sv_remove_lookup [simp]: "sv_lookup (sv_remove sid sv) = (sv_lookup sv)(sid := None)"
  by (simp add: sv_remove_def sv_lookup_def AList.delete_conv')

lemma table_change_ok: "table_change sid sv sv' \<Longrightarrow> sv_ok sv \<Longrightarrow> sv_ok sv'"
  by (induction rule: table_change.induct)
    (simp_all add: touch_ok with_bucket_ok set_bucket_ok sv_remove_ok)

lemma table_change_other:
  "table_change sid sv sv' \<Longrightarrow> sv_ok sv \<Longrightarrow> k \<noteq> sid \<Longrightarrow> safe_from sid k sv \<Longrightarrow> sv_lookup sv' k = sv_lookup sv k"
  by (induction rule: table_change.induct) (simp_all add: with_bucket_other)

lemma run_ops_ok: "run_ops ops sv = Some sv' \<Longrightarrow> sv_ok sv \<Longrightarrow> sv_ok sv'"
  by (induction ops arbitrary: sv)
    (auto simp: bind_eq_Some_conv dest: apply_op_change table_change_ok)

lemma sv_ok_new: "sv_ok sv_new"
  by (simp add: sv_ok_def sv_new_def consistent_def MAX_SESSION_VECTORS_def)

text \<open>C28: after any run of the checklist the table holds at most 64 sessions and its touch order lists
  each of them once; an operation of one session leaves the observations of another as they are
  unless the table is full, the operating session is new, and the other is the one touched longest
  ago.\<close>

theorem checklist_bounded_and_isolated:
  assumes "run_ops ops sv_new = Some sv" "apply_op op sv = Some sv'" "k \<noteq> op_session op"
  shows "sv_ok sv' \<and> length (sv_map sv') \<le> 64 \<and>
    (sv_lookup sv' k = sv_lookup sv k \<or>
     sv_lookup sv (op_session op) = None \<and> length (sv_order sv) = 64 \<and> k = hd (sv_order sv))"
proof -
  have ok: "sv_ok sv" using run_ops_ok [OF assms(1) sv_ok_new] .
  have c: "table_change (op_session op) sv sv'" using assms(2) by (rule apply_op_change)
  have ok': "sv_ok sv'" using table_change_ok [OF c ok] .
  moreover have "safe_from (op_session op) k sv \<or>
      sv_lookup sv (op_session op) = None \<and> length (sv_order sv) = 64 \<and> k = hd (sv_order sv)"
    using ok consistent_length [of "sv_map sv" "sv_order sv"]
    by (auto simp: safe_from_def sv_ok_def MAX_SESSION_VECTORS_def)
  ultimately show ?thesis
    using table_change_other [OF c ok assms(3)] by (auto simp: sv_ok_def MAX_SESSION_VECTORS_def)
qed

theorem checklist_bounded_and_isolated_witness:
  "\<exists>sv sv'. run_ops [NoteAnomaly ''a''] sv_new = Some sv \<and> apply_op (NoteAnomaly ''b'') sv = Some sv' \<and>
     sv_lookup sv' ''a'' = sv_lookup sv ''a''"
proof -
  let ?sv = "note_verification_anomaly ''a'' sv_new"
  let ?sv' = "note_verification_anomaly ''b'' ?sv"
  have r: "run_ops [NoteAnomaly ''a''] sv_new = Some ?sv" "apply_op (NoteAnomaly ''b'') ?sv = Some ?sv'"
    by simp_all
  have "length (sv_order ?sv) = 1"
    by (simp add: note_verification_anomaly_def with_bucket_def bucket_def sv_touch_def sv_new_def Let_def)
  then show ?thesis using checklist_bounded_and_isolated [OF r, of "''a''"] r by auto
qed

section \<open>A failing test command is reported once\<close>

definition failing :: "test_kind \<Rightarrow> string \<Rightarrow> 'e option \<Rightarrow> bool" where
  "failing kind outp err =
     (parse_failed_cases kind outp \<noteq> [] \<or> err \<noteq> None \<or>
      (\<exists>c. parse_exit_code outp = Some c \<and> c \<noteq> 0))"

definition pending_failures :: "session_vectors \<Rightarrow> string \<Rightarrow> test_failure list" where
  "pending_failures sv sid = (case sv_lookup sv sid of Some v \<Rightarrow> cv_test_failures v | None \<Rightarrow> [])"

lemma take_reminders_lookup:
  "take_test_failure_reminders sid sv =
     (map format_failure_reminder (pending_failures sv sid), snd (take_test_failure_reminders sid sv))"
  by (auto simp: take_test_failure_reminders_def bucket_if_present_cases pending_failures_def split: option.splits)

lemma take_reminders_drained: "pending_failures (snd (take_test_failure_reminders sid sv)) sid = []"
  by (auto simp: take_test_failure_reminders_def bucket_if_present_cases pending_failures_def split: option.splits)

lemma take_anomaly_drained:
  "\<not> fst (take_verification_anomaly sid (snd (take_verification_anomaly sid sv)))"
  by (auto simp: take_verification_anomaly_def bucket_if_present_cases split: option.splits)

lemma ingest_test_command_failing:
  assumes "detect_test_command command = Some kind" "failing kind outp err"
    and "ingest_test_command sid command outp err sv = Some sv'" "sv_ok sv"
  shows "\<exists>f v. tf_kind f = kind \<and> tf_failed_cases f = parse_failed_cases kind outp \<and>
    tf_command f = truncate_chars command 120 \<and> cv_anomaly_pending v \<and>
    cv_test_failures v = pending_failures sv sid @ [f] \<and> sv_lookup sv' sid = Some v"
proof -
  obtain tail where sv': "sv' = with_bucket sid (\<lambda>v. v\<lparr>cv_anomaly_pending := True,
      cv_test_failures := cv_test_failures v @
        [\<lparr>tf_command = truncate_chars command 120, tf_kind = kind,
          tf_failed_cases = parse_failed_cases kind outp, tf_tail_excerpt = tail\<rparr>]\<rparr>) sv"
    using assms(1-3) by (auto simp: ingest_test_command_def failing_def Let_def split: option.splits if_splits)
  show ?thesis unfolding sv' with_bucket_same [OF assms(4)]
    by (auto simp: pending_failures_def cv_default_def split: option.splits)
qed

text \<open>The observation of a failing test command is reported exactly once. The next taking of the
  reminders of its session returns the pending ones and then this one, the taking after it returns
  nothing, and the anomaly flag is raised once.\<close>

theorem test_failure_reported_once:
  assumes "run_ops ops sv_new = Some sv" "detect_test_command command = Some kind"
    and "failing kind outp err" "ingest_test_command sid command outp err sv = Some sv'"
  shows "(\<exists>f. tf_kind f = kind \<and> tf_failed_cases f = parse_failed_cases kind outp \<and>
      fst (take_test_failure_reminders sid sv') =
        fst (take_test_failure_reminders sid sv) @ [format_failure_reminder f]) \<and>
    fst (take_test_failure_reminders sid (snd (take_test_failure_reminders sid sv'))) = [] \<and>
    fst (take_verification_anomaly sid sv') \<and>
    \<not> fst (take_verification_anomaly sid (snd (take_verification_anomaly sid sv')))"
proof -
  obtain f v where f: "tf_kind f = kind" "tf_failed_cases f = parse_failed_cases kind outp"
    and v: "cv_anomaly_pending v" "cv_test_failures v = pending_failures sv sid @ [f]" "sv_lookup sv' sid = Some v"
    using ingest_test_command_failing [OF assms(2-4) run_ops_ok [OF assms(1) sv_ok_new]] by blast
  have "pending_failures sv' sid = pending_failures sv sid @ [f]" using v by (simp add: pending_failures_def)
  then have "fst (take_test_failure_reminders sid sv') =
      fst (take_test_failure_reminders sid sv) @ [format_failure_reminder f]"
    by (metis fst_conv list.simps(8,9) map_append take_reminders_lookup)
  moreover have "fst (take_test_failure_reminders sid (snd (take_test_failure_reminders sid sv'))) = []"
    by (metis fst_conv list.simps(8) take_reminders_drained take_reminders_lookup)
  moreover have "fst (take_verification_anomaly sid sv')"
    using v by (simp add: take_verification_anomaly_def bucket_if_present_cases)
  ultimately show ?thesis using f take_anomaly_drained by blast
qed

theorem test_failure_reported_once_witness:
  "\<exists>sv'. ingest_test_command ''s'' ''go test'' [] (Some ()) sv_new = Some sv' \<and>
     length (fst (take_test_failure_reminders ''s'' sv')) = 1"
proof -
  have d: "detect_test_command ''go test'' = Some Go" by code_simp
  have t: "tail_excerpt [] = Some []" "parse_failed_cases Go [] = []" by code_simp+
  then obtain sv' where i: "ingest_test_command ''s'' ''go test'' [] (Some ()) sv_new = Some sv'"
    using d by (auto simp: ingest_test_command_def Let_def)
  have "failing Go [] (Some ())" by (simp add: failing_def)
  from test_failure_reported_once [OF _ d this i, of "[]"] obtain f where
    "fst (take_test_failure_reminders ''s'' sv') =
      fst (take_test_failure_reminders ''s'' sv_new) @ [format_failure_reminder f]" by auto
  moreover have "fst (take_test_failure_reminders ''s'' sv_new) = []"
    by (simp add: take_test_failure_reminders_def bucket_if_present_def sv_new_def)
  ultimately show ?thesis using i by simp
qed

section \<open>The excerpt can split a character\<close>

lemma str_lines_single: "CHR 0x0A \<notin> set s \<Longrightarrow> s \<noteq> [] \<Longrightarrow> str_lines s = [s]"
  by (simp add: str_lines_def drop_final_empty_def split_char_none)

text \<open>The tail excerpt is cut by bytes. On a line that starts with a two-byte character and is
  1501 bytes long the cut falls inside that character and slicing panics, so observing a failing
  test command with such output does not return.\<close>

theorem tail_excerpt_panics:
  assumes "length rest = 1499" "CHR 0x0A \<notin> set rest" "detect_test_command command = Some kind"
    and "parse_failed_cases kind ([CHR 0xC3, CHR 0xA9] @ rest) = []"
  shows "tail_excerpt ([CHR 0xC3, CHR 0xA9] @ rest) = None \<and>
    ingest_test_command sid command ([CHR 0xC3, CHR 0xA9] @ rest) (Some e) sv = None"
proof -
  let ?s = "[CHR 0xC3, CHR 0xA9] @ rest"
  have "str_lines ?s = [?s]" using assms(2) by (intro str_lines_single) auto
  moreover have "trim ?s \<noteq> []"
    by (simp add: trim_def is_whitespace_def)
  ultimately have t: "tail_excerpt ?s = None"
    using assms(1) by (simp add: tail_excerpt_def slice_from_def is_char_boundary_def is_cont_def Let_def)
  then show ?thesis using assms(3,4) by (simp add: ingest_test_command_def Let_def)
qed

lemma trim_prefix: "s \<noteq> [] \<Longrightarrow> \<not> is_whitespace (hd s) \<Longrightarrow> prefix (trim s) s"
  by (cases s) (auto simp: trim_def prefix_def simp del: rev.simps
      intro!: exI [of _ "rev (takeWhile is_whitespace (rev s))"] simp flip: rev_append)

lemma pytest_plain:
  assumes "CHR 0x0A \<notin> set rest"
  shows "parse_failed_cases Pytest ([CHR 0xC3, CHR 0xA9] @ rest) = []"
proof -
  let ?s = "[CHR 0xC3, CHR 0xA9] @ rest"
  have "prefix (trim ?s) ?s" by (intro trim_prefix) (simp_all add: is_whitespace_def)
  then have "\<not> prefix ''FAILED '' (trim ?s)"
    using prefix_order.trans [of "''FAILED ''" "trim ?s" ?s] by auto
  moreover have "str_lines ?s = [?s]" using assms by (intro str_lines_single) auto
  ultimately show ?thesis by (simp add: parse_failed_cases_def pytest_line_def strip_prefix_str_def)
qed

theorem tail_excerpt_panics_witness:
  "tail_excerpt ([CHR 0xC3, CHR 0xA9] @ replicate 1499 (CHR ''x'')) = None"
proof -
  have d: "detect_test_command ''pytest'' = Some Pytest" by code_simp
  have r: "length (replicate 1499 (CHR ''x'')) = 1499" "CHR 0x0A \<notin> set (replicate 1499 (CHR ''x''))"
    by (simp_all only: length_replicate set_replicate_conv_if) simp
  show ?thesis
    by (rule conjunct1 [OF tail_excerpt_panics [OF r d pytest_plain [OF r(2)],
          where e = "()" and sid = "''s''" and sv = sv_new]])
qed

end
