(* ===== verification/AgentLoop.thy ===== *)
theory AgentLoop
  imports BatchExec Completion Mano
begin

text \<open>
  The agent's own state and what a turn does to it (\<open>plates/tian_heaven/loop.rs\<close>): folding in steering
  messages, draining early dispatch, the bookkeeping of an outcome (\<open>absorb_outcome\<close>), the batches of
  a turn, and the end of the turn. Writing to the store and the memory seeds learnt from user text
  are outside; a panic is \<open>None\<close>.
\<close>

record agent =
  ag_id :: string
  ag_history :: "history_entry list"
  ag_memory :: working_memory
  ag_failures :: "string \<rightharpoonup> nat"
  ag_worktree :: "path option"
  ag_perms :: permission_matrix
  ag_cwd :: path
  ag_mode :: interaction_mode
  ag_turn :: nat
  ag_touched :: "string list"
  ag_certainty :: "real list"
  ag_skill_calls :: "string list"
  ag_verify :: verify_tracker
  ag_checklist :: session_vectors
  ag_plate :: human_plate
  ag_human :: human_state
  ag_cancelled :: bool

text \<open>What the loop is given: the text of a refusal, the clock and fresh ids, the file system, the
  security section of the configuration and the permissions of the main root.\<close>

record loop_env =
  le_show :: "gate_error \<Rightarrow> string"
  le_now :: int
  le_uuid :: "nat \<Rightarrow> string"
  le_fs :: file_system
  le_sec :: security_section
  le_main :: permission_matrix

section \<open>Steering\<close>

definition steer_entry :: "steer_message \<Rightarrow> history_entry option" where
  "steer_entry msg = map_option (\<lambda>c. HUser c []) (sanitize_message (''[steer] '' @ steer_content msg))"

fun fold_steer_into_history :: "steer_message list \<Rightarrow> agent \<Rightarrow> agent option" where
  "fold_steer_into_history [] ag = Some ag"
| "fold_steer_into_history (msg # msgs) ag =
     (case steer_entry msg of
        None \<Rightarrow> None
      | Some e \<Rightarrow> fold_steer_into_history msgs (ag\<lparr>ag_history := ag_history ag @ [e]\<rparr>))"

definition set_bus :: "session_bus \<Rightarrow> agent \<Rightarrow> agent" where
  "set_bus b ag = ag\<lparr>ag_human := (ag_human ag)\<lparr>bus := b\<rparr>\<rparr>"

definition fold_steer_at_checkpoint :: "agent \<Rightarrow> (bool \<times> agent) option" where
  "fold_steer_at_checkpoint ag =
     (case drain_steer (bus (ag_human ag)) (ag_id ag) of
        (drained, b) \<Rightarrow>
          (if drained = [] then Some (False, set_bus b ag)
           else if list_ex (\<lambda>m. steer_priority m = Now) drained then
             map_option (\<lambda>ag1. (True, ag1\<lparr>ag_cancelled := True\<rparr>))
               (fold_steer_into_history drained (set_bus b ag))
           else
             (let later = filter (\<lambda>m. steer_priority m = Later) drained;
                  nxt = filter (\<lambda>m. steer_priority m \<noteq> Later) drained
              in map_option (Pair False)
                   (fold_steer_into_history nxt (set_bus (requeue_steer b (ag_id ag) later) ag)))))"

definition fold_all_steer :: "agent \<Rightarrow> (bool \<times> agent) option" where
  "fold_all_steer ag =
     (case drain_steer (bus (ag_human ag)) (ag_id ag) of
        (drained, b) \<Rightarrow>
          (if drained = [] then Some (False, set_bus b ag)
           else map_option (Pair True) (fold_steer_into_history drained (set_bus b ag))))"

section \<open>Ending early dispatch\<close>

definition slot_outcome :: "early_slot \<Rightarrow> gate_error option \<Rightarrow> bool \<Rightarrow> call_outcome option" where
  "slot_outcome s err cancelled =
     (case s of
        Running g m h t \<Rightarrow>
          Some \<lparr>co_output = [], co_error = err, co_geju_name = g, co_execution_mode = m,
                co_heaven_stem = h, co_target_palace = t, co_synthetic_cancel = cancelled\<rparr>
      | _ \<Rightarrow> None)"

definition finalize_slot ::
  "finalize_env \<Rightarrow> tool_call list \<Rightarrow> nat \<Rightarrow> early_dispatch \<times> string list \<Rightarrow> early_dispatch \<times> string list" where
  "finalize_slot fe calls i est =
     (case est of (e, ids) \<Rightarrow>
        (case take_completed e i of
           (Some (raw, err, _), e1) \<Rightarrow>
             (case slot_outcome (slots e ! i) err False of
                None \<Rightarrow> (e, ids)
              | Some out \<Rightarrow>
                  (case finalize_outcome fe (calls ! i) raw out ids of
                     (out', ids') \<Rightarrow> (e1\<lparr>slots := (slots e1)[i := Done out']\<rparr>, ids')))
         | (None, e1) \<Rightarrow>
             (case slot_outcome (slots e ! i) (Some SiblingCancelled) True of
                None \<Rightarrow> (e, ids)
              | Some out \<Rightarrow>
                  (case finalize_outcome fe (calls ! i) [] out ids of
                     (out', ids') \<Rightarrow> (e1\<lparr>slots := (slots e1)[i := Done out']\<rparr>, ids')))))"

definition drain_early_finalize ::
  "finalize_env \<Rightarrow> tool_call list \<Rightarrow> (joined \<times> bool) list \<Rightarrow> early_dispatch \<times> string list \<Rightarrow>
   early_dispatch \<times> string list" where
  "drain_early_finalize fe calls js est =
     fold (finalize_slot fe calls) [0..<length (slots (fst est))] (drain js (fst est), snd est)"

definition interrupt_slot ::
  "finalize_env \<Rightarrow> tool_call list \<Rightarrow> nat \<Rightarrow> early_dispatch \<times> string list \<Rightarrow> early_dispatch \<times> string list" where
  "interrupt_slot fe calls i est =
     (case est of (e, ids) \<Rightarrow>
        (case slot_outcome (slots e ! i) (Some StreamInterrupted) True of
           None \<Rightarrow> (e, ids)
         | Some out \<Rightarrow>
             (case finalize_outcome fe (calls ! i) [] out ids of
                (out', ids') \<Rightarrow> (e\<lparr>slots := (slots e)[i := Done out']\<rparr>, ids'))))"

definition wind_down_early ::
  "finalize_env \<Rightarrow> tool_call list \<Rightarrow> early_dispatch \<times> string list \<Rightarrow> early_dispatch \<times> string list" where
  "wind_down_early fe calls est =
     fold (interrupt_slot fe calls) [0..<length (slots (fst est))] (early_abort (fst est), snd est)"

section \<open>Bookkeeping of one outcome\<close>

datatype verdict = VPass | VFail

fun scan_verdict :: "string list \<Rightarrow> verdict option" where
  "scan_verdict [] = None"
| "scan_verdict (line # lines) =
     (let t = trim line in
      if t = ''Verifier verdict: PASS'' then Some VPass
      else if t = ''Verifier verdict: FAIL'' then Some VFail
      else if t = ''Verifier verdict: UNPARSEABLE'' then None
      else scan_verdict lines)"

definition delegate_output_verdict :: "string \<Rightarrow> verdict option" where
  "delegate_output_verdict outp = scan_verdict (str_lines outp)"

definition verifier_failed :: "string \<Rightarrow> bool" where
  "verifier_failed outp =
     (case delegate_output_verdict outp of
        Some VFail \<Rightarrow> True
      | Some VPass \<Rightarrow> False
      | None \<Rightarrow> str_contains outp ''Verdict: FAIL'')"

abbreviation str_arg :: "json \<Rightarrow> string \<Rightarrow> string option" where
  "str_arg v k \<equiv> Option.bind (json_get v k) as_str"

definition observe_shell :: "tool_call \<Rightarrow> call_outcome \<Rightarrow> agent \<Rightarrow> agent option" where
  "observe_shell tc out ag =
     (case str_arg (parameters tc) ''command'' of
        None \<Rightarrow> Some ag
      | Some cmd \<Rightarrow>
          (case ingest_test_command (ag_id ag) cmd (co_output out) (co_error out) (ag_checklist ag) of
             None \<Rightarrow> None
           | Some sv \<Rightarrow>
               (let ag1 = ag\<lparr>ag_checklist := sv\<rparr> in
                Some (if detect_test_command cmd \<noteq> None
                      then ag1\<lparr>ag_verify := note_verification (ag_verify ag1)\<rparr> else ag1))))"

definition observe_delegate :: "tool_call \<Rightarrow> call_outcome \<Rightarrow> agent \<Rightarrow> agent" where
  "observe_delegate tc out ag =
     (if requests_verifier (parameters tc) then
        (let ag1 = ag\<lparr>ag_verify := note_verification (ag_verify ag)\<rparr> in
         if co_error out = None \<and> verifier_failed (co_output out)
         then ag1\<lparr>ag_checklist := note_verification_anomaly (ag_id ag1) (ag_checklist ag1)\<rparr>
         else ag1)
      else ag)"

definition observe_verification :: "tool_call \<Rightarrow> call_outcome \<Rightarrow> agent \<Rightarrow> agent option" where
  "observe_verification tc out ag =
     (if co_synthetic_cancel out then Some ag
      else if call_name tc = ''shell'' then observe_shell tc out ag
      else if call_name tc = ''task'' then
        Some (if co_error out = None \<and> str_arg (parameters tc) ''action'' = Some ''update'' \<and>
                 str_arg (parameters tc) ''status'' = Some ''completed''
              then ag\<lparr>ag_verify := note_task_completion (ag_verify ag)\<rparr> else ag)
      else if call_name tc = ''write_file'' \<or> call_name tc = ''patch_file'' then
        Some (case str_arg (parameters tc) ''path'' of
                Some p \<Rightarrow> (if co_error out = None
                           then ag\<lparr>ag_verify := note_touched (ag_verify ag) p\<rparr> else ag)
              | None \<Rightarrow> ag)
      else if call_name tc = ''delegate'' then Some (observe_delegate tc out ag)
      else Some ag)"

definition count_failure :: "tool_call \<Rightarrow> call_outcome \<Rightarrow> (string \<rightharpoonup> nat) \<Rightarrow> string \<rightharpoonup> nat" where
  "count_failure tc out fails =
     (if co_synthetic_cancel out then fails
      else if co_error out \<noteq> None then
        fails(call_name tc \<mapsto> Suc (case fails (call_name tc) of Some n \<Rightarrow> n | None \<Rightarrow> 0))
      else fails(call_name tc := None))"

definition worktree_path :: "path \<Rightarrow> string \<Rightarrow> path" where
  "worktree_path base name =
     path_join (path_join (path_join base [Normal ''.jia'']) [Normal ''worktrees'']) (parse_path name)"

definition build_worktree_perms :: "loop_env \<Rightarrow> path \<Rightarrow> permission_matrix" where
  "build_worktree_perms le wt =
     from_config (le_fs le) ((le_sec le)\<lparr>cfg_workspace_root := Some (path_to_string wt)\<rparr>) wt
       (path_join wt [Normal ''.jia'', Normal ''backups''])"

definition switch_root :: "permission_matrix \<Rightarrow> agent \<Rightarrow> agent" where
  "switch_root perms ag = ag\<lparr>ag_perms := perms, ag_cwd := workspace_root (sandbox perms)\<rparr>"

definition worktree_transition :: "loop_env \<Rightarrow> tool_call \<Rightarrow> call_outcome \<Rightarrow> agent \<Rightarrow> agent" where
  "worktree_transition le tc out ag =
     (if co_error out \<noteq> None \<or> co_synthetic_cancel out then ag
      else case (if call_name tc = ''enter_worktree'' then str_arg (parameters tc) ''name'' else None) of
        Some nm \<Rightarrow>
          (if ag_worktree ag = None then
             (let p = worktree_path (workspace_root (sandbox (le_main le))) nm in
              (switch_root (build_worktree_perms le p) ag)\<lparr>ag_worktree := Some p\<rparr>)
           else ag)
      | None \<Rightarrow>
          (if call_name tc = ''exit_worktree'' then
             (if ag_worktree ag \<noteq> None then (switch_root (le_main le) ag)\<lparr>ag_worktree := None\<rparr> else ag)
           else ag))"

definition card_of :: "loop_env \<Rightarrow> tool_call \<Rightarrow> call_outcome \<Rightarrow> nat \<Rightarrow> tool_card" where
  "card_of le tc out n =
     \<lparr>card_id = le_uuid le n, card_tool = call_name tc, card_input = parameters tc,
      card_status = (if co_error out \<noteq> None then StError else StSuccess), card_output = co_output out,
      card_error = map_option (le_show le) (co_error out), card_geju = Some (co_geju_name out),
      card_mode = (if co_execution_mode out \<in>
          {''direct'', ''Direct'', ''guarded'', ''Guarded'', ''sandbox'', ''Sandbox'', ''denied'', ''Denied''}
        then Some (co_execution_mode out) else None)\<rparr>"

definition snapshot_of ::
  "loop_env \<Rightarrow> agent \<Rightarrow> tool_call \<Rightarrow> call_outcome \<Rightarrow> nat \<Rightarrow> string \<Rightarrow> turn_snapshot" where
  "snapshot_of le ag tc out turn_tools text =
     \<lparr>turn_number = ag_turn ag, intent_stem = co_heaven_stem out, target_palace = co_target_palace out,
      geju_name = co_geju_name out, snap_execution_mode = co_execution_mode out, tool_name = call_name tc,
      tool_input = parameters tc, tool_output = text, tool_error = map_option (le_show le) (co_error out),
      timestamp = le_now le,
      certainty = (if ag_certainty ag = [] then None else Some (last (ag_certainty ag))),
      active_seed_ids = ag_touched ag, tool_count = turn_tools\<rparr>"

definition absorb_outcome ::
  "loop_env \<Rightarrow> nat \<Rightarrow> tool_call \<Rightarrow> call_outcome \<Rightarrow> agent \<Rightarrow> agent option" where
  "absorb_outcome le turn_tools tc out ag =
     (case observe_verification tc out ag of
        None \<Rightarrow> None
      | Some ag1 \<Rightarrow>
          (let ag2 = ag1\<lparr>ag_failures := count_failure tc out (ag_failures ag1)\<rparr>;
               ag3 = worktree_transition le tc out ag2
           in case truncate_snapshot_output (co_output out) of
                None \<Rightarrow> None
              | Some text \<Rightarrow>
                  (case record_snapshot (ag_memory ag3) (snapshot_of le ag3 tc out turn_tools text) of
                     None \<Rightarrow> None
                   | Some wm \<Rightarrow>
                       Some (ag3\<lparr>ag_memory := wm,
                         ag_history := ag_history ag3 @
                           (if co_synthetic_cancel out then []
                            else [HToolCall (card_of le tc out (length (ag_history ag3)))])\<rparr>))))"

section \<open>The batches of a turn\<close>

record turn_state =
  ts_guard :: repeat_guard
  ts_reminder :: "string option"
  ts_touched :: "string list"
  ts_slots :: "early_slot list"
  ts_count :: nat

fun absorb_batch ::
  "loop_env \<Rightarrow> nat \<Rightarrow> (tool_call \<times> call_outcome option) list \<Rightarrow> nat \<times> agent \<Rightarrow> (nat \<times> agent) option" where
  "absorb_batch le n [] acc = Some acc"
| "absorb_batch le n ((tc, o1) # rest) acc =
     (case o1 of
        None \<Rightarrow> absorb_batch le n rest acc
      | Some out \<Rightarrow>
          (case absorb_outcome le n tc out (snd acc) of
             None \<Rightarrow> None
           | Some ag \<Rightarrow> absorb_batch le n rest (Suc (fst acc), ag)))"

definition batch_env :: "phase_env \<Rightarrow> agent \<Rightarrow> phase_env" where
  "batch_env pe ag =
     pe\<lparr>phe_plate := ag_plate ag, phe_session := ag_id ag,
        phe_gate := (phe_gate pe)\<lparr>ge_mode := ag_mode ag\<rparr>\<rparr>"

definition dispatch_batch ::
  "loop_env \<Rightarrow> phase_env \<Rightarrow> nat \<Rightarrow> nat \<Rightarrow> batch_world \<Rightarrow> tool_call list \<Rightarrow> turn_state \<times> agent \<Rightarrow>
   (bool \<times> turn_state \<times> agent) option" where
  "dispatch_batch le pe max_conc n w batch tsag =
     (case tsag of (ts, ag) \<Rightarrow>
        (case run_batch (batch_env pe ag) (ag_failures ag) max_conc w batch
                (phase_begin (length batch) (ts_guard ts) (ts_reminder ts) (ts_touched ts) (ag_human ag)
                   (ts_slots ts)) of
           None \<Rightarrow> None
         | Some (stopped, ph) \<Rightarrow>
             (let ts1 = ts\<lparr>ts_guard := ph_guard ph, ts_reminder := ph_reminder ph, ts_touched := ph_touched ph,
                           ts_slots := ph_slots ph\<rparr>;
                  ag1 = ag\<lparr>ag_human := ph_state ph\<rparr>
              in if stopped then Some (True, ts1, ag1)
                 else (case absorb_batch le n (zip batch (ph_outcomes ph)) (ts_count ts1, ag1) of
                         None \<Rightarrow> None
                       | Some (k, ag2) \<Rightarrow> Some (False, ts1\<lparr>ts_count := k\<rparr>, ag2)))))"

fun dispatch_batches ::
  "loop_env \<Rightarrow> phase_env \<Rightarrow> nat \<Rightarrow> nat \<Rightarrow> (tool_call list \<times> batch_world) list \<Rightarrow> turn_state \<times> agent \<Rightarrow>
   (bool \<times> turn_state \<times> agent) option" where
  "dispatch_batches le pe max_conc n [] tsag = Some (False, tsag)"
| "dispatch_batches le pe max_conc n ((batch, w) # rest) tsag =
     (case dispatch_batch le pe max_conc n w batch tsag of
        None \<Rightarrow> None
      | Some (True, tsag') \<Rightarrow> Some (True, tsag')
      | Some (False, tsag') \<Rightarrow> dispatch_batches le pe max_conc n rest tsag')"

section \<open>The end of a turn\<close>

definition GATE_CLOSE_THRESHOLD :: nat where "GATE_CLOSE_THRESHOLD = 5"

fun gate_for :: "string \<Rightarrow> human_gate option" where
  "gate_for nm =
     (if nm = ''web_fetch'' \<or> nm = ''web_search'' then Some KaiMen
      else if nm = ''shell'' \<or> nm = ''write_file'' \<or> nm = ''patch_file'' \<or> nm = ''revert_file'' then Some ShangMen
      else if nm = ''skill'' then Some ShengMen
      else None)"

definition gated_tools :: "string list" where
  "gated_tools = [''web_fetch'', ''web_search'', ''shell'', ''write_file'', ''patch_file'', ''revert_file'', ''skill'']"

text \<open>The walk over the failure counts; only the listed names reach a closing, and closings commute.\<close>

definition close_failing :: "(string \<rightharpoonup> nat) \<Rightarrow> human_plate \<Rightarrow> human_plate" where
  "close_failing fails =
     fold (\<lambda>nm pl. case fails nm of
                     None \<Rightarrow> pl
                   | Some n \<Rightarrow>
                       (if n < GATE_CLOSE_THRESHOLD then pl
                        else (case gate_for nm of Some g \<Rightarrow> close_gate pl g | None \<Rightarrow> pl)))
       gated_tools"

definition track_skill :: "tool_call \<Rightarrow> string list \<Rightarrow> string list" where
  "track_skill tc skills =
     (case (if call_name tc = ''skill'' then str_arg (parameters tc) ''skill'' else None) of
        Some s \<Rightarrow> if s \<in> set skills then skills else skills @ [s]
      | None \<Rightarrow> skills)"

definition plan_transition :: "tool_call \<Rightarrow> agent \<Rightarrow> agent" where
  "plan_transition tc ag =
     (if call_name tc = ''enter_plan_mode''
      then ag\<lparr>ag_mode := Plan, ag_plate := sync_jingjue_with_mode (ag_plate ag) True\<rparr>
      else if call_name tc = ''exit_plan_mode''
      then ag\<lparr>ag_mode := Auto, ag_plate := sync_jingjue_with_mode (ag_plate ag) False\<rparr>
      else ag)"

definition HISTORY_CAP :: nat where "HISTORY_CAP = 1000"

definition cap_history :: "history_entry list \<Rightarrow> history_entry list" where
  "cap_history h = (if length h > HISTORY_CAP then drop (length h - HISTORY_CAP) h else h)"

definition end_turn :: "tool_call list \<Rightarrow> string list \<Rightarrow> agent \<Rightarrow> agent" where
  "end_turn calls ids ag =
     (let ag1 = ag\<lparr>ag_touched := ag_touched ag @ ids,
                   ag_plate := close_failing (ag_failures ag) (ag_plate ag),
                   ag_skill_calls := fold track_skill calls (ag_skill_calls ag)\<rparr>;
          ag2 = fold plan_transition calls ag1
      in ag2\<lparr>ag_history := cap_history (ag_history ag2)\<rparr>)"

section \<open>Dispatching a turn\<close>

text \<open>A forced stop while streaming: what already ran is accounted for, the rest is dropped.\<close>

definition done_slots :: "tool_call list \<Rightarrow> early_slot list \<Rightarrow> (tool_call \<times> call_outcome option) list" where
  "done_slots calls slts =
     map (\<lambda>(tc, s). (tc, case s of Done out \<Rightarrow> Some out | _ \<Rightarrow> None)) (zip calls slts)"

definition dispatch_turn ::
  "loop_env \<Rightarrow> phase_env \<Rightarrow> tool_registry \<Rightarrow> nat \<Rightarrow> (joined \<times> bool) list \<Rightarrow> batch_world list \<Rightarrow> bool \<Rightarrow>
   tool_call list \<Rightarrow> early_dispatch \<times> string list \<Rightarrow> repeat_guard \<times> string option \<Rightarrow> agent \<Rightarrow>
   (bool \<times> turn_state \<times> agent) option" where
  "dispatch_turn le pe reg max_conc js ws repeat_stop calls est gr ag =
     (case drain_early_finalize (phe_finalize pe) calls js est of
        (e, ids) \<Rightarrow>
          (let ts = \<lparr>ts_guard = fst gr, ts_reminder = snd gr, ts_touched = ids, ts_slots = slots e, ts_count = 0\<rparr>;
               pe1 = pe\<lparr>phe_by_id := early_by_id calls (slots e)\<rparr>
           in case (if repeat_stop
                    then map_option (\<lambda>(_, ag1). (True, ts, ag1))
                           (absorb_batch le (length calls) (done_slots calls (slots e)) (0, ag))
                    else dispatch_batches le pe1 max_conc (length calls)
                           (zip (plan_batches calls reg (workspace_root (sandbox (ag_perms ag)))) ws) (ts, ag)) of
                None \<Rightarrow> None
              | Some (True, ts1, ag1) \<Rightarrow>
                  map_option (\<lambda>(_, ag2). (True, ts1, ag2)) (fold_all_steer ag1)
              | Some (False, ts1, ag1) \<Rightarrow> Some (False, ts1, end_turn calls (ts_touched ts1) ag1)))"

section \<open>What absorbing an outcome changes\<close>

text \<open>The part of the agent that bookkeeping of verification leaves alone.\<close>

definition core_same :: "agent \<Rightarrow> agent \<Rightarrow> bool" where
  "core_same ag ag' =
     (ag_id ag' = ag_id ag \<and> ag_history ag' = ag_history ag \<and> ag_memory ag' = ag_memory ag \<and>
      ag_failures ag' = ag_failures ag \<and> ag_worktree ag' = ag_worktree ag \<and> ag_perms ag' = ag_perms ag \<and>
      ag_cwd ag' = ag_cwd ag \<and> ag_mode ag' = ag_mode ag \<and> ag_turn ag' = ag_turn ag \<and>
      ag_touched ag' = ag_touched ag \<and> ag_certainty ag' = ag_certainty ag \<and>
      ag_plate ag' = ag_plate ag \<and> ag_human ag' = ag_human ag \<and> ag_cancelled ag' = ag_cancelled ag)"

lemma observe_verification_core:
  "observe_verification tc out ag = Some ag' \<Longrightarrow> core_same ag ag'"
  by (auto simp: observe_verification_def observe_shell_def observe_delegate_def core_same_def Let_def
      split: if_splits option.splits)

lemma worktree_transition_frame [simp]:
  "ag_id (worktree_transition le tc out ag) = ag_id ag"
  "ag_history (worktree_transition le tc out ag) = ag_history ag"
  "ag_memory (worktree_transition le tc out ag) = ag_memory ag"
  "ag_failures (worktree_transition le tc out ag) = ag_failures ag"
  "ag_mode (worktree_transition le tc out ag) = ag_mode ag"
  "ag_plate (worktree_transition le tc out ag) = ag_plate ag"
  "ag_human (worktree_transition le tc out ag) = ag_human ag"
  by (auto simp: worktree_transition_def switch_root_def Let_def split: option.splits)

definition recorded_entry :: "loop_env \<Rightarrow> tool_call \<Rightarrow> call_outcome \<Rightarrow> nat \<Rightarrow> history_entry list" where
  "recorded_entry le tc out n = (if co_synthetic_cancel out then [] else [HToolCall (card_of le tc out n)])"

lemma absorb_outcome_effect:
  assumes "absorb_outcome le n tc out ag = Some ag'"
  shows "ag_failures ag' = count_failure tc out (ag_failures ag)"
    and "ag_history ag' = ag_history ag @ recorded_entry le tc out (length (ag_history ag))"
    and "ag_id ag' = ag_id ag" "ag_mode ag' = ag_mode ag" "ag_plate ag' = ag_plate ag"
    and "ag_human ag' = ag_human ag"
proof -
  obtain ag1 where ag1: "observe_verification tc out ag = Some ag1"
    using assms by (auto simp: absorb_outcome_def split: option.splits)
  have c: "core_same ag ag1" using ag1 by (rule observe_verification_core)
  show "ag_failures ag' = count_failure tc out (ag_failures ag)"
    "ag_history ag' = ag_history ag @ recorded_entry le tc out (length (ag_history ag))"
    "ag_id ag' = ag_id ag" "ag_mode ag' = ag_mode ag" "ag_plate ag' = ag_plate ag" "ag_human ag' = ag_human ag"
    using assms ag1 c
    by (auto simp: absorb_outcome_def core_same_def recorded_entry_def Let_def split: option.splits)
qed

text \<open>Absorbing succeeds unless the memory has no room at all or the test observation panics.\<close>

lemma observe_verification_total:
  "call_name tc \<noteq> ''shell'' \<Longrightarrow> \<exists>ag'. observe_verification tc out ag = Some ag'"
  by (simp add: observe_verification_def)

lemma absorb_outcome_total:
  assumes "call_name tc \<noteq> ''shell''" "wm_valid (ag_memory ag)"
  shows "\<exists>ag'. absorb_outcome le n tc out ag = Some ag'"
proof -
  obtain ag1 where ag1: "observe_verification tc out ag = Some ag1"
    using observe_verification_total [OF assms(1)] by blast
  obtain cut where t: "truncate_snapshot_output (co_output out) = Some cut"
    using cut_at_boundary_total unfolding truncate_snapshot_output_def by blast
  have "ag_memory ag1 = ag_memory ag" using observe_verification_core [OF ag1] by (simp add: core_same_def)
  then obtain wm where "record_snapshot (ag_memory (worktree_transition le tc out
      (ag1\<lparr>ag_failures := count_failure tc out (ag_failures ag1)\<rparr>)))
      (snapshot_of le (worktree_transition le tc out (ag1\<lparr>ag_failures := count_failure tc out (ag_failures ag1)\<rparr>))
        tc out n cut) = Some wm"
    using record_snapshot_Some [OF assms(2)] by (metis (no_types) agent.select_convs(3) agent.update_convs(4)
      agent.surjective worktree_transition_frame(3))
  then show ?thesis using ag1 t by (simp add: absorb_outcome_def Let_def)
qed

section \<open>Failure streaks\<close>

definition failure_count :: "(string \<rightharpoonup> nat) \<Rightarrow> string \<Rightarrow> nat" where
  "failure_count fails nm = (case fails nm of Some n \<Rightarrow> n | None \<Rightarrow> 0)"

text \<open>The specification: failures since the last success, cancelled calls aside.\<close>

fun fail_streak :: "string \<Rightarrow> nat \<Rightarrow> (tool_call \<times> call_outcome) list \<Rightarrow> nat" where
  "fail_streak nm n [] = n"
| "fail_streak nm n ((tc, out) # rest) =
     fail_streak nm
       (if call_name tc \<noteq> nm \<or> co_synthetic_cancel out then n
        else if co_error out \<noteq> None then Suc n else 0) rest"

fun absorb_all :: "loop_env \<Rightarrow> nat \<Rightarrow> (tool_call \<times> call_outcome) list \<Rightarrow> agent \<Rightarrow> agent option" where
  "absorb_all le n [] ag = Some ag"
| "absorb_all le n ((tc, out) # rest) ag = Option.bind (absorb_outcome le n tc out ag) (absorb_all le n rest)"

lemma count_failure_streak:
  "failure_count (count_failure tc out fails) nm = fail_streak nm (failure_count fails nm) [(tc, out)]"
  by (auto simp: failure_count_def count_failure_def)

lemma absorb_all_failures:
  "absorb_all le n xs ag = Some ag' \<Longrightarrow>
     failure_count (ag_failures ag') nm = fail_streak nm (failure_count (ag_failures ag) nm) xs"
proof (induction xs arbitrary: ag)
  case Nil
  then show ?case by simp
next
  case (Cons x xs)
  obtain tc out where x: "x = (tc, out)" by fastforce
  then obtain ag1 where a: "absorb_outcome le n tc out ag = Some ag1" and r: "absorb_all le n xs ag1 = Some ag'"
    using Cons.prems by (auto simp: bind_eq_Some_conv)
  have "failure_count (ag_failures ag') nm = fail_streak nm (failure_count (ag_failures ag1) nm) xs"
    using Cons.IH [OF r] .
  then show ?case
    using absorb_outcome_effect(1) [OF a] count_failure_streak [of tc out "ag_failures ag" nm] x by simp
qed

fun recorded :: "loop_env \<Rightarrow> nat \<Rightarrow> (tool_call \<times> call_outcome) list \<Rightarrow> history_entry list" where
  "recorded le k [] = []"
| "recorded le k ((tc, out) # rest) =
     (if co_synthetic_cancel out then recorded le k rest
      else HToolCall (card_of le tc out k) # recorded le (Suc k) rest)"

lemma absorb_all_history:
  "absorb_all le n xs ag = Some ag' \<Longrightarrow>
     ag_history ag' = ag_history ag @ recorded le (length (ag_history ag)) xs"
proof (induction xs arbitrary: ag)
  case Nil
  then show ?case by simp
next
  case (Cons x xs)
  obtain tc out where x: "x = (tc, out)" by fastforce
  then obtain ag1 where a: "absorb_outcome le n tc out ag = Some ag1" and r: "absorb_all le n xs ag1 = Some ag'"
    using Cons.prems by (auto simp: bind_eq_Some_conv)
  show ?case using Cons.IH [OF r] absorb_outcome_effect(2) [OF a] x by (simp add: recorded_entry_def)
qed

fun card_view :: "history_entry \<Rightarrow> (string \<times> json \<times> string \<times> bool) option" where
  "card_view (HToolCall c) = Some (card_tool c, card_input c, card_output c, card_status c = StError)"
| "card_view _ = None"

definition outcome_view :: "tool_call \<times> call_outcome \<Rightarrow> (string \<times> json \<times> string \<times> bool) option" where
  "outcome_view x =
     Some (call_name (fst x), parameters (fst x), co_output (snd x), co_error (snd x) \<noteq> None)"

lemma recorded_view:
  "map card_view (recorded le k xs) = map outcome_view (filter (\<lambda>x. \<not> co_synthetic_cancel (snd x)) xs)"
  by (induction xs arbitrary: k) (auto simp: card_of_def outcome_view_def)


definition sample_sec :: security_section where
  "sample_sec = \<lparr>cfg_workspace_root = None, cfg_allowed_paths = [], blocked_path_prefixes = [],
     command_allowlist = [], command_blocklist = [], cfg_deny_rules = [], confirmation_timeout_secs = 60,
     cfg_sandbox_mode = Required\<rparr>"

definition sample_loop :: loop_env where
  "sample_loop = \<lparr>le_show = (\<lambda>_. ''error''), le_now = 0, le_uuid = (\<lambda>_. ''u''), le_fs = plain_fs,
     le_sec = sample_sec, le_main = sample_matrix\<rparr>"

definition sample_agent :: agent where
  "sample_agent = \<lparr>ag_id = ''s'', ag_history = [], ag_memory = wm_new 20, ag_failures = Map.empty,
     ag_worktree = None, ag_perms = sample_matrix, ag_cwd = workspace_root (sandbox sample_matrix),
     ag_mode = Auto, ag_turn = 1, ag_touched = [], ag_certainty = [], ag_skill_calls = [],
     ag_verify = verify_default, ag_checklist = sv_new, ag_plate = with_state sample_matrix,
     ag_human = sample_state, ag_cancelled = False\<rparr>"

definition sample_call :: "string \<Rightarrow> tool_call" where
  "sample_call nm = \<lparr>call_id = nm, call_name = nm, parameters = JObject []\<rparr>"

definition sample_outcome :: "gate_error option \<Rightarrow> call_outcome" where
  "sample_outcome err = \<lparr>co_output = ''out'', co_error = err, co_geju_name = ''g'', co_execution_mode = ''direct'',
     co_heaven_stem = Wu, co_target_palace = Zhong, co_synthetic_cancel = False\<rparr>"

lemma sample_absorbs:
  "call_name (sample_call ''grep'') \<noteq> ''shell''" "wm_valid (ag_memory (sample_agent\<lparr>ag_failures := fails\<rparr>))"
  by (simp_all add: sample_call_def sample_agent_def wm_valid_def wm_new_def)


section \<open>A locked tool stays locked\<close>

text \<open>One call of the session, gated and absorbed: refused by the gate, or cleared and run to any
  outcome.\<close>

inductive call_step :: "loop_env \<Rightarrow> nat \<Rightarrow> agent \<Rightarrow> agent \<Rightarrow> bool" for le limit where
  refused: "ge_max_failures ge = limit \<Longrightarrow> fst (gate_one_tool ge (ag_failures ag) tc) = Finished out \<Longrightarrow>
    absorb_outcome le n tc out ag = Some ag' \<Longrightarrow> call_step le limit ag ag'"
| executed: "ge_max_failures ge = limit \<Longrightarrow> fst (gate_one_tool ge (ag_failures ag) tc) = Cleared cl \<Longrightarrow>
    absorb_outcome le n tc out ag = Some ag' \<Longrightarrow> call_step le limit ag ag'"

lemma locked_refuses:
  assumes "failures (call_name tc) = Some k" "ge_max_failures ge \<le> k"
  shows "fst (gate_one_tool ge failures tc) =
    Finished (gate_denied (FailureStreak (call_name tc) k) [] [] Jia Zhong)"
  using assms by (simp add: gate_one_tool_def Let_def)

lemma count_failure_other: "call_name tc \<noteq> nm \<Longrightarrow> count_failure tc out fails nm = fails nm"
  by (simp add: count_failure_def)

lemma call_step_locked:
  assumes "call_step le limit ag ag'" "ag_failures ag nm = Some k" "limit \<le> k"
  shows "\<exists>k' \<ge> k. ag_failures ag' nm = Some k'"
  using assms(1)
proof cases
  case (refused ge tc out n)
  show ?thesis
  proof (cases "call_name tc = nm")
    case True
    then have "out = gate_denied (FailureStreak nm k) [] [] Jia Zhong"
      using refused(1,2) locked_refuses [of "ag_failures ag" tc k ge] assms(2,3) by simp
    then show ?thesis
      using absorb_outcome_effect(1) [OF refused(3)] True assms(2) by (simp add: count_failure_def gate_denied_def)
  next
    case False
    then show ?thesis using absorb_outcome_effect(1) [OF refused(3)] assms(2) count_failure_other by simp
  qed
next
  case (executed ge tc cl n out)
  then have "call_name tc \<noteq> nm" using locked_refuses [of "ag_failures ag" tc k ge] assms(2,3) by auto
  then show ?thesis using absorb_outcome_effect(1) [OF executed(3)] assms(2) count_failure_other by simp
qed

lemma call_steps_locked:
  assumes "(call_step le limit)\<^sup>*\<^sup>* ag ag'" "ag_failures ag nm = Some k" "limit \<le> k"
  shows "\<exists>k' \<ge> k. ag_failures ag' nm = Some k'"
  using assms(1)
proof (induction rule: rtranclp_induct)
  case base
  then show ?case using assms(2) by blast
next
  case (step b c)
  then show ?case using call_step_locked [OF step.hyps(2)] assms(3) by (meson order_trans)
qed

text \<open>A tool that has reached the failure limit is out for the rest of the session. Its count is
  reset by a success only, the gate refuses it before it can run, and the refusal is itself absorbed
  as a failure: after any further calls, of this and of other tools, it is still refused.\<close>

theorem locked_tool_stays_locked:
  assumes "(call_step le limit)\<^sup>*\<^sup>* ag ag'" "ag_failures ag nm = Some k" "limit \<le> k"
    and "call_name tc = nm" "ge_max_failures ge = limit"
  shows "\<exists>out. fst (gate_one_tool ge (ag_failures ag') tc) = Finished out \<and> co_error out \<noteq> None"
proof -
  obtain k' where "k \<le> k'" "ag_failures ag' nm = Some k'"
    using call_steps_locked [OF assms(1-3)] by blast
  then show ?thesis using locked_refuses [of "ag_failures ag'" tc k' ge] assms(3-5)
    by (simp add: gate_denied_def)
qed

theorem locked_tool_stays_locked_witness:
  "\<exists>ag' out. call_step sample_loop 3 (sample_agent\<lparr>ag_failures := [''grep'' \<mapsto> 3]\<rparr>) ag' \<and>
     fst (gate_one_tool sample_gate (ag_failures ag') (sample_call ''grep'')) = Finished out"
proof -
  let ?ag = "sample_agent\<lparr>ag_failures := [''grep'' \<mapsto> 3]\<rparr>"
  have g: "fst (gate_one_tool sample_gate (ag_failures ?ag) (sample_call ''grep'')) =
      Finished (gate_denied (FailureStreak ''grep'' 3) [] [] Jia Zhong)" "ge_max_failures sample_gate = 3"
    using locked_refuses [of "ag_failures ?ag" "sample_call ''grep''" 3 sample_gate]
    by (simp_all add: sample_call_def sample_gate_def)
  obtain ag' where "absorb_outcome sample_loop 1 (sample_call ''grep'')
      (gate_denied (FailureStreak ''grep'' 3) [] [] Jia Zhong) ?ag = Some ag'"
    using absorb_outcome_total [OF sample_absorbs] by blast
  then have s: "call_step sample_loop 3 ?ag ag'" using g call_step.refused by blast
  then show ?thesis
    using locked_tool_stays_locked [OF r_into_rtranclp [where r = "call_step sample_loop 3"], of ?ag ag' "''grep''" 3
        "sample_call ''grep''" sample_gate] g(2)
    by (auto simp: sample_call_def)
qed

section \<open>Worktrees\<close>

text \<open>The permissions in force are those of the root the agent is in.\<close>

definition roots_ok :: "loop_env \<Rightarrow> agent \<Rightarrow> bool" where
  "roots_ok le ag =
     (ag_perms ag =
        (case ag_worktree ag of None \<Rightarrow> le_main le | Some p \<Rightarrow> build_worktree_perms le p))"

lemma worktree_transition_ok:
  "roots_ok le ag \<Longrightarrow> roots_ok le (worktree_transition le tc out ag)"
  by (auto simp: roots_ok_def worktree_transition_def switch_root_def Let_def split: option.splits)

definition place_of :: "agent \<Rightarrow> path option \<times> permission_matrix \<times> path" where
  "place_of ag = (ag_worktree ag, ag_perms ag, ag_cwd ag)"

lemma worktree_transition_place:
  "place_of a = place_of b \<Longrightarrow> place_of (worktree_transition le tc out a) = place_of (worktree_transition le tc out b)"
  by (auto simp: worktree_transition_def switch_root_def place_of_def Let_def split: option.splits)

lemma absorb_outcome_place:
  assumes "absorb_outcome le n tc out ag = Some ag'"
  shows "place_of ag' = place_of (worktree_transition le tc out ag)"
proof -
  obtain ag1 where ag1: "observe_verification tc out ag = Some ag1"
    using assms by (auto simp: absorb_outcome_def split: option.splits)
  let ?ag2 = "ag1\<lparr>ag_failures := count_failure tc out (ag_failures ag1)\<rparr>"
  have "place_of ag' = place_of (worktree_transition le tc out ?ag2)"
    using assms ag1 by (auto simp: absorb_outcome_def place_of_def Let_def split: option.splits)
  moreover have "place_of ?ag2 = place_of ag"
    using observe_verification_core [OF ag1] by (simp add: core_same_def place_of_def)
  ultimately show ?thesis using worktree_transition_place by metis
qed

lemma absorb_outcome_worktree:
  assumes "absorb_outcome le n tc out ag = Some ag'"
  shows "ag_worktree ag' = ag_worktree (worktree_transition le tc out ag)"
    "ag_perms ag' = ag_perms (worktree_transition le tc out ag)"
    "ag_cwd ag' = ag_cwd (worktree_transition le tc out ag)"
  using absorb_outcome_place [OF assms] by (simp_all add: place_of_def)

lemma absorb_all_roots: "absorb_all le n xs ag = Some ag' \<Longrightarrow> roots_ok le ag \<Longrightarrow> roots_ok le ag'"
proof (induction xs arbitrary: ag)
  case Nil
  then show ?case by simp
next
  case (Cons x xs)
  obtain tc out where x: "x = (tc, out)" by fastforce
  then obtain ag1 where a: "absorb_outcome le n tc out ag = Some ag1" and r: "absorb_all le n xs ag1 = Some ag'"
    using Cons.prems by (auto simp: bind_eq_Some_conv)
  have "roots_ok le ag1"
    using worktree_transition_ok [OF Cons.prems(2), of tc out] absorb_outcome_worktree [OF a] by (simp add: roots_ok_def)
  then show ?case using Cons.IH [OF r] by blast
qed



section \<open>Steering is never lost\<close>

lemma steer_entry_total: "\<exists>e. steer_entry msg = Some e"
  using cut_at_boundary_total unfolding steer_entry_def sanitize_message_def by (metis option.simps(9))

definition steer_entries :: "steer_message list \<Rightarrow> history_entry list" where
  "steer_entries msgs = map (\<lambda>m. the (steer_entry m)) msgs"

lemma fold_steer_into_history_total:
  "fold_steer_into_history msgs ag = Some (ag\<lparr>ag_history := ag_history ag @ steer_entries msgs\<rparr>)"
proof (induction msgs arbitrary: ag)
  case Nil
  then show ?case by (simp add: steer_entries_def)
next
  case (Cons m msgs)
  then show ?case using steer_entry_total [of m] by (auto simp: steer_entries_def)
qed

abbreviation steer_of :: "agent \<Rightarrow> steer_message list" where
  "steer_of ag \<equiv> steer_queue (bus (ag_human ag)) (ag_id ag)"

text \<open>C27: the checkpoint between batches returns, and loses no message. With an urgent message waiting,
  all of them go into the history in order and the run is cancelled; otherwise the messages for the
  next step go into the history and the ones for later stay queued in order. Other sessions are not
  touched.\<close>

theorem steer_checkpoint_keeps_all:
  "let stop = list_ex (\<lambda>m. steer_priority m = Now) (steer_of ag) in
   \<exists>ag'. fold_steer_at_checkpoint ag = Some (stop, ag') \<and>
     ag_cancelled ag' = (ag_cancelled ag \<or> stop) \<and>
     ag_history ag' = ag_history ag @
       steer_entries (filter (\<lambda>m. \<not> (\<not> stop \<and> steer_priority m = Later)) (steer_of ag)) \<and>
     steer_of ag' = filter (\<lambda>m. \<not> stop \<and> steer_priority m = Later) (steer_of ag) \<and>
     (\<forall>sid. sid = ag_id ag \<or> steer_queue (bus (ag_human ag')) sid = steer_queue (bus (ag_human ag)) sid)"
proof -
  obtain q b where d: "drain_steer (bus (ag_human ag)) (ag_id ag) = (q, b)" by fastforce
  have q: "q = steer_of ag" and b: "steer_queue b sid = (if sid = ag_id ag then [] else steer_queue (bus (ag_human ag)) sid)"
    for sid using drain_steer_queue [of "bus (ag_human ag)" "ag_id ag"] d by simp_all
  consider "q = []" | "q \<noteq> []" "list_ex (\<lambda>m. steer_priority m = Now) q"
    | "q \<noteq> []" "\<not> list_ex (\<lambda>m. steer_priority m = Now) q" by blast
  then show ?thesis
  proof cases
    case 1
    then show ?thesis using b q
      by (simp add: fold_steer_at_checkpoint_def d set_bus_def steer_entries_def)
  next
    case 2
    then show ?thesis using b q
      by (simp add: fold_steer_at_checkpoint_def d set_bus_def fold_steer_into_history_total)
  next
    case 3
    then show ?thesis using b q
      by (simp add: fold_steer_at_checkpoint_def d set_bus_def fold_steer_into_history_total
          requeue_steer_queue Let_def)
  qed
qed

section \<open>The state after a turn\<close>

definition mode_change :: "tool_call \<Rightarrow> interaction_mode option" where
  "mode_change tc =
     (if call_name tc = ''enter_plan_mode'' then Some Plan
      else if call_name tc = ''exit_plan_mode'' then Some Auto else None)"

lemma plan_transition_mode:
  "ag_mode (plan_transition tc ag) = (case mode_change tc of Some m \<Rightarrow> m | None \<Rightarrow> ag_mode ag)"
  by (simp add: plan_transition_def mode_change_def)

lemma plan_transition_frame [simp]:
  "ag_history (plan_transition tc ag) = ag_history ag" "ag_failures (plan_transition tc ag) = ag_failures ag"
  by (simp_all add: plan_transition_def)

lemma plan_transitions:
  "ag_history (fold plan_transition calls ag) = ag_history ag"
  "ag_mode (fold plan_transition calls ag) =
     (case List.map_filter mode_change calls of [] \<Rightarrow> ag_mode ag | ms \<Rightarrow> last ms)"
  by (induction calls arbitrary: ag)
    (auto simp: plan_transition_mode List.map_filter_simps split: option.splits list.splits)

lemma plan_transitions_gate:
  "g \<noteq> JingJueMen \<Longrightarrow>
     gate_is_open (ag_plate (fold plan_transition calls ag)) g = gate_is_open (ag_plate ag) g"
  by (induction calls arbitrary: ag) (simp_all add: plan_transition_def gate_open_sync)

definition too_many :: "(string \<rightharpoonup> nat) \<Rightarrow> string \<Rightarrow> bool" where
  "too_many fails nm = (\<exists>n. fails nm = Some n \<and> GATE_CLOSE_THRESHOLD \<le> n)"

lemma close_failing_gate:
  "gate_is_open (close_failing fails pl) g \<longleftrightarrow>
     gate_is_open pl g \<and> (\<forall>nm. gate_for nm = Some g \<longrightarrow> \<not> too_many fails nm)"
proof -
  have "gate_is_open (fold (\<lambda>nm pl. case fails nm of None \<Rightarrow> pl
      | Some n \<Rightarrow> (if n < GATE_CLOSE_THRESHOLD then pl
                   else (case gate_for nm of Some h \<Rightarrow> close_gate pl h | None \<Rightarrow> pl))) nms pl) g \<longleftrightarrow>
    gate_is_open pl g \<and> (\<forall>nm \<in> set nms. gate_for nm = Some g \<longrightarrow> \<not> too_many fails nm)" for nms
    by (induction nms arbitrary: pl)
      (auto simp: too_many_def gate_open_close simp del: gate_for.simps split: option.splits)
  moreover have "nm \<in> set gated_tools" if "gate_for nm = Some g" for nm
    using that by (auto simp: gated_tools_def split: if_splits)
  ultimately show ?thesis unfolding close_failing_def by blast
qed

lemma cap_history_suffix: "suffix (cap_history h) h" "length (cap_history h) \<le> 1000"
  "length h \<le> 1000 \<Longrightarrow> cap_history h = h"
  by (auto simp: cap_history_def HISTORY_CAP_def suffix_drop)

text \<open>The end of a turn. The history keeps its latest entries, at most a thousand of them; the
  interaction mode is the one the last plan-mode call of the turn names; and a gate is open after the
  turn exactly if it was open and none of the tools it guards has failed five times in a row (the
  alert gate follows the mode instead).\<close>

theorem end_turn_state:
  assumes "g \<noteq> JingJueMen"
  shows "let ag' = end_turn calls ids ag in
    suffix (ag_history ag') (ag_history ag) \<and> length (ag_history ag') \<le> 1000 \<and>
    (length (ag_history ag) \<le> 1000 \<longrightarrow> ag_history ag' = ag_history ag) \<and>
    ag_mode ag' = (case List.map_filter mode_change calls of [] \<Rightarrow> ag_mode ag | ms \<Rightarrow> last ms) \<and>
    (gate_is_open (ag_plate ag') g \<longleftrightarrow>
       gate_is_open (ag_plate ag) g \<and> (\<forall>nm. gate_for nm = Some g \<longrightarrow> \<not> too_many (ag_failures ag) nm))"
  using assms
  by (simp add: end_turn_def Let_def plan_transitions plan_transitions_gate close_failing_gate
      cap_history_suffix split: list.splits)

theorem end_turn_state_witness:
  "\<not> gate_is_open (ag_plate (end_turn [] [] (sample_agent\<lparr>ag_failures := [''shell'' \<mapsto> 5]\<rparr>))) ShangMen"
proof -
  let ?ag = "sample_agent\<lparr>ag_failures := [''shell'' \<mapsto> 5]\<rparr>"
  have "gate_for ''shell'' = Some ShangMen" "too_many (ag_failures ?ag) ''shell''"
    by (simp_all add: too_many_def GATE_CLOSE_THRESHOLD_def)
  moreover have "ShangMen \<noteq> JingJueMen" by simp
  ultimately show ?thesis using end_turn_state [of ShangMen "[]" "[]" ?ag] unfolding Let_def by blast
qed

section \<open>Every call of a turn is accounted for\<close>

lemma absorb_batch_count:
  "absorb_batch le n xs (k, ag) = Some (k', ag') \<Longrightarrow> k' = k + length (filter (\<lambda>x. snd x \<noteq> None) xs)"
proof (induction xs arbitrary: k ag)
  case Nil
  then show ?case by simp
next
  case (Cons x xs)
  obtain tc o1 where x: "x = (tc, o1)" by fastforce
  show ?case
  proof (cases o1)
    case None
    then show ?thesis using Cons x by simp
  next
    case (Some out)
    then obtain ag1 where "absorb_batch le n xs (Suc k, ag1) = Some (k', ag')"
      using Cons.prems x by (auto split: option.splits)
    from Cons.IH [OF this] show ?thesis using Some x by simp
  qed
qed

lemma all_some_filter:
  "length outs = length batch \<Longrightarrow> \<forall>k < length batch. \<exists>out. outs ! k = Some out \<Longrightarrow>
     filter (\<lambda>x. snd x \<noteq> None) (zip batch outs) = zip batch outs"
  by (auto simp: filter_id_conv in_set_zip)

lemma dispatch_batch_counts:
  assumes "dispatch_batch le pe m n w batch (ts, ag) = Some (False, ts', ag')"
    and "slots_known pe (ts_slots ts)" "covers_batch w batch"
  shows "ts_count ts' = ts_count ts + length batch" "slots_known pe (ts_slots ts')"
proof -
  let ?ph0 = "phase_begin (length batch) (ts_guard ts) (ts_reminder ts) (ts_touched ts) (ag_human ag) (ts_slots ts)"
  obtain ph k where ph: "run_batch (batch_env pe ag) (ag_failures ag) m w batch ?ph0 = Some (False, ph)"
    and ab: "absorb_batch le n (zip batch (ph_outcomes ph)) (ts_count ts, ag\<lparr>ag_human := ph_state ph\<rparr>) = Some (k, ag')"
    and ts': "ts_count ts' = k" "ts_slots ts' = ph_slots ph"
    using assms(1) by (auto simp: dispatch_batch_def Let_def split: option.splits prod.splits if_splits)
  have sk: "slots_known (batch_env pe ag) (ts_slots ts)" using assms(2) by (simp add: slots_known_def batch_env_def)
  note tot = run_batch_total [OF sk assms(3) ph]
  show "ts_count ts' = ts_count ts + length batch"
    using absorb_batch_count [OF ab] all_some_filter [OF tot(1,2)] tot(1) ts'(1) by simp
  show "slots_known pe (ts_slots ts')"
    using assms(2) tot(4) ts'(2) by (simp add: slots_known_def)
qed

lemma dispatch_batches_counts:
  "dispatch_batches le pe m n xs (ts, ag) = Some (False, ts', ag') \<Longrightarrow> slots_known pe (ts_slots ts) \<Longrightarrow>
     \<forall>(batch, w) \<in> set xs. covers_batch w batch \<Longrightarrow> ts_count ts' = ts_count ts + length (concat (map fst xs))"
proof (induction xs arbitrary: ts ag)
  case Nil
  then show ?case by simp
next
  case (Cons x xs)
  obtain batch w where x: "x = (batch, w)" by fastforce
  obtain ts1 ag1 where d: "dispatch_batch le pe m n w batch (ts, ag) = Some (False, ts1, ag1)"
    and r: "dispatch_batches le pe m n xs (ts1, ag1) = Some (False, ts', ag')"
    using Cons.prems(1) x by (auto split: option.splits prod.splits bool.splits)
  have "covers_batch w batch" using Cons.prems(3) x by auto
  note c = dispatch_batch_counts [OF d Cons.prems(2) this]
  then show ?case using Cons.IH [OF r c(2)] Cons.prems(3) x by auto
qed

text \<open>C6: a turn that is not stopped accounts for every call the model made, once: the number of
  outcomes absorbed is the number of calls, whatever was dispatched early, refused, batched,
  executed concurrently or cancelled.\<close>

theorem turn_accounts_every_call:
  assumes "dispatch_turn le pe reg m js ws False calls est gr ag = Some (False, ts, ag')"
    and "length ws = length (plan_batches calls reg (workspace_root (sandbox (ag_perms ag))))"
    and "\<forall>(batch, w) \<in> set (zip (plan_batches calls reg (workspace_root (sandbox (ag_perms ag)))) ws). covers_batch w batch"
  shows "ts_count ts = length calls"
proof -
  let ?bs = "plan_batches calls reg (workspace_root (sandbox (ag_perms ag)))"
  obtain e ids where e: "drain_early_finalize (phe_finalize pe) calls js est = (e, ids)" by fastforce
  let ?ts = "\<lparr>ts_guard = fst gr, ts_reminder = snd gr, ts_touched = ids, ts_slots = slots e, ts_count = 0\<rparr>"
  let ?pe = "pe\<lparr>phe_by_id := early_by_id calls (slots e)\<rparr>"
  obtain ag1 where d: "dispatch_batches le ?pe m (length calls) (zip ?bs ws) (?ts, ag) = Some (False, ts, ag1)"
    using assms(1) by (auto simp: dispatch_turn_def e Let_def split: option.splits prod.splits bool.splits)
  have sk: "slots_known ?pe (slots e)" by (rule early_by_id_known) simp
  have "ts_count ts = length (concat (map fst (zip ?bs ws)))"
    using dispatch_batches_counts [OF d _ assms(3)] sk by simp
  also have "map fst (zip ?bs ws) = ?bs" using assms(2) by (metis map_fst_zip)
  finally show ?thesis by (simp add: plan_batches_correct(2))
qed

lemma sample_unknown: "registry_get (ge_registry sample_gate) ''grep'' = None"
  by code_simp

lemma sample_plan: "plan_batches [sample_call ''grep''] (ge_registry sample_gate) base = [[sample_call ''grep'']]"
  using sample_unknown
  by (simp add: plan_batches_def call_accesses_def sample_call_def accesses_all_def flush_def Let_def)

theorem turn_accounts_every_call_witness:
  "\<exists>ts ag'. dispatch_turn sample_loop sample_phase_env (ge_registry sample_gate) 10 [] [sample_world] False
      [sample_call ''grep''] (early_new, []) (repeat_guard_default, None) (sample_agent\<lparr>ag_failures := Map.empty\<rparr>) =
      Some (False, ts, ag') \<and> ts_count ts = 1"
proof -
  let ?ag = "sample_agent\<lparr>ag_failures := Map.empty\<rparr>"
  let ?pe = "sample_phase_env\<lparr>phe_by_id := early_by_id [sample_call ''grep''] []\<rparr>"
  let ?ts = "\<lparr>ts_guard = repeat_guard_default, ts_reminder = None, ts_touched = [], ts_slots = [], ts_count = 0\<rparr>"
  obtain ph where r: "run_batch (batch_env ?pe ?ag) (ag_failures ?ag) 10 sample_world [sample_call ''grep'']
      (phase_begin (length [sample_call ''grep'']) repeat_guard_default None [] (ag_human ?ag) []) = Some (False, ph)"
    using run_single_batch by fastforce
  have k: "slots_known (batch_env ?pe ?ag) []"
    by (simp add: slots_known_def batch_env_def early_by_id_def)
  have c: "covers_batch sample_world [sample_call ''grep'']"
    by (simp add: covers_batch_def sample_world_def lessThan_Suc)
  obtain out where o: "ph_outcomes ph = [Some out]"
    using run_batch_total(1,2) [OF k c r] by (cases "ph_outcomes ph") auto
  have "wm_valid (ag_memory (?ag\<lparr>ag_human := ph_state ph\<rparr>))" using sample_absorbs(2) by simp
  then obtain ag' where "absorb_outcome sample_loop 1 (sample_call ''grep'') out (?ag\<lparr>ag_human := ph_state ph\<rparr>) = Some ag'"
    using absorb_outcome_total [OF sample_absorbs(1)] by blast
  then obtain ts where d: "dispatch_batches sample_loop ?pe 10 1 [([sample_call ''grep''], sample_world)] (?ts, ?ag) = Some (False, ts, ag')"
    using r o by (simp add: dispatch_batch_def Let_def)
  have e: "drain_early_finalize (phe_finalize sample_phase_env) [sample_call ''grep''] [] (early_new, []) = (early_new, [])"
    by (simp add: drain_early_finalize_def drain_def early_new_def)
  have s: "slots early_new = []" by (simp add: early_new_def)
  from d have t: "dispatch_turn sample_loop sample_phase_env (ge_registry sample_gate) 10 [] [sample_world] False
      [sample_call ''grep''] (early_new, []) (repeat_guard_default, None) ?ag =
      Some (False, ts, end_turn [sample_call ''grep''] (ts_touched ts) ag')"
    by (simp add: dispatch_turn_def e s sample_plan Let_def del: dispatch_batches.simps)
  then show ?thesis using turn_accounts_every_call [OF t] c by (simp add: sample_plan)
qed

end
