(* ===== verification/ToolDecls.thy ===== *)
theory ToolDecls
  imports Tools
begin

text \<open>
  What the tools of sub-agents declare of themselves (name, ceremony, accesses; \<open>builtin/fs\<close>, \<open>builtin/exec\<close>,
  \<open>builtin/browser\<close>, \<open>builtin/computer\<close>), and the registries a sub-agent is given (\<open>plates/di_earth/mod.rs\<close>,
  \<open>spawn.rs\<close>).
\<close>

section \<open>Declarations\<close>

text \<open>A tool that works on the file named by its \<open>path\<close>; without one, everything is in reach.\<close>

definition path_accesses :: "(path list \<Rightarrow> tool_accesses) \<Rightarrow> json \<Rightarrow> tool_accesses" where
  "path_accesses mk input =
     (case as_str (json_index input ''path'') of
        Some p \<Rightarrow> (if p \<noteq> [] then mk [parse_path p] else accesses_all)
      | None \<Rightarrow> accesses_all)"

text \<open>A tool that walks the directory named by its \<open>path\<close>, or the current one.\<close>

definition walk_accesses :: "json \<Rightarrow> tool_accesses" where
  "walk_accesses input =
     read_only [parse_path (case as_str (json_index input ''path'') of Some p \<Rightarrow> p | None \<Rightarrow> ''.'')] True"

definition ReadFileTool :: base_tool where
  "ReadFileTool = (default_tool ''read_file'' CWu)\<lparr>accesses := path_accesses (\<lambda>ps. read_only ps False)\<rparr>"

definition GrepTool :: base_tool where
  "GrepTool = (default_tool ''grep'' CWu)\<lparr>accesses := walk_accesses\<rparr>"

definition GlobTool :: base_tool where
  "GlobTool = (default_tool ''glob'' CWu)\<lparr>accesses := walk_accesses\<rparr>"

definition WriteFileTool :: base_tool where
  "WriteFileTool = (default_tool ''write_file'' CJi)\<lparr>accesses := path_accesses write_only\<rparr>"

definition EditTool :: base_tool where
  "EditTool = (default_tool ''patch_file'' CJi)\<lparr>accesses := path_accesses write_only\<rparr>"

definition RevertFileTool :: base_tool where
  "RevertFileTool = (default_tool ''revert_file'' CJi)\<lparr>accesses := path_accesses write_only\<rparr>"

definition ScratchpadWriteTool :: base_tool where
  "ScratchpadWriteTool = default_tool ''scratchpad_write'' CJi"

definition ScratchpadReadTool :: base_tool where
  "ScratchpadReadTool = default_tool ''scratchpad_read'' CWu"

definition ShellTool :: base_tool where
  "ShellTool = default_tool ''shell'' CGeng"

definition GitTool :: base_tool where
  "GitTool = default_tool ''git'' CGeng"

definition LspTool :: base_tool where
  "LspTool = (default_tool ''lsp'' CWu)\<lparr>accesses := \<lambda>_. accesses_all\<rparr>"

definition RetrieveToolResultTool :: base_tool where
  "RetrieveToolResultTool = (default_tool ''retrieve_tool_result'' CWu)
     \<lparr>accesses := \<lambda>_. read_only [parse_path ''.jia/tool-results''] True\<rparr>"

definition WebFetchTool :: base_tool where "WebFetchTool = default_tool ''web_fetch'' CRen"
definition WebSearchTool :: base_tool where "WebSearchTool = default_tool ''web_search'' CRen"
definition WebExecuteJsTool :: base_tool where "WebExecuteJsTool = default_tool ''web_execute_js'' CRen"
definition BrowserNavigateTool :: base_tool where "BrowserNavigateTool = default_tool ''browser_navigate'' CRen"
definition BrowserSnapshotTool :: base_tool where "BrowserSnapshotTool = default_tool ''browser_snapshot'' CRen"
definition BrowserClickTool :: base_tool where "BrowserClickTool = default_tool ''browser_click'' CRen"
definition BrowserTypeTool :: base_tool where "BrowserTypeTool = default_tool ''browser_type'' CRen"
definition BrowserPressKeyTool :: base_tool where "BrowserPressKeyTool = default_tool ''browser_press'' CRen"
definition BrowserScreenshotTool :: base_tool where "BrowserScreenshotTool = default_tool ''browser_screenshot'' CRen"
definition BrowserScrollTool :: base_tool where "BrowserScrollTool = default_tool ''browser_scroll'' CRen"
definition BrowserConsoleTool :: base_tool where "BrowserConsoleTool = default_tool ''browser_console'' CRen"
definition BrowserDialogTool :: base_tool where "BrowserDialogTool = default_tool ''browser_dialog'' CRen"
definition ComputerUseTool :: base_tool where "ComputerUseTool = default_tool ''computer_use'' CRen"

lemmas tool_decls =
  ReadFileTool_def GrepTool_def GlobTool_def WriteFileTool_def EditTool_def RevertFileTool_def
  ScratchpadWriteTool_def ScratchpadReadTool_def ShellTool_def GitTool_def LspTool_def
  RetrieveToolResultTool_def WebFetchTool_def WebSearchTool_def WebExecuteJsTool_def
  BrowserNavigateTool_def BrowserSnapshotTool_def BrowserClickTool_def BrowserTypeTool_def
  BrowserPressKeyTool_def BrowserScreenshotTool_def BrowserScrollTool_def BrowserConsoleTool_def
  BrowserDialogTool_def ComputerUseTool_def default_tool_def

lemma tool_ids [simp]:
  "tool_id ReadFileTool = ''read_file''"
  "tool_id GrepTool = ''grep''"
  "tool_id GlobTool = ''glob''"
  "tool_id WriteFileTool = ''write_file''"
  "tool_id EditTool = ''patch_file''"
  "tool_id RevertFileTool = ''revert_file''"
  "tool_id ScratchpadWriteTool = ''scratchpad_write''"
  "tool_id ScratchpadReadTool = ''scratchpad_read''"
  "tool_id ShellTool = ''shell''"
  "tool_id GitTool = ''git''"
  "tool_id LspTool = ''lsp''"
  "tool_id RetrieveToolResultTool = ''retrieve_tool_result''"
  "tool_id WebFetchTool = ''web_fetch''"
  "tool_id WebSearchTool = ''web_search''"
  "tool_id WebExecuteJsTool = ''web_execute_js''"
  "tool_id BrowserNavigateTool = ''browser_navigate''"
  "tool_id BrowserSnapshotTool = ''browser_snapshot''"
  "tool_id BrowserClickTool = ''browser_click''"
  "tool_id BrowserTypeTool = ''browser_type''"
  "tool_id BrowserPressKeyTool = ''browser_press''"
  "tool_id BrowserScreenshotTool = ''browser_screenshot''"
  "tool_id BrowserScrollTool = ''browser_scroll''"
  "tool_id BrowserConsoleTool = ''browser_console''"
  "tool_id BrowserDialogTool = ''browser_dialog''"
  "tool_id ComputerUseTool = ''computer_use''"
  by (simp_all add: tool_decls)

lemma destructive_tools [simp]:
  "\<not> is_destructive ReadFileTool"
  "\<not> is_destructive GrepTool"
  "\<not> is_destructive GlobTool"
  "is_destructive WriteFileTool"
  "is_destructive EditTool"
  "is_destructive RevertFileTool"
  "is_destructive ScratchpadWriteTool"
  "\<not> is_destructive ScratchpadReadTool"
  "is_destructive ShellTool"
  "is_destructive GitTool"
  "\<not> is_destructive LspTool"
  "\<not> is_destructive RetrieveToolResultTool"
  "is_destructive WebFetchTool"
  "is_destructive WebSearchTool"
  "is_destructive WebExecuteJsTool"
  "is_destructive BrowserNavigateTool"
  "is_destructive BrowserSnapshotTool"
  "is_destructive BrowserClickTool"
  "is_destructive BrowserTypeTool"
  "is_destructive BrowserPressKeyTool"
  "is_destructive BrowserScreenshotTool"
  "is_destructive BrowserScrollTool"
  "is_destructive BrowserConsoleTool"
  "is_destructive BrowserDialogTool"
  "is_destructive ComputerUseTool"
  by (simp_all add: tool_decls default_is_destructive_def)

section \<open>Registries\<close>

definition register_all :: "base_tool list \<Rightarrow> tool_registry \<Rightarrow> tool_registry" where
  "register_all ts r = fold register ts r"

text \<open>Cargo features decide whether the web search and the git tool exist.\<close>

definition readonly_tools :: "bool \<Rightarrow> base_tool list" where
  "readonly_tools web_search =
     [ReadFileTool, GrepTool, GlobTool, WebFetchTool, WebExecuteJsTool, BrowserNavigateTool,
      BrowserSnapshotTool, BrowserClickTool, BrowserTypeTool, BrowserPressKeyTool, BrowserScreenshotTool,
      BrowserScrollTool, BrowserConsoleTool, BrowserDialogTool, ComputerUseTool] @
     (if web_search then [WebSearchTool] else [])"

definition subagent_readonly_tools :: "bool \<Rightarrow> tool_registry" where
  "subagent_readonly_tools web_search = register_all (readonly_tools web_search) registry_new"

definition coder_tools :: "bool \<Rightarrow> base_tool list" where
  "coder_tools git =
     [ReadFileTool, WriteFileTool, EditTool, GrepTool, GlobTool, ShellTool] @
     (if git then [GitTool] else []) @
     [LspTool, RevertFileTool, RetrieveToolResultTool, ScratchpadWriteTool, ScratchpadReadTool]"

definition subagent_coder_tools :: "bool \<Rightarrow> tool_registry" where
  "subagent_coder_tools git = register_all (coder_tools git) registry_new"

definition verifier_registry :: "tool_registry \<Rightarrow> tool_registry" where
  "verifier_registry readonly =
     register RetrieveToolResultTool (register ShellTool (register_all (list_core readonly) registry_new))"

lemma registry_ok_register_all: "registry_ok r \<Longrightarrow> registry_ok (register_all ts r)"
  by (induction ts arbitrary: r) (simp_all add: register_all_def registry_ok_register)

lemma tools_register: "snd ` set (tools (register t r)) \<subseteq> insert t (snd ` set (tools r))"
  by (auto simp: register_def insert_tool_def)

lemma tools_register_all: "snd ` set (tools (register_all ts r)) \<subseteq> set ts \<union> snd ` set (tools r)"
proof (induction ts arbitrary: r)
  case (Cons t ts)
  have "snd ` set (tools (register_all ts (register t r))) \<subseteq> set ts \<union> insert t (snd ` set (tools r))"
    using Cons [of "register t r"] tools_register [of t r] by (meson Un_mono order_refl order_trans)
  then show ?case by (simp add: register_all_def)
qed (simp add: register_all_def)

text \<open>What a sub-agent finds in its registry was declared for it.\<close>

lemma registry_ok_subagents:
  "registry_ok (subagent_readonly_tools w)" "registry_ok (subagent_coder_tools g)" "registry_ok (verifier_registry r)"
  by (simp_all add: subagent_readonly_tools_def subagent_coder_tools_def verifier_registry_def
      registry_ok_register_all registry_ok_register registry_ok_new)

lemma registry_get_tools:
  assumes "registry_ok r" "registry_get r nm = Some t" shows "t \<in> snd ` set (tools r)"
  using registry_get_name(1) [OF assms] by force

lemma readonly_get:
  "registry_get (subagent_readonly_tools w) nm = Some t \<Longrightarrow> t \<in> set (readonly_tools w)"
  using registry_get_tools [OF registry_ok_subagents(1)] tools_register_all [of "readonly_tools w" registry_new]
  by (fastforce simp: subagent_readonly_tools_def registry_new_def)

lemma coder_get:
  "registry_get (subagent_coder_tools g) nm = Some t \<Longrightarrow> t \<in> set (coder_tools g)"
  using registry_get_tools [OF registry_ok_subagents(2)] tools_register_all [of "coder_tools g" registry_new]
  by (fastforce simp: subagent_coder_tools_def registry_new_def)

lemma list_core_sub: "set (list_core r) \<subseteq> snd ` set (tools r)"
  by (auto simp: list_core_def)

lemma verifier_get:
  assumes "registry_get (verifier_registry (subagent_readonly_tools w)) nm = Some t"
  shows "t \<in> set (readonly_tools w) \<union> {ShellTool, RetrieveToolResultTool}"
proof -
  let ?ro = "subagent_readonly_tools w"
  let ?r1 = "register_all (list_core ?ro) registry_new"
  have "t \<in> snd ` set (tools (verifier_registry ?ro))"
    using registry_get_tools [OF registry_ok_subagents(3) assms] .
  then have "t = RetrieveToolResultTool \<or> t = ShellTool \<or> t \<in> snd ` set (tools ?r1)"
    using tools_register [of RetrieveToolResultTool "register ShellTool ?r1"] tools_register [of ShellTool ?r1]
    unfolding verifier_registry_def by blast
  moreover have "snd ` set (tools ?r1) \<subseteq> set (list_core ?ro)"
    using tools_register_all [of "list_core ?ro" registry_new] by (simp add: registry_new_def)
  moreover have "set (list_core ?ro) \<subseteq> set (readonly_tools w)"
    using list_core_sub [of ?ro] tools_register_all [of "readonly_tools w" registry_new]
    by (auto simp: subagent_readonly_tools_def registry_new_def)
  ultimately show ?thesis by blast
qed

end
