(* ===== verification/BackgroundTasks.thy ===== *)
theory BackgroundTasks
  imports Paths TextUtil "HOL-Library.AList"
begin

text \<open>
  The store of background tasks (\<open>builtin/exec/background_task.rs\<close>) and the place where the agent loop
  announces finished tasks to the model (\<open>plates/tian_heaven/loop.rs\<close>). Every method runs under one lock
  and is a function of the store; the snapshot for crash recovery is written under the same lock, so a
  method with the snapshot it ends with is one step. The table is a hash map, in the order in which it would be
  iterated; instants are numbers given by the caller.
\<close>

section \<open>Tasks\<close>

datatype task_type = ShellTask | AgentTask | WorkflowTask

fun task_type_prefix :: "task_type \<Rightarrow> string" where
  "task_type_prefix ShellTask = ''b''"
| "task_type_prefix AgentTask = ''a''"
| "task_type_prefix WorkflowTask = ''w''"

fun task_type_as_str :: "task_type \<Rightarrow> string" where
  "task_type_as_str ShellTask = ''shell''"
| "task_type_as_str AgentTask = ''agent''"
| "task_type_as_str WorkflowTask = ''workflow''"

definition task_type_from_str :: "string \<Rightarrow> task_type option" where
  "task_type_from_str s =
     (if s = ''shell'' then Some ShellTask else if s = ''agent'' then Some AgentTask
      else if s = ''workflow'' then Some WorkflowTask else None)"

datatype task_status = TPending | TRunning | TCompleted | TFailed | TKilled | TLost

fun task_status_as_str :: "task_status \<Rightarrow> string" where
  "task_status_as_str TPending = ''pending''"
| "task_status_as_str TRunning = ''running''"
| "task_status_as_str TCompleted = ''completed''"
| "task_status_as_str TFailed = ''failed''"
| "task_status_as_str TKilled = ''killed''"
| "task_status_as_str TLost = ''lost''"

definition is_terminal :: "task_status \<Rightarrow> bool" where
  "is_terminal st = (st \<in> {TCompleted, TFailed, TKilled, TLost})"

record background_task =
  bt_id :: string
  bt_type :: task_type
  bt_status :: task_status
  bt_description :: string
  bt_output_file :: path
  bt_output_offset :: nat
  bt_notified :: bool
  bt_started_at :: nat
  bt_ended_at :: "nat option"
  bt_tool_use_id :: "string option"
  bt_agent_id :: "string option"
  bt_exit_code :: "int option"

record persisted_task =
  pt_id :: string
  pt_type :: string
  pt_description :: string
  pt_output_file :: string
  pt_tool_use_id :: "string option"
  pt_agent_id :: "string option"

definition persisted_of :: "background_task \<Rightarrow> persisted_task" where
  "persisted_of t =
     \<lparr>pt_id = bt_id t, pt_type = task_type_as_str (bt_type t), pt_description = bt_description t,
      pt_output_file = path_to_string (bt_output_file t), pt_tool_use_id = bt_tool_use_id t,
      pt_agent_id = bt_agent_id t\<rparr>"

section \<open>The store\<close>

text \<open>\<open>ts_snapshot\<close> is the content of \<open>background_tasks.json\<close>, \<open>None\<close> where there is no such file.\<close>

record task_store =
  ts_tasks :: "(string \<times> background_task) list"
  ts_snapshot :: "string option"

text \<open>The JSON printer and parser, and what a write (over the old content) and a removal leave behind.\<close>

record task_io =
  tio_print :: "persisted_task list \<Rightarrow> string option"
  tio_parse :: "string \<Rightarrow> persisted_task list option"
  tio_write :: "string \<Rightarrow> string option \<Rightarrow> string option"
  tio_remove :: "string option \<Rightarrow> string option"

definition task_store_new :: task_store where
  "task_store_new = \<lparr>ts_tasks = [], ts_snapshot = None\<rparr>"

definition live_tasks :: "task_store \<Rightarrow> background_task list" where
  "live_tasks s = filter (\<lambda>t. bt_status t = TRunning \<or> bt_status t = TPending) (map snd (ts_tasks s))"

definition persist_snapshot :: "task_io \<Rightarrow> task_store \<Rightarrow> task_store" where
  "persist_snapshot io s =
     (let running = map persisted_of (live_tasks s) in
      if running = [] then s\<lparr>ts_snapshot := tio_remove io (ts_snapshot s)\<rparr>
      else case tio_print io running of
        Some json \<Rightarrow> s\<lparr>ts_snapshot := tio_write io json (ts_snapshot s)\<rparr>
      | None \<Rightarrow> s)"

definition lost_task :: "nat \<Rightarrow> persisted_task \<Rightarrow> background_task" where
  "lost_task now pt =
     \<lparr>bt_id = pt_id pt,
      bt_type = (case task_type_from_str (pt_type pt) of Some ty \<Rightarrow> ty | None \<Rightarrow> ShellTask),
      bt_status = TLost, bt_description = pt_description pt, bt_output_file = parse_path (pt_output_file pt),
      bt_output_offset = 0, bt_notified = False, bt_started_at = now, bt_ended_at = Some now,
      bt_tool_use_id = pt_tool_use_id pt, bt_agent_id = pt_agent_id pt, bt_exit_code = None\<rparr>"

definition hydrate_and_mark_lost :: "task_io \<Rightarrow> nat \<Rightarrow> task_store \<Rightarrow> nat \<times> task_store" where
  "hydrate_and_mark_lost io now s =
     (case ts_snapshot s of
        None \<Rightarrow> (0, s)
      | Some json \<Rightarrow>
          (case tio_parse io json of
             None \<Rightarrow> (0, s)
           | Some persisted \<Rightarrow>
               (if persisted = [] then (0, s)
                else (length persisted,
                      \<lparr>ts_tasks = fold (\<lambda>pt ts. AList.update (pt_id pt) (lost_task now pt) ts) persisted (ts_tasks s),
                       ts_snapshot = tio_remove io (ts_snapshot s)\<rparr>))))"

text \<open>\<open>generate_id\<close>: the prefix of the type and eight characters from the bytes of a UUID.\<close>

definition TASK_ID_ALPHABET :: string where
  "TASK_ID_ALPHABET = ''0123456789abcdefghijklmnopqrstuvwxyz''"

definition random_base36 :: "(nat \<Rightarrow> nat) \<Rightarrow> nat \<Rightarrow> string" where
  "random_base36 bytes len =
     map (\<lambda>i. TASK_ID_ALPHABET ! (bytes (i mod 16) mod length TASK_ID_ALPHABET)) [0..<len]"

definition generate_id :: "(nat \<Rightarrow> nat) \<Rightarrow> task_type \<Rightarrow> string" where
  "generate_id bytes ty = task_type_prefix ty @ random_base36 bytes 8"

definition register_task :: "task_io \<Rightarrow> nat \<Rightarrow> background_task \<Rightarrow> task_store \<Rightarrow> task_store" where
  "register_task io now t s =
     persist_snapshot io
       (s\<lparr>ts_tasks := AList.update (bt_id t) (t\<lparr>bt_status := TRunning, bt_started_at := now\<rparr>) (ts_tasks s)\<rparr>)"

definition put_task :: "string \<Rightarrow> background_task \<Rightarrow> task_store \<Rightarrow> task_store" where
  "put_task i t s = s\<lparr>ts_tasks := AList.update i t (ts_tasks s)\<rparr>"

definition get_task :: "task_store \<Rightarrow> string \<Rightarrow> background_task option" where
  "get_task s i = map_of (ts_tasks s) i"

definition update_status ::
  "task_io \<Rightarrow> nat \<Rightarrow> string \<Rightarrow> task_status \<Rightarrow> int option \<Rightarrow> task_store \<Rightarrow> background_task option \<times> task_store" where
  "update_status io now i st code s =
     (case get_task s i of
        None \<Rightarrow> (None, s)
      | Some t \<Rightarrow>
          (if is_terminal (bt_status t) then (Some t, s)
           else
             (let t1 = t\<lparr>bt_status := st, bt_ended_at := (if is_terminal st then Some now else None),
                         bt_exit_code := (case code of Some c \<Rightarrow> Some c | None \<Rightarrow> bt_exit_code t)\<rparr>;
                  s1 = put_task i t1 s
              in (Some t1, if is_terminal st then persist_snapshot io s1 else s1))))"

definition mark_notified :: "string \<Rightarrow> task_store \<Rightarrow> bool \<times> task_store" where
  "mark_notified i s =
     (case get_task s i of
        Some t \<Rightarrow> (if bt_notified t then (False, s) else (True, put_task i (t\<lparr>bt_notified := True\<rparr>) s))
      | None \<Rightarrow> (False, s))"

definition list_tasks :: "task_store \<Rightarrow> task_status option \<Rightarrow> background_task list" where
  "list_tasks s flt =
     filter (\<lambda>t. case flt of None \<Rightarrow> True | Some st \<Rightarrow> bt_status t = st) (map snd (ts_tasks s))"

definition unnotified_terminal_tasks :: "task_store \<Rightarrow> background_task list" where
  "unnotified_terminal_tasks s =
     filter (\<lambda>t. is_terminal (bt_status t) \<and> \<not> bt_notified t) (map snd (ts_tasks s))"

definition running_count :: "task_store \<Rightarrow> nat" where
  "running_count s = length (filter (\<lambda>t. bt_status t = TRunning) (map snd (ts_tasks s)))"

definition update_offset :: "string \<Rightarrow> nat \<Rightarrow> task_store \<Rightarrow> task_store" where
  "update_offset i off s =
     (case get_task s i of Some t \<Rightarrow> put_task i (t\<lparr>bt_output_offset := off\<rparr>) s | None \<Rightarrow> s)"

definition evict :: "string \<Rightarrow> task_store \<Rightarrow> bool \<times> task_store" where
  "evict i s =
     (case get_task s i of
        Some t \<Rightarrow>
          (if is_terminal (bt_status t) \<and> bt_notified t
           then (True, s\<lparr>ts_tasks := AList.delete i (ts_tasks s)\<rparr>) else (False, s))
      | None \<Rightarrow> (False, s))"

definition kill_task :: "task_io \<Rightarrow> nat \<Rightarrow> string \<Rightarrow> task_store \<Rightarrow> background_task option \<times> task_store" where
  "kill_task io now i s =
     (case get_task s i of
        Some t \<Rightarrow>
          (if bt_status t \<noteq> TRunning then (None, s)
           else
             (let t1 = t\<lparr>bt_status := TKilled, bt_ended_at := Some now, bt_notified := True\<rparr>
              in (Some t1, persist_snapshot io (put_task i t1 s))))
      | None \<Rightarrow> (None, s))"

section \<open>Announcing finished tasks\<close>

text \<open>The text of an exit code is given (\<open>Display\<close> of an \<open>i32\<close>).\<close>

definition task_summary :: "(int \<Rightarrow> string) \<Rightarrow> background_task \<Rightarrow> background_task \<Rightarrow> string option" where
  "task_summary show_code seen t =
     (let code_info = (case bt_exit_code t of None \<Rightarrow> [] | Some c \<Rightarrow> '' (exit code '' @ show_code c @ '')'') in
      case bt_type seen of
        ShellTask \<Rightarrow>
          (case bt_status t of
             TCompleted \<Rightarrow> Some (''Background command \"'' @ bt_description t @ ''\" completed successfully'' @ code_info @ ''.'')
           | TFailed \<Rightarrow> Some (''Background command \"'' @ bt_description t @ ''\" failed'' @ code_info @ ''.'')
           | TKilled \<Rightarrow> Some (''Background command \"'' @ bt_description t @ ''\" was stopped.'')
           | TLost \<Rightarrow> Some (''Background command \"'' @ bt_description t @ ''\" was lost after a crash (process state unknown).'')
           | _ \<Rightarrow> None)
      | _ \<Rightarrow> Some (''Background task \"'' @ bt_description t @ ''\" '' @ task_status_as_str (bt_status t) @ ''.''))"

definition announce ::
  "(int \<Rightarrow> string) \<Rightarrow> background_task \<Rightarrow> (string \<times> string) list \<times> task_store \<Rightarrow> (string \<times> string) list \<times> task_store" where
  "announce show_code seen acc =
     (case mark_notified (bt_id seen) (snd acc) of
        (False, s) \<Rightarrow> (fst acc, s)
      | (True, s) \<Rightarrow>
          (let t = (case get_task s (bt_id seen) of Some t \<Rightarrow> t | None \<Rightarrow> seen) in
           case task_summary show_code seen t of
             None \<Rightarrow> (fst acc, s)
           | Some summary \<Rightarrow>
               (fst acc @ [(bt_id seen, ''[Background task '' @ bt_id seen @ ''] '' @ summary @ [CHR 0x0A] @
                  ''Output file: '' @ path_to_string (bt_output_file t))], s)))"

definition notify_finished :: "(int \<Rightarrow> string) \<Rightarrow> task_store \<Rightarrow> (string \<times> string) list \<times> task_store" where
  "notify_finished show_code s =
     (let seen = unnotified_terminal_tasks s;
          acc = fold (announce show_code) seen ([], s)
      in if seen = [] then acc
         else (fst acc,
               fold (\<lambda>t s. if is_terminal (bt_status t) \<and> bt_notified t then snd (evict (bt_id t) s) else s)
                 (list_tasks (snd acc) None) (snd acc)))"

section \<open>Runs of the store\<close>

text \<open>The methods as they interleave. A step records whether it claimed a notification.\<close>

datatype task_op =
  OpRegister background_task
| OpStatus string task_status "int option"
| OpNotified string
| OpOffset string nat
| OpEvict string
| OpKill string

fun task_op_run :: "task_io \<Rightarrow> nat \<Rightarrow> task_op \<Rightarrow> task_store \<Rightarrow> bool \<times> task_store" where
  "task_op_run io now (OpRegister t) s = (False, register_task io now t s)"
| "task_op_run io now (OpStatus i st code) s = (False, snd (update_status io now i st code s))"
| "task_op_run io now (OpNotified i) s = mark_notified i s"
| "task_op_run io now (OpOffset i off) s = (False, update_offset i off s)"
| "task_op_run io now (OpEvict i) s = (False, snd (evict i s))"
| "task_op_run io now (OpKill i) s = (False, snd (kill_task io now i s))"

inductive task_run :: "task_io \<Rightarrow> task_store \<Rightarrow> (task_op \<times> bool) list \<Rightarrow> task_store \<Rightarrow> bool" for io s where
  run_start: "task_run io s [] s"
| run_step: "task_run io s tr s1 \<Longrightarrow> task_op_run io now op s1 = (b, s2) \<Longrightarrow> task_run io s (tr @ [(op, b)]) s2"

fun registers :: "string \<Rightarrow> task_op \<Rightarrow> bool" where
  "registers i (OpRegister t) = (bt_id t = i)"
| "registers i _ = False"

abbreviation untouched :: "string \<Rightarrow> (task_op \<times> bool) list \<Rightarrow> bool" where
  "untouched i tr \<equiv> \<not> list_ex (\<lambda>(op, _). registers i op) tr"

lemma persist_tasks [simp]: "ts_tasks (persist_snapshot io s) = ts_tasks s"
  by (simp add: persist_snapshot_def Let_def split: option.split)

lemma get_persist [simp]: "get_task (persist_snapshot io s) i = get_task s i"
  by (simp add: get_task_def)

lemma get_put [simp]: "get_task (put_task i t s) j = (if j = i then Some t else get_task s j)"
  by (simp add: get_task_def put_task_def update_conv')

lemma get_register [simp]:
  "get_task (register_task io now t s) i =
     (if i = bt_id t then Some (t\<lparr>bt_status := TRunning, bt_started_at := now\<rparr>) else get_task s i)"
  by (simp add: register_task_def get_task_def update_conv')

lemma get_evict:
  "get_task (snd (evict i s)) j =
     (case get_task s i of
        Some t \<Rightarrow> (if j = i \<and> is_terminal (bt_status t) \<and> bt_notified t then None else get_task s j)
      | None \<Rightarrow> get_task s j)"
  by (simp add: evict_def get_task_def delete_conv' split: option.split)

text \<open>One step, seen from one task that the step does not register: the task is gone, or it has moved on
  unless it was terminal; it is claimed only if it had not been announced.\<close>

definition same_end :: "background_task \<Rightarrow> background_task \<Rightarrow> bool" where
  "same_end t t' = (t' = t\<lparr>bt_notified := bt_notified t', bt_output_offset := bt_output_offset t'\<rparr>)"

lemma same_end_refl [simp]: "same_end t t"
  by (simp add: same_end_def)

lemma same_end_trans: "same_end t t' \<Longrightarrow> same_end t' t'' \<Longrightarrow> same_end t t''"
  unfolding same_end_def by (metis (no_types) background_task.surjective background_task.update_convs(6,7))

lemma same_end_updates [simp]:
  "same_end t (t\<lparr>bt_notified := b\<rparr>)" "same_end t (t\<lparr>bt_output_offset := k\<rparr>)"
  by (simp_all add: same_end_def)

lemma same_end_terminal: "same_end t t' \<Longrightarrow> bt_status t' = bt_status t"
  unfolding same_end_def by (metis background_task.select_convs(3) background_task.surjective background_task.update_convs(6,7))

lemmas task_ops = update_status_def mark_notified_def update_offset_def kill_task_def

lemma task_op_absent:
  "\<not> registers i op \<Longrightarrow> task_op_run io now op s = (b, s') \<Longrightarrow> get_task s i = None \<Longrightarrow> get_task s' i = None"
  by (cases op) (auto simp: task_ops get_evict Let_def split: option.splits if_splits)

lemma task_op_terminal:
  assumes "\<not> registers i op" "task_op_run io now op s = (b, s')" "get_task s i = Some t" "is_terminal (bt_status t)"
  shows "get_task s' i = None \<or> (\<exists>t'. get_task s' i = Some t' \<and> same_end t t')"
  using assms
  by (cases op) (auto simp: task_ops get_evict Let_def is_terminal_def split: option.splits if_splits)

definition spent :: "task_store \<Rightarrow> string \<Rightarrow> bool" where
  "spent s i = (case get_task s i of None \<Rightarrow> True | Some t \<Rightarrow> bt_notified t)"

lemma task_op_spent:
  assumes "\<not> registers i op" "task_op_run io now op s = (b, s')"
  shows "spent s i \<Longrightarrow> spent s' i" "spent s i \<Longrightarrow> \<not> (op = OpNotified i \<and> b)" "op = OpNotified i \<Longrightarrow> b \<Longrightarrow> spent s' i"
  using assms
  by (cases op; auto simp: spent_def task_ops get_evict Let_def split: option.splits if_splits)+

text \<open>C18: a finished task stays as it finished. Whatever methods run, in whatever order, a task that has completed,
  failed, been killed or lost keeps its status, its end and its exit code until it leaves the store, unless
  its id is registered anew; only its notification flag and its read offset can change.\<close>

theorem finished_task_final:
  assumes "task_run io s tr s'" "untouched i tr" "get_task s i = Some t" "is_terminal (bt_status t)"
  shows "get_task s' i = None \<or> (\<exists>t'. get_task s' i = Some t' \<and> same_end t t')"
  using assms
proof (induction rule: task_run.induct)
  case (run_step tr s1 now op b s2)
  then have op: "\<not> registers i op" and IH: "get_task s1 i = None \<or> (\<exists>t'. get_task s1 i = Some t' \<and> same_end t t')"
    by auto
  from IH show ?case
  proof
    assume "get_task s1 i = None"
    then show ?thesis using task_op_absent [OF op run_step(2)] by simp
  next
    assume "\<exists>t'. get_task s1 i = Some t' \<and> same_end t t'"
    then show ?thesis
      using task_op_terminal [OF op run_step(2)] run_step(6) same_end_terminal same_end_trans by metis
  qed
qed simp

lemma task_run_claims:
  assumes "task_run io s tr s'" "untouched i tr"
  shows "count_list tr (OpNotified i, True) \<le> (if spent s i then 0 else 1)"
    "spent s i \<or> 0 < count_list tr (OpNotified i, True) \<Longrightarrow> spent s' i"
  using assms
proof (induction rule: task_run.induct)
  case (run_step tr s1 now op b s2)
  case 1
  then show ?case using run_step task_op_spent [of i op io now s1 b s2] by (auto split: if_splits)
next
  case (run_step tr s1 now op b s2)
  case 2
  then show ?case using run_step task_op_spent [of i op io now s1 b s2] by (auto split: if_splits)
qed simp_all

text \<open>A task is announced at most once. However the loops that look for finished tasks interleave with the
  tasks that finish or are killed, at most one of them claims the notification of a task, none does once it
  has been claimed, and none does for a task that was killed.\<close>

theorem announced_at_most_once:
  assumes "task_run io s tr s'" "untouched i tr"
  shows "count_list tr (OpNotified i, True) \<le> (if spent s i then 0 else 1) \<and>
    (kill_task io now i s0 = (Some t, s) \<longrightarrow> count_list tr (OpNotified i, True) = 0)"
proof -
  have "kill_task io now i s0 = (Some t, s) \<Longrightarrow> spent s i"
    by (auto simp: kill_task_def spent_def Let_def split: option.splits if_splits)
  then show ?thesis using task_run_claims(1) [OF assms] by auto
qed

section \<open>What is announced\<close>

definition store_ok :: "task_store \<Rightarrow> bool" where
  "store_ok s = (distinct (map fst (ts_tasks s)) \<and> list_all (\<lambda>(i, t). i = bt_id t) (ts_tasks s))"

lemma store_ok_get:
  assumes "store_ok s" "(i, t) \<in> set (ts_tasks s)"
  shows "get_task s i = Some t" "i = bt_id t"
  using assms by (auto simp: store_ok_def get_task_def list_all_iff)

lemma alist_update_map:
  assumes "distinct (map fst xs)" "map_of xs i = Some t"
  shows "AList.update i t' xs = map (\<lambda>(j, u). (j, if j = i then t' else u)) xs"
  using assms
proof (induction xs)
  case (Cons x xs)
  show ?case
  proof (cases "fst x = i")
    case True
    then have "\<forall>y \<in> set xs. fst y \<noteq> i" using Cons.prems(1) by (cases x) force
    then show ?thesis using True by (cases x) (auto intro!: map_idI [symmetric])
  next
    case False
    then show ?thesis using Cons by (cases x) simp
  qed
qed simp

definition mark_all :: "string set \<Rightarrow> (string \<times> background_task) list \<Rightarrow> (string \<times> background_task) list" where
  "mark_all S = map (\<lambda>(i, t). (i, if i \<in> S then t\<lparr>bt_notified := True\<rparr> else t))"

lemma mark_all_keys [simp]: "map fst (mark_all S xs) = map fst xs"
  by (induction xs) (auto simp: mark_all_def)

lemma map_of_mark_all:
  "map_of (mark_all S xs) i = map_option (\<lambda>t. if i \<in> S then t\<lparr>bt_notified := True\<rparr> else t) (map_of xs i)"
  by (induction xs) (auto simp: mark_all_def)

lemma mark_all_insert: "mark_all S (mark_all {i} xs) = mark_all (insert i S) xs"
  by (auto simp: mark_all_def)

lemma mark_all_empty [simp]: "mark_all {} xs = xs"
  by (induction xs) (auto simp: mark_all_def)

lemma task_summary_terminal: "is_terminal (bt_status t) \<Longrightarrow> task_summary show_code seen t \<noteq> None"
  by (auto simp: task_summary_def is_terminal_def Let_def split: task_type.split)

lemma announce_fresh:
  assumes "distinct (map fst (ts_tasks s))" "get_task s (bt_id t) = Some t" "is_terminal (bt_status t)" "\<not> bt_notified t"
  shows "\<exists>m. announce show_code t (ms, s) = (ms @ [(bt_id t, m)], s\<lparr>ts_tasks := mark_all {bt_id t} (ts_tasks s)\<rparr>)"
proof -
  have "AList.update (bt_id t) (t\<lparr>bt_notified := True\<rparr>) (ts_tasks s) = mark_all {bt_id t} (ts_tasks s)"
    using assms(1,2) unfolding mark_all_def
    by (subst alist_update_map) (auto simp: get_task_def dest: eq_key_imp_eq_value)
  moreover obtain x where "task_summary show_code t (t\<lparr>bt_notified := True\<rparr>) = Some x"
    using task_summary_terminal [of "t\<lparr>bt_notified := True\<rparr>"] assms(3) by fastforce
  ultimately show ?thesis
    using assms by (simp add: announce_def mark_notified_def put_task_def get_task_def map_of_mark_all)
qed

lemma fold_announce:
  assumes "distinct (map fst (ts_tasks s))" "distinct (map bt_id us)"
    "\<And>u. u \<in> set us \<Longrightarrow> get_task s (bt_id u) = Some u \<and> is_terminal (bt_status u) \<and> \<not> bt_notified u"
  shows "map fst (fst (fold (announce show_code) us (ms, s))) = map fst ms @ map bt_id us \<and>
    snd (fold (announce show_code) us (ms, s)) = s\<lparr>ts_tasks := mark_all (bt_id ` set us) (ts_tasks s)\<rparr>"
  using assms
proof (induction us arbitrary: ms s)
  case (Cons u us)
  obtain m where a: "announce show_code u (ms, s) =
      (ms @ [(bt_id u, m)], s\<lparr>ts_tasks := mark_all {bt_id u} (ts_tasks s)\<rparr>)"
    using announce_fresh Cons.prems by (metis list.set_intros(1))
  let ?s = "s\<lparr>ts_tasks := mark_all {bt_id u} (ts_tasks s)\<rparr>"
  have "get_task ?s (bt_id v) = Some v \<and> is_terminal (bt_status v) \<and> \<not> bt_notified v" if "v \<in> set us" for v
  proof -
    have "bt_id v \<noteq> bt_id u" using Cons.prems(2) that by (metis distinct.simps(2) image_eqI list.simps(9) set_map)
    then show ?thesis using Cons.prems(3) [of v] that by (simp add: get_task_def map_of_mark_all)
  qed
  then show ?case using Cons.IH [of ?s "ms @ [(bt_id u, m)]"] Cons.prems(1,2) a
    by (simp add: mark_all_insert)
qed simp

definition evict_all :: "background_task list \<Rightarrow> task_store \<Rightarrow> task_store" where
  "evict_all = fold (\<lambda>t s. if is_terminal (bt_status t) \<and> bt_notified t then snd (evict (bt_id t) s) else s)"

lemma evict_present:
  assumes "get_task s (bt_id t) = Some t" "is_terminal (bt_status t)" "bt_notified t"
  shows "snd (evict (bt_id t) s) = s\<lparr>ts_tasks := filter (\<lambda>(j, _). bt_id t \<noteq> j) (ts_tasks s)\<rparr>"
  using assms by (simp add: evict_def AList.delete_eq)

lemma map_of_filter_key: "map_of (filter (\<lambda>(j, _). k \<noteq> j) xs) i = (if i = k then None else map_of xs i)"
  by (induction xs) auto

lemma evict_all_tasks:
  assumes "distinct (map bt_id us)" "\<And>u. u \<in> set us \<Longrightarrow> get_task s (bt_id u) = Some u"
  shows "evict_all us s = s\<lparr>ts_tasks :=
    filter (\<lambda>(j, _). j \<notin> bt_id ` {u \<in> set us. is_terminal (bt_status u) \<and> bt_notified u}) (ts_tasks s)\<rparr>"
  using assms
proof (induction us arbitrary: s)
  case (Cons u us)
  have other: "bt_id v \<noteq> bt_id u" if "v \<in> set us" for v
    using Cons.prems(1) that by (metis distinct.simps(2) image_eqI list.simps(9) set_map)
  show ?case
  proof (cases "is_terminal (bt_status u) \<and> bt_notified u")
    case True
    let ?s = "s\<lparr>ts_tasks := filter (\<lambda>(j, _). bt_id u \<noteq> j) (ts_tasks s)\<rparr>"
    have "evict_all (u # us) s = evict_all us ?s"
      using True evict_present [of s u] Cons.prems(2) [of u] by (simp add: evict_all_def)
    also have "\<dots> = ?s\<lparr>ts_tasks :=
        filter (\<lambda>(j, _). j \<notin> bt_id ` {u \<in> set us. is_terminal (bt_status u) \<and> bt_notified u}) (ts_tasks ?s)\<rparr>"
      using Cons.prems other by (intro Cons.IH) (auto simp: get_task_def map_of_filter_key)
    finally show ?thesis using True
      by (auto intro!: arg_cong [where f = "\<lambda>xs. s\<lparr>ts_tasks := xs\<rparr>"] filter_cong)
  next
    case False
    then have "{v \<in> set (u # us). is_terminal (bt_status v) \<and> bt_notified v} =
        {v \<in> set us. is_terminal (bt_status v) \<and> bt_notified v}" by auto
    moreover have "evict_all (u # us) s = evict_all us s" using False by (auto simp: evict_all_def)
    ultimately show ?thesis using Cons.IH [of s] Cons.prems by simp
  qed
qed (simp add: evict_all_def)

lemma filter_mark_all:
  assumes "\<And>i t. (i, t) \<in> set xs \<Longrightarrow> i \<in> S \<longleftrightarrow> is_terminal (bt_status t) \<and> \<not> bt_notified t"
  shows "filter (\<lambda>(_, t). \<not> (is_terminal (bt_status t) \<and> bt_notified t)) (mark_all S xs) =
    filter (\<lambda>(_, t). \<not> is_terminal (bt_status t)) xs"
  using assms
proof (induction xs)
  case (Cons x xs)
  obtain i t where x: "x = (i, t)" by fastforce
  have "i \<in> S \<longleftrightarrow> is_terminal (bt_status t) \<and> \<not> bt_notified t" using Cons.prems [of i t] x by simp
  then show ?case using Cons x by (cases "i \<in> S") (simp_all add: mark_all_def)
qed (simp add: mark_all_def)

lemma store_ok_mark_all: "store_ok s \<Longrightarrow> store_ok (s\<lparr>ts_tasks := mark_all S (ts_tasks s)\<rparr>)"
  unfolding store_ok_def by simp (auto simp: list_all_iff mark_all_def)

lemma store_ok_ids: "store_ok s \<Longrightarrow> map bt_id (map snd (ts_tasks s)) = map fst (ts_tasks s)"
  by (auto simp: store_ok_def list_all_iff)


section \<open>Crash recovery\<close>

text \<open>Writing and removing succeed, and what is printed parses back.\<close>

definition healthy_task_io :: "task_io \<Rightarrow> bool" where
  "healthy_task_io io \<longleftrightarrow>
     (\<forall>j f. tio_write io j f = Some j) \<and> (\<forall>f. tio_remove io f = None) \<and>
     (\<forall>ts. \<exists>j. tio_print io ts = Some j \<and> tio_parse io j = Some ts)"

definition snapshot_ok :: "task_io \<Rightarrow> task_store \<Rightarrow> bool" where
  "snapshot_ok io s \<longleftrightarrow>
     ts_snapshot s = (if live_tasks s = [] then None else tio_print io (map persisted_of (live_tasks s)))"

definition paths_ok :: "task_store \<Rightarrow> bool" where
  "paths_ok s = list_all (\<lambda>(_, t). proper_path (bt_output_file t)) (ts_tasks s)"

lemma live_tasks_persist [simp]: "live_tasks (persist_snapshot io s) = live_tasks s"
  by (simp add: live_tasks_def)

lemma snapshot_ok_persist: "healthy_task_io io \<Longrightarrow> snapshot_ok io (persist_snapshot io s)"
  unfolding snapshot_ok_def live_tasks_persist
  by (auto simp: persist_snapshot_def healthy_task_io_def Let_def split: option.split) (metis option.distinct(1))

definition is_live :: "background_task \<Rightarrow> bool" where
  "is_live t = (bt_status t = TRunning \<or> bt_status t = TPending)"

lemma live_tasks_alt: "live_tasks s = filter is_live (map snd (ts_tasks s))"
  by (simp add: live_tasks_def is_live_def [abs_def])

lemma is_live_terminal: "is_live t \<longleftrightarrow> \<not> is_terminal (bt_status t)"
  by (cases "bt_status t") (simp_all add: is_live_def is_terminal_def)

text \<open>Updating a task in place, and dropping one that is not live, leave the live tasks' records alone.\<close>

lemma map_filter_update:
  assumes "map_of xs i = Some t" "P t' = P t" "f t' = f t"
  shows "map f (filter P (map snd (AList.update i t' xs))) = map f (filter P (map snd xs))"
  using assms by (induction xs) auto

lemma filter_delete:
  assumes "distinct (map fst xs)" "map_of xs i = Some t" "\<not> P t"
  shows "filter P (map snd (AList.delete i xs)) = filter P (map snd xs)"
  using assms
proof (induction xs)
  case (Cons x xs)
  then show ?case by (cases x) (auto simp: delete_notin_dom dest: map_of_SomeD)
qed simp

lemma snapshot_ok_cong:
  assumes "map persisted_of (live_tasks s') = map persisted_of (live_tasks s)" "ts_snapshot s' = ts_snapshot s"
  shows "snapshot_ok io s' = snapshot_ok io s"
proof -
  have "live_tasks s' = [] \<longleftrightarrow> live_tasks s = []" using assms(1) by (metis map_is_Nil_conv)
  then show ?thesis using assms by (simp add: snapshot_ok_def)
qed

lemma snapshot_ok_put:
  assumes "get_task s i = Some t" "is_live t' = is_live t" "persisted_of t' = persisted_of t"
  shows "snapshot_ok io (put_task i t' s) = snapshot_ok io s"
  using assms map_filter_update [of "ts_tasks s" i t is_live t' persisted_of]
  by (intro snapshot_ok_cong) (simp_all add: live_tasks_alt put_task_def get_task_def)

lemma persisted_of_updates [simp]:
  "persisted_of (t\<lparr>bt_notified := b\<rparr>) = persisted_of t" "persisted_of (t\<lparr>bt_output_offset := k\<rparr>) = persisted_of t"
  "persisted_of (t\<lparr>bt_status := st, bt_ended_at := e, bt_exit_code := c\<rparr>) = persisted_of t"
  by (simp_all add: persisted_of_def)

lemma list_all_task_update: "list_all Q xs \<Longrightarrow> Q (i, t) \<Longrightarrow> list_all Q (AList.update i t xs)"
  by (induction xs) auto

lemma list_all_delete: "list_all Q xs \<Longrightarrow> list_all Q (AList.delete i xs)"
  by (auto simp: list_all_iff AList.delete_eq)

text \<open>What holds in every store: well-formed entries, and a snapshot that lists the live tasks.\<close>

definition recoverable :: "task_io \<Rightarrow> task_store \<Rightarrow> bool" where
  "recoverable io s = (store_ok s \<and> paths_ok s \<and> snapshot_ok io s)"

lemma entries_put:
  assumes "store_ok s" "paths_ok s" "bt_id t = i" "proper_path (bt_output_file t)"
  shows "store_ok (put_task i t s)" "paths_ok (put_task i t s)"
  using assms
  by (simp_all add: store_ok_def paths_ok_def put_task_def distinct_update list_all_task_update)

lemma entries_get:
  assumes "store_ok s" "paths_ok s" "get_task s i = Some t"
  shows "bt_id t = i" "proper_path (bt_output_file t)"
proof -
  have "(i, t) \<in> set (ts_tasks s)" using assms(3) unfolding get_task_def by (rule map_of_SomeD)
  then show "bt_id t = i" "proper_path (bt_output_file t)"
    using assms(1,2) unfolding store_ok_def paths_ok_def list_all_iff by fastforce+
qed

lemma recoverable_put:
  assumes "recoverable io s" "get_task s i = Some t" "is_live t' = is_live t" "persisted_of t' = persisted_of t"
    "bt_id t' = bt_id t" "bt_output_file t' = bt_output_file t"
  shows "recoverable io (put_task i t' s)"
  using assms entries_get [of s i t] entries_put [of s t' i] snapshot_ok_put [of s i t t' io]
  by (simp add: recoverable_def)

lemma recoverable_persist:
  assumes "healthy_task_io io" "recoverable io s" "bt_id t = i" "proper_path (bt_output_file t)"
  shows "recoverable io (persist_snapshot io (put_task i t s))"
proof -
  have "store_ok (put_task i t s)" "paths_ok (put_task i t s)" using assms entries_put by (auto simp: recoverable_def)
  then show ?thesis
    using snapshot_ok_persist [OF assms(1)] by (simp add: recoverable_def store_ok_def paths_ok_def)
qed

lemma recoverable_evict:
  assumes "recoverable io s" shows "recoverable io (snd (evict i s))"
proof (cases "get_task s i")
  case (Some t)
  show ?thesis
  proof (cases "is_terminal (bt_status t) \<and> bt_notified t")
    case True
    let ?s = "s\<lparr>ts_tasks := AList.delete i (ts_tasks s)\<rparr>"
    have "live_tasks ?s = live_tasks s"
      using filter_delete [of "ts_tasks s" i t is_live] Some True assms
      by (simp add: live_tasks_alt is_live_terminal get_task_def recoverable_def store_ok_def)
    then have "snapshot_ok io ?s" using assms by (simp add: recoverable_def snapshot_ok_def)
    then show ?thesis using assms Some True
      by (simp add: recoverable_def store_ok_def paths_ok_def evict_def list_all_delete distinct_delete)
  qed (use assms Some in \<open>auto simp: evict_def\<close>)
qed (use assms in \<open>simp add: evict_def\<close>)

fun op_ok :: "task_op \<Rightarrow> bool" where
  "op_ok (OpRegister t) = proper_path (bt_output_file t)"
| "op_ok _ = True"

lemma task_op_recoverable:
  assumes "healthy_task_io io" "recoverable io s" "op_ok op" "task_op_run io now op s = (b, s')"
  shows "recoverable io s'"
proof (cases op)
  case (OpRegister t)
  then show ?thesis
    using recoverable_persist [OF assms(1,2), of "t\<lparr>bt_status := TRunning, bt_started_at := now\<rparr>"] assms(3,4)
    by (simp add: register_task_def put_task_def)
next
  case (OpStatus i st code)
  show ?thesis
  proof (cases "get_task s i")
    case (Some t)
    let ?t = "t\<lparr>bt_status := st, bt_ended_at := (if is_terminal st then Some now else None),
        bt_exit_code := (case code of Some c \<Rightarrow> Some c | None \<Rightarrow> bt_exit_code t)\<rparr>"
    have t: "bt_id ?t = i" "proper_path (bt_output_file ?t)"
      using entries_get [of s i t] assms(2) Some by (simp_all add: recoverable_def)
    show ?thesis
    proof (cases "is_terminal (bt_status t)")
      case False
      then show ?thesis
        using recoverable_persist [OF assms(1,2) t] recoverable_put [OF assms(2) Some, of ?t] Some assms(4) OpStatus
        by (auto simp: update_status_def Let_def is_live_terminal split: if_splits)
    qed (use assms OpStatus Some in \<open>auto simp: update_status_def\<close>)
  qed (use assms OpStatus in \<open>auto simp: update_status_def\<close>)
next
  case (OpNotified i)
  then show ?thesis using assms recoverable_put [OF assms(2), of i]
    by (auto simp: mark_notified_def is_live_def split: option.splits if_splits)
next
  case (OpOffset i off)
  then show ?thesis using assms recoverable_put [OF assms(2), of i]
    by (auto simp: update_offset_def is_live_def split: option.splits)
next
  case (OpEvict i)
  then show ?thesis using assms recoverable_evict by auto
next
  case (OpKill i)
  show ?thesis
  proof (cases "get_task s i")
    case (Some t)
    then show ?thesis
      using entries_get [of s i t] assms OpKill
        recoverable_persist [OF assms(1,2), of "t\<lparr>bt_status := TKilled, bt_ended_at := Some now, bt_notified := True\<rparr>" i]
      by (auto simp: kill_task_def Let_def recoverable_def split: if_splits)
  qed (use assms OpKill in \<open>auto simp: kill_task_def\<close>)
qed

lemma task_run_recoverable:
  "task_run io s tr s' \<Longrightarrow> healthy_task_io io \<Longrightarrow> recoverable io s \<Longrightarrow> list_all (op_ok \<circ> fst) tr \<Longrightarrow> recoverable io s'"
  by (induction rule: task_run.induct) (auto intro: task_op_recoverable)

definition after_crash :: "nat \<Rightarrow> background_task \<Rightarrow> background_task" where
  "after_crash now t = t\<lparr>bt_status := TLost, bt_output_offset := 0, bt_notified := False, bt_started_at := now,
     bt_ended_at := Some now, bt_exit_code := None\<rparr>"

lemma lost_task_persisted: "proper_path (bt_output_file t) \<Longrightarrow> lost_task now (persisted_of t) = after_crash now t"
  by (cases t; cases "bt_type t")
     (simp_all add: lost_task_def persisted_of_def after_crash_def task_type_from_str_def parse_path_to_string)

lemma update_fresh: "k \<notin> fst ` set xs \<Longrightarrow> AList.update k v xs = xs @ [(k, v)]"
  by (induction xs) auto

lemma fold_update_fresh:
  assumes "distinct (map k ts)" "\<And>t. t \<in> set ts \<Longrightarrow> k t \<notin> fst ` set xs"
  shows "fold (\<lambda>t xs. AList.update (k t) (v t) xs) ts xs = xs @ map (\<lambda>t. (k t, v t)) ts"
  using assms
proof (induction ts arbitrary: xs)
  case (Cons t ts)
  have "fold (\<lambda>t xs. AList.update (k t) (v t) xs) ts (xs @ [(k t, v t)]) =
      (xs @ [(k t, v t)]) @ map (\<lambda>t. (k t, v t)) ts"
    using Cons.prems by (intro Cons.IH) (auto simp: rev_image_eqI)
  then show ?case using Cons.prems(2) [of t] by (simp add: update_fresh)
qed simp

text \<open>C20: a crash loses no running task. After any run of the store on a healthy disk, the snapshot on disk is
  enough: a restart finds every task that was pending or running, marked as lost and not yet announced, with its
  type, description, output file and owner as they were, finds no other task, and clears the snapshot.\<close>

theorem crash_recovery:
  assumes "healthy_task_io io" "task_run io task_store_new tr s" "list_all (op_ok \<circ> fst) tr"
  shows "hydrate_and_mark_lost io now \<lparr>ts_tasks = [], ts_snapshot = ts_snapshot s\<rparr> =
    (length (live_tasks s),
     \<lparr>ts_tasks = map (\<lambda>t. (bt_id t, after_crash now t)) (live_tasks s), ts_snapshot = None\<rparr>)"
proof -
  have "recoverable io task_store_new"
    by (simp add: recoverable_def task_store_new_def store_ok_def paths_ok_def snapshot_ok_def live_tasks_def)
  then have ok: "store_ok s" "paths_ok s" "snapshot_ok io s"
    using task_run_recoverable [OF assms(2,1) _ assms(3)] by (simp_all add: recoverable_def)
  show ?thesis
  proof (cases "live_tasks s = []")
    case False
    let ?ts = "map persisted_of (live_tasks s)"
    obtain j where j: "tio_print io ?ts = Some j" "tio_parse io j = Some ?ts" "tio_remove io (Some j) = None"
      using assms(1) unfolding healthy_task_io_def by meson
    have d: "distinct (map pt_id ?ts)"
    proof -
      have "map pt_id ?ts = map bt_id (live_tasks s)" by (simp add: persisted_of_def)
      then show ?thesis
        using ok(1) store_ok_ids [OF ok(1)] unfolding live_tasks_alt store_ok_def by (metis distinct_map_filter)
    qed
    have "t \<in> set (live_tasks s) \<Longrightarrow> lost_task now (persisted_of t) = after_crash now t" for t
      using ok(2) lost_task_persisted [of t] by (auto simp: live_tasks_def paths_ok_def list_all_iff)
    then have "map (\<lambda>pt. (pt_id pt, lost_task now pt)) ?ts = map (\<lambda>t. (bt_id t, after_crash now t)) (live_tasks s)"
      by (simp add: persisted_of_def [of _] comp_def)
    then show ?thesis
      using fold_update_fresh [of pt_id ?ts "[]" "lost_task now"] d j ok(3) False
      by (simp add: hydrate_and_mark_lost_def snapshot_ok_def)
  qed (use ok(3) in \<open>simp add: hydrate_and_mark_lost_def snapshot_ok_def\<close>)
qed

section \<open>A concrete store\<close>

definition option_field :: "string option \<Rightarrow> string" where
  "option_field v = (case v of None \<Rightarrow> [] | Some s \<Rightarrow> CHR ''x'' # s)"

definition field_option :: "string \<Rightarrow> string option" where
  "field_option s = (case s of [] \<Rightarrow> None | _ # t \<Rightarrow> Some t)"

lemma field_option_field [simp]: "field_option (option_field v) = v"
  by (cases v) (simp_all add: field_option_def option_field_def)

definition sample_task_text :: "persisted_task \<Rightarrow> string" where
  "sample_task_text p = put_fields [pt_id p, pt_type p, pt_description p, pt_output_file p,
     option_field (pt_tool_use_id p), option_field (pt_agent_id p)]"

definition sample_task_parse :: "string \<Rightarrow> persisted_task" where
  "sample_task_parse s = (let f = fields_of s in
     \<lparr>pt_id = f ! 0, pt_type = f ! 1, pt_description = f ! 2, pt_output_file = f ! 3,
      pt_tool_use_id = field_option (f ! 4), pt_agent_id = field_option (f ! 5)\<rparr>)"

lemma sample_task_round_trip [simp]: "sample_task_parse (sample_task_text p) = p"
  by (simp add: sample_task_parse_def sample_task_text_def)

definition sample_task_io :: task_io where
  "sample_task_io = \<lparr>tio_print = (\<lambda>ts. Some (put_fields (map sample_task_text ts))),
     tio_parse = (\<lambda>s. Some (map sample_task_parse (fields_of s))), tio_write = (\<lambda>s _. Some s), tio_remove = (\<lambda>_. None)\<rparr>"

lemma healthy_sample_task_io: "healthy_task_io sample_task_io"
  by (simp add: healthy_task_io_def sample_task_io_def comp_def)

definition sample_task :: "string \<Rightarrow> task_type \<Rightarrow> background_task" where
  "sample_task i ty = \<lparr>bt_id = i, bt_type = ty, bt_status = TPending, bt_description = ''job'',
     bt_output_file = [RootDir, Normal ''t''], bt_output_offset = 0, bt_notified = False, bt_started_at = 0,
     bt_ended_at = None, bt_tool_use_id = None, bt_agent_id = None, bt_exit_code = None\<rparr>"

definition sample_running :: task_store where
  "sample_running = register_task sample_task_io 2 (sample_task ''a2'' AgentTask)
     (register_task sample_task_io 1 (sample_task ''b1'' ShellTask) task_store_new)"

definition sample_finished :: task_store where
  "sample_finished = snd (update_status sample_task_io 5 ''b1'' TCompleted (Some 0) sample_running)"

lemma task_run_once: "task_op_run io now op s = (b, s') \<Longrightarrow> task_run io s [(op, b)] s'"
  using task_run.run_step [OF task_run.run_start, of io now op s b s'] by simp

lemma task_run_two:
  "task_op_run io n1 o1 s = (b1, s1) \<Longrightarrow> task_op_run io n2 o2 s1 = (b2, s2) \<Longrightarrow> task_run io s [(o1, b1), (o2, b2)] s2"
  using task_run.run_step [OF task_run_once, of io n1 o1 s b1 s1 n2 o2 b2 s2] by simp

lemma task_run_three:
  "task_op_run io n1 o1 s = (b1, s1) \<Longrightarrow> task_op_run io n2 o2 s1 = (b2, s2) \<Longrightarrow> task_op_run io n3 o3 s2 = (b3, s3) \<Longrightarrow>
   task_run io s [(o1, b1), (o2, b2), (o3, b3)] s3"
  using task_run.run_step [OF task_run_two, of io n1 o1 s b1 s1 n2 o2 b2 s2 n3 o3 b3 s3] by simp

definition sample_tr :: "(task_op \<times> bool) list" where
  "sample_tr = [(OpRegister (sample_task ''b1'' ShellTask), False), (OpRegister (sample_task ''a2'' AgentTask), False),
     (OpStatus ''b1'' TCompleted (Some 0), False)]"

lemma sample_task_run: "task_run sample_task_io task_store_new sample_tr sample_finished"
  unfolding sample_tr_def sample_finished_def sample_running_def
  by (rule task_run_three [OF task_op_run.simps(1) task_op_run.simps(1) task_op_run.simps(2)])

lemma sample_get_b1:
  "get_task sample_running ''b1'' = Some ((sample_task ''b1'' ShellTask)\<lparr>bt_status := TRunning, bt_started_at := 1\<rparr>)"
  by (simp add: sample_running_def sample_task_def)

lemma sample_running_tasks: "ts_tasks sample_running =
    [(''b1'', (sample_task ''b1'' ShellTask)\<lparr>bt_status := TRunning, bt_started_at := 1\<rparr>),
     (''a2'', (sample_task ''a2'' AgentTask)\<lparr>bt_status := TRunning, bt_started_at := 2\<rparr>)]"
  by (simp add: sample_running_def register_task_def task_store_new_def sample_task_def)

lemma sample_finished_tasks: "ts_tasks sample_finished =
    [(''b1'', (sample_task ''b1'' ShellTask)
       \<lparr>bt_status := TCompleted, bt_started_at := 1, bt_ended_at := Some 5, bt_exit_code := Some 0\<rparr>),
     (''a2'', (sample_task ''a2'' AgentTask)\<lparr>bt_status := TRunning, bt_started_at := 2\<rparr>)]"
  by (simp add: sample_finished_def update_status_def sample_get_b1 put_task_def Let_def is_terminal_def
      sample_running_tasks)

lemma sample_finished_b1: "get_task sample_finished ''b1'' = Some ((sample_task ''b1'' ShellTask)
    \<lparr>bt_status := TCompleted, bt_started_at := 1, bt_ended_at := Some 5, bt_exit_code := Some 0\<rparr>)"
  by (simp add: sample_finished_def update_status_def sample_get_b1 is_terminal_def sample_task_def Let_def)

theorem finished_task_final_witness:
  "\<exists>s' t'. task_run sample_task_io sample_finished [(OpKill ''b1'', False), (OpNotified ''b1'', True)] s' \<and>
     get_task s' ''b1'' = Some t' \<and> bt_status t' = TCompleted"
proof -
  let ?k = "snd (kill_task sample_task_io 9 ''b1'' sample_finished)"
  have k: "?k = sample_finished" by (simp add: kill_task_def sample_finished_b1)
  obtain s' where n: "mark_notified ''b1'' ?k = (True, s')"
    by (simp add: mark_notified_def k sample_finished_b1) (simp add: sample_task_def)
  have r: "task_run sample_task_io sample_finished [(OpKill ''b1'', False), (OpNotified ''b1'', True)] s'"
    by (rule task_run_two [OF task_op_run.simps(6) [of _ 9]]) (simp add: n)
  moreover have "get_task s' ''b1'' \<noteq> None" using n by (auto simp: mark_notified_def split: option.splits if_splits)
  ultimately show ?thesis
    using finished_task_final [OF r, of "''b1''"] sample_finished_b1 same_end_terminal by (fastforce simp: is_terminal_def)
qed

theorem announced_at_most_once_witness:
  "\<exists>s'. task_run sample_task_io (snd (kill_task sample_task_io 3 ''b1'' sample_running))
       [(OpStatus ''b1'' TCompleted None, False), (OpNotified ''b1'', False)] s' \<and>
     count_list [(OpStatus ''b1'' TCompleted None, False), (OpNotified ''b1'', False)] (OpNotified ''b1'', True) = 0"
proof -
  obtain t s where k: "kill_task sample_task_io 3 ''b1'' sample_running = (Some t, s)"
    by (simp add: kill_task_def sample_get_b1 Let_def)
  then have t: "get_task s ''b1'' = Some t" "bt_status t = TKilled" "bt_notified t"
    by (auto simp: kill_task_def sample_get_b1 Let_def)
  have "task_run sample_task_io s [(OpStatus ''b1'' TCompleted None, False), (OpNotified ''b1'', False)] s"
    by (rule task_run_two [OF task_op_run.simps(2) [of _ 9]])
       (simp add: update_status_def mark_notified_def t is_terminal_def)
  moreover from announced_at_most_once [OF this, of "''b1''" 3 sample_running t] k
  have "count_list [(OpStatus ''b1'' TCompleted None, False), (OpNotified ''b1'', False)] (OpNotified ''b1'', True) = 0" by simp
  ultimately show ?thesis unfolding k by auto
qed

lemma sample_recoverable: "recoverable sample_task_io sample_finished"
  using task_run_recoverable [OF sample_task_run healthy_sample_task_io]
  by (simp add: recoverable_def task_store_new_def store_ok_def paths_ok_def snapshot_ok_def live_tasks_def sample_tr_def
      sample_task_def proper_path_def proper_component_def)

lemma sample_unnotified: "map bt_id (unnotified_terminal_tasks sample_finished) = [''b1'']"
  by (simp add: unnotified_terminal_tasks_def sample_finished_tasks is_terminal_def sample_task_def)


lemma sample_live: "live_tasks sample_finished = [(sample_task ''a2'' AgentTask)\<lparr>bt_status := TRunning, bt_started_at := 2\<rparr>]"
  by (simp add: live_tasks_def sample_finished_tasks)

theorem crash_recovery_witness:
  "fst (hydrate_and_mark_lost sample_task_io 7 \<lparr>ts_tasks = [], ts_snapshot = ts_snapshot sample_finished\<rparr>) = 1 \<and>
   map (bt_status \<circ> snd) (ts_tasks (snd (hydrate_and_mark_lost sample_task_io 7
     \<lparr>ts_tasks = [], ts_snapshot = ts_snapshot sample_finished\<rparr>))) = [TLost]"
  using crash_recovery [OF healthy_sample_task_io sample_task_run, of 7]
  by (simp add: sample_tr_def sample_task_def proper_path_def proper_component_def sample_live after_crash_def)

end
