(* ===== verification/DiskOutput.thy ===== *)
theory DiskOutput
  imports Patch Paths "HOL-Library.AList" "HOL-Library.List_Lexorder" "HOL-Library.Char_ord"
begin

text \<open>
  Output on disk (\<open>builtin/exec/disk_output.rs\<close>): the output files of background tasks with their size cap and the
  buffered writer, and the full results of tools whose output was truncated, which \<open>retrieve_tool_result\<close>
  (\<open>builtin/exec/retrieve_tool_result.rs\<close>) reads back page by page.

  Files are a list by path. Whether a directory can be made, a file opened or looked at, how many bytes of a
  write reach the disk and how many a read returns is the record \<open>out_io\<close>.
\<close>

section \<open>Lossy decoding\<close>

text \<open>\<open>String::from_utf8_lossy\<close>: a maximal part of a character that does not go on is one replacement character.\<close>

definition utf8_bad :: "string \<Rightarrow> nat" where
  "utf8_bad s =
     (case s of
        a # b # t \<Rightarrow>
          (if 0xE0 \<le> byte a \<and> byte a \<le> 0xEF \<and> second_ok a b then 2
           else if 0xF0 \<le> byte a \<and> byte a \<le> 0xF4 \<and> second_ok a b
             then (if t \<noteq> [] \<and> is_cont (hd t) then 3 else 2)
           else 1)
      | _ \<Rightarrow> 1)"

definition REPLACEMENT :: string where
  "REPLACEMENT = [CHR 0xEF, CHR 0xBF, CHR 0xBD]"

function utf8_lossy :: "string \<Rightarrow> string" where
  "utf8_lossy s =
     (if s = [] then []
      else case utf8_head s of
        Some n \<Rightarrow> take n s @ utf8_lossy (drop n s)
      | None \<Rightarrow> REPLACEMENT @ utf8_lossy (drop (utf8_bad s) s))"
  by pat_completeness auto
termination
proof (relation "measure length")
  fix s :: string assume "s \<noteq> []"
  then show "(drop (utf8_bad s) s, s) \<in> measure length"
    by (auto simp: utf8_bad_def split: list.split)
  fix n assume "utf8_head s = Some n"
  then show "(drop n s, s) \<in> measure length" using utf8_head_bounds(1,2) [of s n] by simp
qed simp

declare utf8_lossy.simps [simp del]

lemma utf8_lossy_Nil [simp]: "utf8_lossy [] = []"
  by (simp add: utf8_lossy.simps)

lemma utf8_lossy_valid: "utf8_valid s \<Longrightarrow> utf8_lossy s = s"
proof (induction s rule: utf8_valid.induct)
  case (1 s)
  show ?case
  proof (cases "s = []")
    case False
    then obtain n where "utf8_head s = Some n" "utf8_valid (drop n s)" using 1(2) utf8_valid_step by blast
    then show ?thesis using 1(1) False by (subst utf8_lossy.simps) simp
  qed simp
qed

definition is_ascii :: "string \<Rightarrow> bool" where
  "is_ascii s = list_all (\<lambda>c. byte c < 0x80) s"

lemma ascii_utf8_valid: "is_ascii s \<Longrightarrow> utf8_valid s"
proof (induction s)
  case (Cons c s)
  then have "utf8_head (c # s) = Some 1" by (simp add: utf8_head_def is_ascii_def)
  then show ?case using Cons by (subst utf8_valid_step) (auto simp: is_ascii_def)
qed simp

section \<open>Files\<close>

type_synonym out_files = "(path \<times> string) list"

record out_io =
  oo_data_dir :: path
  oo_mkdir_ok :: "path \<Rightarrow> bool"
  oo_open_ok :: "path \<Rightarrow> bool"
  oo_stat_ok :: "path \<Rightarrow> bool"
  oo_written :: "path \<Rightarrow> string \<Rightarrow> nat"
  oo_read :: "path \<Rightarrow> nat \<Rightarrow> nat option"

datatype out_error = OeMkdir path | OeOpen path | OeStat path | OeRead path | OeWrite path

definition MAX_TASK_OUTPUT_BYTES :: nat where "MAX_TASK_OUTPUT_BYTES = 5 * 1024 * 1024 * 1024"
definition DEFAULT_MAX_READ_BYTES :: nat where "DEFAULT_MAX_READ_BYTES = 8 * 1024 * 1024"

text \<open>\<open>metadata(path).len()\<close>: \<open>None\<close> where there is no file or it cannot be looked at.\<close>

definition file_len :: "out_io \<Rightarrow> out_files \<Rightarrow> path \<Rightarrow> nat option" where
  "file_len io fs p = (if oo_stat_ok io p then map_option length (map_of fs p) else None)"

text \<open>\<open>create_new\<close> fails on anything that is there; what is written of \<open>s\<close> follows what was there.\<close>

definition create_new_secure :: "out_io \<Rightarrow> path \<Rightarrow> out_files \<Rightarrow> out_files option" where
  "create_new_secure io p fs =
     (if map_of fs p \<noteq> None \<or> \<not> oo_open_ok io p then None else Some (AList.update p [] fs))"

definition write_all :: "out_io \<Rightarrow> path \<Rightarrow> string \<Rightarrow> out_files \<Rightarrow> (out_error, unit) result \<times> out_files" where
  "write_all io p s fs =
     (let n = min (length s) (oo_written io p s);
          old = (case map_of fs p of Some t \<Rightarrow> t | None \<Rightarrow> [])
      in ((if n < length s then Err (OeWrite p) else Ok ()), AList.update p (old @ take n s) fs))"

text \<open>Reading at most \<open>k\<close> bytes from \<open>off\<close> on.\<close>

definition read_at :: "out_io \<Rightarrow> out_files \<Rightarrow> path \<Rightarrow> nat \<Rightarrow> nat \<Rightarrow> (out_error, string) result" where
  "read_at io fs p off k =
     (case map_of fs p of
        None \<Rightarrow> Err (OeOpen p)
      | Some s \<Rightarrow>
          (if \<not> oo_open_ok io p then Err (OeOpen p)
           else case oo_read io p k of
             None \<Rightarrow> Err (OeRead p)
           | Some n \<Rightarrow> Ok (take (min n k) (drop off s))))"

section \<open>Task output\<close>

definition task_output_dir :: "out_io \<Rightarrow> path" where
  "task_output_dir io = path_join (oo_data_dir io) [Normal ''tasks'']"

definition task_output_path :: "out_io \<Rightarrow> string \<Rightarrow> path" where
  "task_output_path io task_id = path_join (task_output_dir io) (parse_path (task_id @ ''.output''))"

definition init_task_output :: "out_io \<Rightarrow> string \<Rightarrow> out_files \<Rightarrow> (out_error, path) result \<times> out_files" where
  "init_task_output io task_id fs =
     (if \<not> oo_mkdir_ok io (task_output_dir io) then (Err (OeMkdir (task_output_dir io)), fs)
      else let p = task_output_path io task_id in
        case create_new_secure io p fs of
          None \<Rightarrow> (Err (OeOpen p), fs)
        | Some fs1 \<Rightarrow> (Ok p, fs1))"

text \<open>The end of the last character that starts below \<open>available\<close>.\<close>

definition cut_len :: "string \<Rightarrow> nat \<Rightarrow> nat" where
  "cut_len s available =
     (let starts = takeWhile (\<lambda>i. i < available) (filter (\<lambda>i. \<not> is_cont (s ! i)) [0..<length s]) in
      if starts = [] then 0 else Suc (last starts) + length (takeWhile is_cont (drop (Suc (last starts)) s)))"

definition cap_notice :: string where
  "cap_notice = [CHR 0x0A] @ ''[output truncated: exceeded 5GB disk cap]'' @ [CHR 0x0A]"

definition append_task_output :: "out_io \<Rightarrow> string \<Rightarrow> string \<Rightarrow> out_files \<Rightarrow> (out_error, unit) result \<times> out_files" where
  "append_task_output io task_id content fs =
     (let p = task_output_path io task_id;
          current_size = (case file_len io fs p of Some n \<Rightarrow> n | None \<Rightarrow> 0)
      in if current_size \<ge> MAX_TASK_OUTPUT_BYTES then (Ok (), fs)
         else let to_write =
             (if current_size + length content > MAX_TASK_OUTPUT_BYTES
              then take (cut_len content (MAX_TASK_OUTPUT_BYTES - current_size)) content @ cap_notice
              else content)
         in if map_of fs p = None \<or> \<not> oo_open_ok io p then (Err (OeOpen p), fs)
            else write_all io p to_write fs)"

definition read_task_output :: "out_io \<Rightarrow> string \<Rightarrow> nat \<Rightarrow> out_files \<Rightarrow> (out_error, string) result" where
  "read_task_output io task_id max_bytes fs =
     (let p = task_output_path io task_id in
      case file_len io fs p of
        None \<Rightarrow> Err (OeStat p)
      | Some file_size \<Rightarrow>
          (if file_size = 0 then Ok []
           else let read_size = min max_bytes file_size; skip = file_size - read_size in
             case read_at io fs p skip read_size of
               Inl e \<Rightarrow> Err e
             | Inr buf \<Rightarrow>
                 Ok (if skip > 0
                     then ''['' @ nat_to_string (skip div 1024) @ ''KB of earlier output omitted]'' @ [CHR 0x0A] @ utf8_lossy buf
                     else utf8_lossy buf)))"

text \<open>A file that is not there has no output yet; one that cannot be looked at is an error.\<close>

definition read_task_output_delta ::
  "out_io \<Rightarrow> string \<Rightarrow> nat \<Rightarrow> nat \<Rightarrow> out_files \<Rightarrow> (out_error, string \<times> nat) result" where
  "read_task_output_delta io task_id from_offset max_bytes fs =
     (let p = task_output_path io task_id in
      if map_of fs p = None then Ok ([], from_offset)
      else case file_len io fs p of
        None \<Rightarrow> Err (OeStat p)
      | Some file_size \<Rightarrow>
          (if file_size \<le> from_offset then Ok ([], from_offset)
           else case read_at io fs p from_offset (min max_bytes (file_size - from_offset)) of
             Inl e \<Rightarrow> Err e
           | Inr buf \<Rightarrow> Ok (utf8_lossy buf, from_offset + length buf)))"

definition task_output_size :: "out_io \<Rightarrow> string \<Rightarrow> out_files \<Rightarrow> (out_error, nat) result" where
  "task_output_size io task_id fs =
     (let p = task_output_path io task_id in
      if map_of fs p = None then Ok 0
      else case file_len io fs p of None \<Rightarrow> Err (OeStat p) | Some n \<Rightarrow> Ok n)"

definition tail_task_output :: "out_io \<Rightarrow> string \<Rightarrow> nat \<Rightarrow> out_files \<Rightarrow> (out_error, string) result" where
  "tail_task_output io task_id tail_bytes fs =
     (let p = task_output_path io task_id in
      if map_of fs p = None then Ok []
      else case file_len io fs p of
        None \<Rightarrow> Err (OeStat p)
      | Some file_size \<Rightarrow>
          (if file_size = 0 then Ok []
           else let read_size = min tail_bytes file_size in
             case read_at io fs p (file_size - read_size) read_size of
               Inl e \<Rightarrow> Err e
             | Inr buf \<Rightarrow> Ok (utf8_lossy buf)))"

definition cleanup_task_output :: "out_io \<Rightarrow> string \<Rightarrow> out_files \<Rightarrow> out_files" where
  "cleanup_task_output io task_id fs = AList.delete (task_output_path io task_id) fs"

section \<open>The buffered writer\<close>

record output_writer =
  ow_task_id :: string
  ow_buffer :: string
  ow_bytes_written :: nat
  ow_capped :: bool

definition output_writer_new :: "string \<Rightarrow> output_writer" where
  "output_writer_new task_id = \<lparr>ow_task_id = task_id, ow_buffer = [], ow_bytes_written = 0, ow_capped = False\<rparr>"

definition writer_append ::
  "out_io \<Rightarrow> string \<Rightarrow> output_writer \<times> out_files \<Rightarrow> (out_error, unit) result \<times> output_writer \<times> out_files" where
  "writer_append io content st =
     (case st of (w, fs) \<Rightarrow>
        (if ow_capped w then (Ok (), w, fs)
         else let w = w\<lparr>ow_bytes_written := min (2 ^ 64 - 1) (ow_bytes_written w + length content)\<rparr> in
           if ow_bytes_written w \<ge> MAX_TASK_OUTPUT_BYTES then
             (case append_task_output io (ow_task_id w) (utf8_lossy (ow_buffer w @ cap_notice)) fs of
                (r, fs1) \<Rightarrow> (r, w\<lparr>ow_capped := True, ow_buffer := []\<rparr>, fs1))
           else let buf = ow_buffer w @ content in
             if length buf \<ge> 8192 then
               (case append_task_output io (ow_task_id w) (utf8_lossy buf) fs of
                  (r, fs1) \<Rightarrow> (r, w\<lparr>ow_buffer := []\<rparr>, fs1))
             else (Ok (), w\<lparr>ow_buffer := buf\<rparr>, fs)))"

definition writer_flush ::
  "out_io \<Rightarrow> output_writer \<times> out_files \<Rightarrow> (out_error, unit) result \<times> output_writer \<times> out_files" where
  "writer_flush io st =
     (case st of (w, fs) \<Rightarrow>
        (if ow_buffer w = [] then (Ok (), w, fs)
         else case append_task_output io (ow_task_id w) (utf8_lossy (ow_buffer w)) fs of
           (r, fs1) \<Rightarrow> (r, w\<lparr>ow_buffer := []\<rparr>, fs1)))"

section \<open>Tool results\<close>

definition tool_results_dir :: "path \<Rightarrow> string \<Rightarrow> path" where
  "tool_results_dir workspace_root session_id =
     path_join (path_join (path_join workspace_root [Normal ''.jia'']) [Normal ''tool-results'']) (parse_path session_id)"

definition is_ascii_alphanumeric :: "char \<Rightarrow> bool" where
  "is_ascii_alphanumeric c =
     (48 \<le> byte c \<and> byte c \<le> 57 \<or> 65 \<le> byte c \<and> byte c \<le> 90 \<or> 97 \<le> byte c \<and> byte c \<le> 122)"

text \<open>One character for each character: a multi-byte one is a single underscore.\<close>

definition sanitize_tool_call_id :: "string \<Rightarrow> string" where
  "sanitize_tool_call_id i =
     map (\<lambda>c. if is_ascii_alphanumeric c \<or> c \<in> {CHR ''.'', CHR ''_'', CHR ''-''} then c else CHR ''_'')
       (filter (\<lambda>c. \<not> is_cont c) i)"

definition tool_result_path :: "path \<Rightarrow> string \<Rightarrow> string \<Rightarrow> path" where
  "tool_result_path workspace_root session_id tool_call_id =
     path_join (tool_results_dir workspace_root session_id)
       (parse_path (sanitize_tool_call_id tool_call_id @ ''.txt''))"

definition persist_tool_result ::
  "out_io \<Rightarrow> path \<Rightarrow> string \<Rightarrow> string \<Rightarrow> string \<Rightarrow> out_files \<Rightarrow> (out_error, path \<times> nat) result \<times> out_files" where
  "persist_tool_result io workspace_root session_id tool_call_id content fs =
     (let dir = tool_results_dir workspace_root session_id;
          p = tool_result_path workspace_root session_id tool_call_id
      in if \<not> oo_mkdir_ok io dir then (Err (OeMkdir dir), fs)
         else case create_new_secure io p fs of
           Some fs1 \<Rightarrow>
             (case write_all io p content fs1 of
                (Inl e, fs2) \<Rightarrow> (Err e, fs2)
              | (Inr _, fs2) \<Rightarrow> (Ok (p, length content), fs2))
         | None \<Rightarrow>
             (if map_of fs p \<noteq> None then (Ok (p, case file_len io fs p of Some n \<Rightarrow> n | None \<Rightarrow> 0), fs)
              else (Err (OeOpen p), fs)))"

definition read_tool_result_window ::
  "out_io \<Rightarrow> out_files \<Rightarrow> path \<Rightarrow> nat \<Rightarrow> nat \<Rightarrow> (out_error, string \<times> nat \<times> nat) result" where
  "read_tool_result_window io fs p from_offset max_bytes =
     (case file_len io fs p of
        None \<Rightarrow> Err (OeStat p)
      | Some file_size \<Rightarrow>
          (if file_size \<le> from_offset then Ok ([], from_offset, file_size)
           else case read_at io fs p from_offset (min max_bytes (file_size - from_offset)) of
             Inl e \<Rightarrow> Err e
           | Inr buf \<Rightarrow> Ok (utf8_lossy buf, from_offset + length buf, file_size)))"

definition strip_suffix_str :: "string \<Rightarrow> string \<Rightarrow> string option" where
  "strip_suffix_str s pat = (if suffix pat s then Some (take (length s - length pat) s) else None)"

text \<open>The entries of a directory are the files directly below it.\<close>

definition list_tool_result_ids :: "out_files \<Rightarrow> path \<Rightarrow> string \<Rightarrow> string list" where
  "list_tool_result_ids fs workspace_root session_id =
     (let dir = tool_results_dir workspace_root session_id in
      sort (List.map_filter (\<lambda>n. strip_suffix_str n ''.txt'')
        (List.map_filter (\<lambda>(p, _). if p \<noteq> [] \<and> butlast p = dir then file_name p else None) fs)))"

section \<open>Retrieving\<close>

definition DEFAULT_MAX_BYTES :: nat where "DEFAULT_MAX_BYTES = 64 * 1024"
definition MAX_RETRIEVE_BYTES :: nat where "MAX_RETRIEVE_BYTES = 1024 * 1024"

datatype retrieve_error =
  MissingToolCallId
| EmptyToolCallId
| NoPersistedResult string "string list"
| RetrieveFailed out_error

definition retrieve_text :: "string \<Rightarrow> nat \<Rightarrow> string \<times> nat \<times> nat \<Rightarrow> string" where
  "retrieve_text tool_call_id offset r =
     (case r of (content, new_offset, total_size) \<Rightarrow>
        ''[tool_call_id '' @ [CHR 0x27] @ tool_call_id @ [CHR 0x27, CHR 0x20] @ em_dash @ '' bytes '' @ nat_to_string offset @ ''..'' @
        nat_to_string new_offset @ '' of '' @ nat_to_string total_size @ '']'' @ [CHR 0x0A] @ content @
        (if new_offset < total_size
         then [CHR 0x0A] @ ''['' @ nat_to_string (total_size - new_offset) @ '' bytes remaining '' @ em_dash @
              '' call again with offset='' @ nat_to_string new_offset @ '']''
         else []))"

definition retrieve_tool_result ::
  "out_io \<Rightarrow> out_files \<Rightarrow> path \<Rightarrow> string \<Rightarrow> json \<Rightarrow> (retrieve_error, string) result" where
  "retrieve_tool_result io fs root session_id input =
     (case as_str (json_index input ''tool_call_id'') of
        None \<Rightarrow> Err MissingToolCallId
      | Some tool_call_id \<Rightarrow>
          (if tool_call_id = [] then Err EmptyToolCallId
           else
             let offset = (case as_u64 (json_index input ''offset'') of Some n \<Rightarrow> n | None \<Rightarrow> 0);
                 max_bytes = max 1 (min MAX_RETRIEVE_BYTES
                   (case as_u64 (json_index input ''max_bytes'') of Some n \<Rightarrow> n | None \<Rightarrow> DEFAULT_MAX_BYTES));
                 p = tool_result_path root session_id tool_call_id
             in if map_of fs p = None \<or> \<not> oo_stat_ok io p
                then Err (NoPersistedResult tool_call_id (list_tool_result_ids fs root session_id))
                else case read_tool_result_window io fs p offset max_bytes of
                  Inl e \<Rightarrow> Err (RetrieveFailed e)
                | Inr r \<Rightarrow> Ok (retrieve_text tool_call_id offset r)))"

section \<open>Results stay in their session's directory and are frozen\<close>

lemma sanitized_no_slash: "CHR ''/'' \<notin> set (sanitize_tool_call_id i)"
  by (auto simp: sanitize_tool_call_id_def is_ascii_alphanumeric_def split: if_splits)

lemma parse_path_name:
  assumes "CHR ''/'' \<notin> set s" "s \<noteq> []" "s \<noteq> ''.''" "s \<noteq> ''..''"
  shows "parse_path s = [Normal s]"
proof -
  have "\<not> prefix ''/'' s" using assms(1) by (cases s) auto
  then show ?thesis using assms by (simp add: parse_path_def split_char_none component_of_def)
qed

lemma txt_name: "s @ ''.txt'' \<noteq> []" "s @ ''.txt'' \<noteq> ''.''" "s @ ''.txt'' \<noteq> ''..''"
proof -
  have "length (s @ ''.txt'') \<noteq> length ''.''" "length (s @ ''.txt'') \<noteq> length ''..''" by simp_all
  then show "s @ ''.txt'' \<noteq> ''.''" "s @ ''.txt'' \<noteq> ''..''" by metis+
qed simp

lemma tool_results_dir_nonempty: "tool_results_dir root sid \<noteq> []"
  by (auto simp: tool_results_dir_def path_join_def is_absolute_iff split: list.split component.split)

lemma tool_result_path_eq:
  "tool_result_path root sid i = tool_results_dir root sid @ [Normal (sanitize_tool_call_id i @ ''.txt'')]"
proof -
  have "parse_path (sanitize_tool_call_id i @ ''.txt'') = [Normal (sanitize_tool_call_id i @ ''.txt'')]"
    using sanitized_no_slash txt_name by (intro parse_path_name) simp_all
  then show ?thesis using tool_results_dir_nonempty by (simp add: tool_result_path_def path_join_def)
qed

lemma persist_other:
  "p \<noteq> tool_result_path root sid i \<Longrightarrow> map_of (snd (persist_tool_result io root sid i content fs)) p = map_of fs p"
  by (auto simp: persist_tool_result_def create_new_secure_def write_all_def update_conv' Let_def
      split: option.splits sum.splits prod.splits if_splits)

lemma persist_existing:
  "map_of fs (tool_result_path root sid i) \<noteq> None \<Longrightarrow> snd (persist_tool_result io root sid i content fs) = fs"
  by (auto simp: persist_tool_result_def create_new_secure_def Let_def split: option.splits)

text \<open>Whatever the provider calls a tool call, its full result is kept in a file directly inside the result directory
  of its session, every other file stays as it is, and a result that is already there is never overwritten.\<close>

theorem tool_result_confined_and_frozen:
  assumes "map_of (snd (persist_tool_result io root sid i content fs)) p \<noteq> map_of fs p"
  shows "p = tool_results_dir root sid @ [Normal (sanitize_tool_call_id i @ ''.txt'')] \<and> map_of fs p = None"
proof -
  have p: "p = tool_result_path root sid i" using assms persist_other by metis
  moreover have "map_of fs p = None" using assms persist_existing p by metis
  ultimately show ?thesis by (simp add: tool_result_path_eq)
qed

section \<open>Paging\<close>

text \<open>A client that follows the offsets the tool reports.\<close>

function read_pages :: "out_io \<Rightarrow> out_files \<Rightarrow> path \<Rightarrow> nat \<Rightarrow> nat \<Rightarrow> string option" where
  "read_pages io fs p max_bytes off =
     (case read_tool_result_window io fs p off max_bytes of
        Inl _ \<Rightarrow> None
      | Inr (content, new_offset, size_now) \<Rightarrow>
          (if off < new_offset \<and> new_offset < size_now
           then map_option (append content) (read_pages io fs p max_bytes new_offset)
           else Some content))"
  by pat_completeness auto
termination
proof (relation "measure (\<lambda>(io, fs, p, _, off). (case file_len io fs p of Some n \<Rightarrow> n | None \<Rightarrow> 0) - off)")
  fix io fs p and max_bytes off :: nat and b content y new_offset size_now
  assume r: "read_tool_result_window io fs p off max_bytes = Inr b" "(content, y) = b" "(new_offset, size_now) = y"
    and o: "off < new_offset \<and> new_offset < size_now"
  then have "file_len io fs p = Some size_now"
    by (auto simp: read_tool_result_window_def split: option.splits sum.splits if_splits)
  then show "((io, fs, p, max_bytes, new_offset), (io, fs, p, max_bytes, off))
      \<in> measure (\<lambda>(io, fs, p, _, off). (case file_len io fs p of Some n \<Rightarrow> n | None \<Rightarrow> 0) - off)"
    using o by (simp add: diff_less_mono2)
qed simp

declare read_pages.simps [simp del]

text \<open>What is relied on of reading a file: it can be opened, and a read returns something.\<close>

definition reads_well :: "out_io \<Rightarrow> path \<Rightarrow> bool" where
  "reads_well io p \<longleftrightarrow> oo_stat_ok io p \<and> oo_open_ok io p \<and>
     (\<forall>k. 0 < k \<longrightarrow> (\<exists>n. oo_read io p k = Some n \<and> 0 < n))"

lemma read_window_ok:
  assumes "reads_well io p" "map_of fs p = Some s" "off < length s" "0 < max_bytes"
  shows "\<exists>n. 0 < n \<and> off + n \<le> length s \<and>
    read_tool_result_window io fs p off max_bytes = Ok (utf8_lossy (take n (drop off s)), off + n, length s)"
proof -
  define k where "k = min max_bytes (length s - off)"
  have k: "0 < k" "k \<le> length s - off" using assms(3,4) by (simp_all add: k_def)
  then obtain n where n: "oo_read io p k = Some n" "0 < n" using assms(1) unfolding reads_well_def by blast
  define m where "m = min n k"
  have m: "0 < m" "off + m \<le> length s" using n(2) k assms(3) by (auto simp: m_def)
  have "read_at io fs p off k = Ok (take m (drop off s))"
    using assms(1,2) n(1) by (simp add: read_at_def reads_well_def m_def)
  moreover have "length (take m (drop off s)) = m" using m by simp
  ultimately have "read_tool_result_window io fs p off max_bytes = Ok (utf8_lossy (take m (drop off s)), off + m, length s)"
    using assms(1-3) unfolding read_tool_result_window_def file_len_def reads_well_def k_def [symmetric]
    by (simp add: k_def [symmetric])
  then show ?thesis using m by blast
qed

lemma read_pages_ascii:
  assumes "reads_well io p" "map_of fs p = Some s" "is_ascii s" "0 < max_bytes" "off \<le> length s"
  shows "read_pages io fs p max_bytes off = Some (drop off s)"
  using assms(5)
proof (induction "length s - off" arbitrary: off rule: less_induct)
  case less
  show ?case
  proof (cases "off < length s")
    case False
    then show ?thesis using assms(1,2) less(2)
      by (subst read_pages.simps) (simp add: read_tool_result_window_def file_len_def reads_well_def)
  next
    case True
    obtain n where n: "0 < n" "off + n \<le> length s"
      "read_tool_result_window io fs p off max_bytes = Ok (utf8_lossy (take n (drop off s)), off + n, length s)"
      using read_window_ok [OF assms(1,2) True assms(4)] by blast
    have "is_ascii (take n (drop off s))"
      using assms(3) by (auto simp: is_ascii_def list_all_iff dest: in_set_takeD in_set_dropD)
    then have l: "utf8_lossy (take n (drop off s)) = take n (drop off s)"
      by (simp add: utf8_lossy_valid ascii_utf8_valid)
    have d: "take n (drop off s) @ drop (off + n) s = drop off s"
      by (metis append_take_drop_id drop_drop add.commute)
    show ?thesis
    proof (cases "off + n < length s")
      case True
      then have "read_pages io fs p max_bytes (off + n) = Some (drop (off + n) s)"
        using n(1) by (intro less(1)) simp_all
      then show ?thesis using n l d True by (subst read_pages.simps) simp
    next
      case False
      then show ?thesis using n l d by (subst read_pages.simps) simp
    qed
  qed
qed

lemma persist_fresh:
  assumes "persist_tool_result io root sid i content fs = (Ok (p, n), fs')"
    and "map_of fs (tool_result_path root sid i) = None"
  shows "p = tool_result_path root sid i" "n = length content" "map_of fs' p = Some content"
  using assms
  by (auto simp: persist_tool_result_def create_new_secure_def write_all_def update_conv' Let_def
      split: if_splits option.splits prod.splits sum.splits)

text \<open>C24: a persisted result can be read back whole. When the result of a call has been written for the first time, a
  client that follows the offsets \<open>retrieve_tool_result\<close> reports, with any page size and however short the reads
  are, ends and has exactly the text that was persisted, provided it is ASCII.\<close>

theorem tool_result_pages_round_trip:
  assumes "persist_tool_result io root sid i content fs = (Ok (p, n), fs')"
    and "map_of fs (tool_result_path root sid i) = None"
    and "reads_well io p" "is_ascii content" "0 < max_bytes"
  shows "n = length content \<and> p = tool_result_path root sid i \<and> read_pages io fs' p max_bytes 0 = Some content"
  using persist_fresh [OF assms(1,2)] read_pages_ascii [OF assms(3) _ assms(4,5)] by simp

definition sample_out_io :: out_io where
  "sample_out_io = \<lparr>oo_data_dir = [RootDir, Normal ''d''], oo_mkdir_ok = (\<lambda>_. True), oo_open_ok = (\<lambda>_. True),
     oo_stat_ok = (\<lambda>_. True), oo_written = (\<lambda>_ s. length s), oo_read = (\<lambda>_ k. Some k)\<rparr>"

lemma reads_well_sample: "reads_well sample_out_io p"
  by (simp add: reads_well_def sample_out_io_def)

definition sample_results :: "string \<Rightarrow> out_files" where
  "sample_results content = [(tool_result_path [RootDir] ''s'' ''call_1'', content)]"

lemma persist_sample:
  "persist_tool_result sample_out_io [RootDir] ''s'' ''call_1'' content [] =
     (Ok (tool_result_path [RootDir] ''s'' ''call_1'', length content), sample_results content)"
  by (simp add: persist_tool_result_def sample_out_io_def create_new_secure_def write_all_def sample_results_def Let_def)

theorem tool_result_pages_round_trip_witness:
  "read_pages sample_out_io (sample_results ''abcde'') (tool_result_path [RootDir] ''s'' ''call_1'') 2 0 = Some ''abcde''"
  using tool_result_pages_round_trip [OF persist_sample [of "''abcde''"], of 2]
  by (simp add: reads_well_sample is_ascii_def)

theorem tool_result_confined_and_frozen_witness:
  "tool_result_path [RootDir] ''s'' ''call_1'' = tool_results_dir [RootDir] ''s'' @ [Normal (sanitize_tool_call_id ''call_1'' @ ''.txt'')]"
  using tool_result_confined_and_frozen [of sample_out_io "[RootDir]" "''s''" "''call_1''" "''x''" "[]"
      "tool_result_path [RootDir] ''s'' ''call_1''"]
  by (simp add: persist_sample sample_results_def)

text \<open>Paging does not respect characters. A result of one two-byte character read in pages of one byte comes back as
  two replacement characters.\<close>

theorem paging_breaks_characters:
  "read_pages sample_out_io (sample_results [CHR 0xC3, CHR 0xA9]) (tool_result_path [RootDir] ''s'' ''call_1'') 1 0 =
     Some (REPLACEMENT @ REPLACEMENT)"
proof -
  let ?p = "tool_result_path [RootDir] ''s'' ''call_1''"
  let ?fs = "sample_results [CHR 0xC3, CHR 0xA9]"
  have "utf8_lossy [CHR 0xC3] = REPLACEMENT" "utf8_lossy [CHR 0xA9] = REPLACEMENT"
    by (subst utf8_lossy.simps, simp add: utf8_head_def utf8_bad_def)+
  then have "read_tool_result_window sample_out_io ?fs ?p 0 1 = Ok (REPLACEMENT, 1, 2)"
    "read_tool_result_window sample_out_io ?fs ?p 1 1 = Ok (REPLACEMENT, 2, 2)"
    by (simp_all add: read_tool_result_window_def file_len_def read_at_def sample_results_def sample_out_io_def)
  then show ?thesis
    by (subst read_pages.simps, simp, subst read_pages.simps, simp)
qed

text \<open>Two ids that differ in a character outside the file-name alphabet share a file.\<close>

lemma ids_collide: "tool_result_path root sid ''a/b'' = tool_result_path root sid ''a_b''"
  by (simp add: tool_result_path_eq sanitize_tool_call_id_def is_ascii_alphanumeric_def is_cont_def Let_def)

section \<open>The writer keeps everything\<close>

text \<open>The output file exists, and writes and looks at it succeed.\<close>

definition writes_well :: "out_io \<Rightarrow> string \<Rightarrow> bool" where
  "writes_well io task_id \<longleftrightarrow>
     (let p = task_output_path io task_id in
      oo_stat_ok io p \<and> oo_open_ok io p \<and> (\<forall>s. length s \<le> oo_written io p s))"

lemma append_below_cap:
  assumes "writes_well io i" "map_of fs (task_output_path io i) = Some s" "length s + length c \<le> MAX_TASK_OUTPUT_BYTES"
    "length s < MAX_TASK_OUTPUT_BYTES"
  shows "append_task_output io i c fs = (Ok (), AList.update (task_output_path io i) (s @ c) fs)"
  using assms by (simp add: append_task_output_def writes_well_def file_len_def write_all_def Let_def min_absorb1)

definition writer_ok :: "out_io \<Rightarrow> string \<Rightarrow> string \<Rightarrow> nat \<Rightarrow> output_writer \<times> out_files \<Rightarrow> bool" where
  "writer_ok io i s k st =
     (\<not> ow_capped (fst st) \<and> ow_task_id (fst st) = i \<and> ow_bytes_written (fst st) = k \<and> utf8_valid (ow_buffer (fst st)) \<and>
      (\<exists>f. map_of (snd st) (task_output_path io i) = Some f \<and> f @ ow_buffer (fst st) = s))"

lemma writer_append_ok:
  assumes "writes_well io i" "writer_ok io i s k st" "utf8_valid c"
    "k + length c < MAX_TASK_OUTPUT_BYTES" "length s + length c < MAX_TASK_OUTPUT_BYTES"
  shows "fst (writer_append io c st) = Ok () \<and> writer_ok io i (s @ c) (k + length c) (snd (writer_append io c st))"
proof -
  obtain w fs where st: "st = (w, fs)" by fastforce
  obtain f where w: "\<not> ow_capped w" "ow_task_id w = i" "ow_bytes_written w = k" "utf8_valid (ow_buffer w)"
    "map_of fs (task_output_path io i) = Some f" "f @ ow_buffer w = s"
    using assms(2) by (auto simp: writer_ok_def st)
  have v: "utf8_valid (ow_buffer w @ c)" using w(4) assms(3) utf8_valid_append by blast
  have m: "min (2 ^ 64 - 1) (k + length c) = k + length c" "k + length c < MAX_TASK_OUTPUT_BYTES"
    using assms(4) by (simp_all add: MAX_TASK_OUTPUT_BYTES_def)
  have l: "length f + length (ow_buffer w @ c) \<le> MAX_TASK_OUTPUT_BYTES" "length f < MAX_TASK_OUTPUT_BYTES"
    using assms(5) w(6) by auto
  show ?thesis
  proof (cases "8192 \<le> length (ow_buffer w @ c)")
    case True
    then show ?thesis
      using append_below_cap [OF assms(1) w(5) l] w m v utf8_lossy_valid [OF v]
      by (simp add: writer_append_def st Let_def writer_ok_def update_conv')
  next
    case False
    then show ?thesis using w m v by (simp add: writer_append_def st Let_def writer_ok_def)
  qed
qed

lemma writer_appends_ok:
  assumes "writes_well io i" "writer_ok io i s k st" "list_all utf8_valid cs"
    "k + length (concat cs) < MAX_TASK_OUTPUT_BYTES" "length s + length (concat cs) < MAX_TASK_OUTPUT_BYTES"
  shows "writer_ok io i (s @ concat cs) (k + length (concat cs)) (fold (\<lambda>c. snd \<circ> writer_append io c) cs st)"
  using assms(2-)
proof (induction cs arbitrary: s k st)
  case (Cons c cs)
  then have "writer_ok io i (s @ c) (k + length c) (snd (writer_append io c st))"
    using writer_append_ok [OF assms(1), of s k st c] by simp
  from Cons.IH [OF this] show ?case using Cons.prems by (simp add: add.assoc)
qed simp

text \<open>The buffered writer loses and reorders nothing. Appending any sequence of texts to an output file that stays
  below the cap and flushing leaves the file with what it had followed by all the texts in their order.\<close>

theorem output_writer_keeps_all:
  assumes "writes_well io i" "map_of fs (task_output_path io i) = Some s" "list_all utf8_valid cs"
    and "length s + length (concat cs) < MAX_TASK_OUTPUT_BYTES"
  shows "\<exists>w' fs'. writer_flush io (fold (\<lambda>c. snd \<circ> writer_append io c) cs (output_writer_new i, fs)) = (Ok (), w', fs') \<and>
    map_of fs' (task_output_path io i) = Some (s @ concat cs)"
proof -
  have "writer_ok io i s 0 (output_writer_new i, fs)"
    using assms(2) by (simp add: writer_ok_def output_writer_new_def)
  then have "writer_ok io i (s @ concat cs) (0 + length (concat cs))
      (fold (\<lambda>c. snd \<circ> writer_append io c) cs (output_writer_new i, fs))"
    using assms(4) by (intro writer_appends_ok [OF assms(1) _ assms(3)]) simp_all
  then obtain w fs1 f where w: "fold (\<lambda>c. snd \<circ> writer_append io c) cs (output_writer_new i, fs) = (w, fs1)"
    "ow_task_id w = i" "utf8_valid (ow_buffer w)" "map_of fs1 (task_output_path io i) = Some f" "f @ ow_buffer w = s @ concat cs"
    by (cases "fold (\<lambda>c. snd \<circ> writer_append io c) cs (output_writer_new i, fs)") (auto simp: writer_ok_def)
  have "length f + length (ow_buffer w) < MAX_TASK_OUTPUT_BYTES" using assms(4) w(5) by (metis length_append)
  then show ?thesis
    using append_below_cap [OF assms(1) w(4), of "ow_buffer w"] w utf8_lossy_valid [OF w(3)]
    by (auto simp: writer_flush_def update_conv')
qed

theorem output_writer_keeps_all_witness:
  "\<exists>w' fs'. writer_flush sample_out_io (fold (\<lambda>c. snd \<circ> writer_append sample_out_io c) [''a'', ''b'']
       (output_writer_new ''b1'', [(task_output_path sample_out_io ''b1'', ''x'')])) = (Ok (), w', fs') \<and>
     map_of fs' (task_output_path sample_out_io ''b1'') = Some ''xab''"
  using output_writer_keeps_all [of sample_out_io "''b1''" "[(task_output_path sample_out_io ''b1'', ''x'')]" "''x''" "[''a'', ''b'']"]
    ascii_utf8_valid [of "''a''"] ascii_utf8_valid [of "''b''"]
  by (simp add: writes_well_def sample_out_io_def MAX_TASK_OUTPUT_BYTES_def is_ascii_def)

end
