(* ===== verification/Subagents.thy ===== *)
theory Subagents
  imports AgentLoop ToolDecls BackgroundTasks DiskOutput
begin

text \<open>
  Sub-agents: the \<open>delegate\<close> and \<open>send_message\<close> tools (\<open>builtin/delegate.rs\<close>), what a sub-agent is run with
  and what becomes of its run (\<open>run_subagent\<close> of \<open>plates/tian_heaven/spawn.rs\<close>), and
  the sessions that can be continued.

  The run of a sub-agent's own loop is the argument \<open>se_loop\<close>: the events it sends and the history it ends with.
  What its calls go through is the gate and the human plate of the other theories, with the plate and the registry
  built here. Left out are the prompt that tells a sub-agent its role, the count of its tool calls that is sent to the
  parent while it runs, and the controller of concurrency, which a run sees only as the slot that came free in time
  (\<open>se_slot\<close>) and which has its own theory.
\<close>

section \<open>Types of sub-agents\<close>

datatype subagent_type = Explore | PlanAgent | Coder | Verifier

datatype delegate_error =
  MissingParam string
| UnknownType string
| UnknownModel string
| EmptyTasks

definition subagent_type_from_str :: "string \<Rightarrow> (delegate_error, subagent_type) result" where
  "subagent_type_from_str s =
     (let l = to_lowercase s in
      if l = ''explore'' then Ok Explore else if l = ''plan'' then Ok PlanAgent
      else if l = ''coder'' then Ok Coder else if l = ''verifier'' then Ok Verifier
      else Err (UnknownType l))"

fun subagent_type_as_str :: "subagent_type \<Rightarrow> string" where
  "subagent_type_as_str Explore = ''Explore''"
| "subagent_type_as_str PlanAgent = ''Plan''"
| "subagent_type_as_str Coder = ''Coder''"
| "subagent_type_as_str Verifier = ''Verifier''"

datatype subagent_model = Primary | Secondary

definition subagent_model_from_str :: "string \<Rightarrow> (delegate_error, subagent_model) result" where
  "subagent_model_from_str s =
     (let l = to_lowercase s in
      if l = ''primary'' then Ok Primary else if l = ''secondary'' then Ok Secondary else Err (UnknownModel l))"

fun subagent_model_as_str :: "subagent_model \<Rightarrow> string" where
  "subagent_model_as_str Primary = ''primary''"
| "subagent_model_as_str Secondary = ''secondary''"

section \<open>Sessions\<close>

record subagent_session =
  ss_history :: "history_entry list"
  ss_type :: subagent_type
  ss_model :: subagent_model
  ss_allow_guarded :: bool
  ss_worktree :: "path option"
  ss_created_at :: int
  ss_last_used :: int

record session_envelope =
  env_v :: nat
  env_history :: "history_entry list"
  env_model :: string
  env_allow_guarded :: bool
  env_worktree_path :: "string option"

text \<open>The JSON forms of an envelope and of the older message lists.\<close>

record session_serde =
  sd_print :: "session_envelope \<Rightarrow> string option"
  sd_envelope :: "string \<Rightarrow> session_envelope option"
  sd_messages :: "string \<Rightarrow> message list option"

definition envelope_of :: "subagent_session \<Rightarrow> session_envelope" where
  "envelope_of ss =
     \<lparr>env_v = 2, env_history = ss_history ss, env_model = subagent_model_as_str (ss_model ss),
      env_allow_guarded = ss_allow_guarded ss, env_worktree_path = map_option path_to_string (ss_worktree ss)\<rparr>"

definition to_stored_json :: "session_serde \<Rightarrow> subagent_session \<Rightarrow> string option" where
  "to_stored_json sd ss = sd_print sd (envelope_of ss)"

definition legacy_entry :: "message \<Rightarrow> history_entry" where
  "legacy_entry m =
     (case role m of
        User \<Rightarrow> HUser (content m) (images m)
      | Assistant \<Rightarrow> HAssistant (content m)
      | System \<Rightarrow> HSystem (content m))"

definition from_stored :: "session_serde \<Rightarrow> string \<Rightarrow> string \<Rightarrow> int \<Rightarrow> int \<Rightarrow> subagent_session option" where
  "from_stored sd json ty created used =
     (let kind = (case subagent_type_from_str ty of Inr k \<Rightarrow> k | Inl _ \<Rightarrow> Explore) in
      case Option.bind (sd_envelope sd json) (\<lambda>env. if env_v env = 2 then Some env else None) of
        Some env \<Rightarrow>
          Some \<lparr>ss_history = env_history env, ss_type = kind,
                ss_model = (case subagent_model_from_str (env_model env) of Inr m \<Rightarrow> m | Inl _ \<Rightarrow> Secondary),
                ss_allow_guarded = env_allow_guarded env, ss_worktree = map_option parse_path (env_worktree_path env),
                ss_created_at = created, ss_last_used = used\<rparr>
      | None \<Rightarrow>
          (case sd_messages sd json of
             Some messages \<Rightarrow>
               Some \<lparr>ss_history = map legacy_entry messages, ss_type = kind, ss_model = Secondary,
                     ss_allow_guarded = False, ss_worktree = None, ss_created_at = created, ss_last_used = used\<rparr>
           | None \<Rightarrow> None))"

section \<open>Tasks\<close>

record task_input =
  ti_kind :: subagent_type
  ti_prompt :: string
  ti_max_turns :: nat
  ti_model :: subagent_model
  ti_allow_guarded :: bool

definition turns_param :: "json \<Rightarrow> nat" where
  "turns_param v = max 1 (min 50 (case as_u64 (json_index v ''max_turns'') of Some n \<Rightarrow> n | None \<Rightarrow> 25))"

definition parse_one_task :: "json \<Rightarrow> (delegate_error, task_input) result" where
  "parse_one_task v =
     (case as_str (json_index v ''subagent_type'') of
        None \<Rightarrow> Err (MissingParam ''subagent_type'')
      | Some ty \<Rightarrow>
          (case subagent_type_from_str ty of
             Inl e \<Rightarrow> Err e
           | Inr kind \<Rightarrow>
               (case as_str (json_index v ''prompt'') of
                  None \<Rightarrow> Err (MissingParam ''prompt'')
                | Some prompt \<Rightarrow>
                    (case (case as_str (json_index v ''model'') of
                             Some s \<Rightarrow> subagent_model_from_str s | None \<Rightarrow> Ok Secondary) of
                       Inl e \<Rightarrow> Err e
                     | Inr model \<Rightarrow>
                         Ok \<lparr>ti_kind = kind, ti_prompt = prompt, ti_max_turns = turns_param v, ti_model = model,
                             ti_allow_guarded = (case as_bool (json_index v ''allow_guarded'') of Some b \<Rightarrow> b | None \<Rightarrow> False)\<rparr>))))"

fun parse_each :: "json list \<Rightarrow> (delegate_error, task_input list) result" where
  "parse_each [] = Ok []"
| "parse_each (v # vs) =
     (case parse_one_task v of
        Inl e \<Rightarrow> Err e
      | Inr t \<Rightarrow> (case parse_each vs of Inl e \<Rightarrow> Err e | Inr ts \<Rightarrow> Ok (t # ts)))"

definition parse_tasks :: "json \<Rightarrow> (delegate_error, task_input list) result" where
  "parse_tasks input =
     (case as_array (json_index input ''tasks'') of
        Some arr \<Rightarrow> (if arr = [] then Err EmptyTasks else parse_each arr)
      | None \<Rightarrow> parse_each [input])"

section \<open>Verdicts\<close>

definition verdict_marker :: "verdict option \<Rightarrow> string" where
  "verdict_marker v =
     (case v of
        Some VPass \<Rightarrow> ''Verifier verdict: PASS''
      | Some VFail \<Rightarrow> ''Verifier verdict: FAIL''
      | None \<Rightarrow> ''Verifier verdict: UNPARSEABLE'')"

definition parse_verdict :: "string \<Rightarrow> verdict option" where
  "parse_verdict response =
     (case find (\<lambda>l. trim l \<noteq> []) (rev (str_lines response)) of
        None \<Rightarrow> None
      | Some l \<Rightarrow>
          (if trim l = ''Verdict: PASS'' then Some VPass
           else if trim l = ''Verdict: FAIL'' then Some VFail else None))"

section \<open>Worktrees\<close>

datatype worktree_error =
  MissingName
| BadName
| NoProjectRoot perm_error
| NestedWorktree
| GitFailed string

text \<open>\<open>git\<close> is \<open>git worktree add\<close>, given the root, the path and the branch.\<close>

definition enter_worktree ::
  "file_system \<Rightarrow> (path \<Rightarrow> path \<Rightarrow> string \<Rightarrow> (string, unit) result) \<Rightarrow> json \<Rightarrow> permission_matrix \<Rightarrow>
   (worktree_error, string \<times> path) result" where
  "enter_worktree fs git input perms =
     (case as_str (json_index input ''name'') of
        None \<Rightarrow> Err MissingName
      | Some name \<Rightarrow>
          (if name = [] \<or> CHR ''/'' \<in> set name then Err BadName
           else case verify_path fs perms ''.'' Read of
             Inl e \<Rightarrow> Err (NoProjectRoot e)
           | Inr base_root \<Rightarrow>
               (if Normal ''.jia'' \<in> set base_root then Err NestedWorktree
                else case git base_root (worktree_path base_root name) name of
                  Inl e \<Rightarrow> Err (GitFailed e)
                | Inr _ \<Rightarrow> Ok (name, worktree_path base_root name))))"

datatype worktree_binding = NoWorktree | Enter | Reattach path

section \<open>Running a sub-agent\<close>

record subagent_spec =
  sp_session_id :: string
  sp_kind :: subagent_type
  sp_model :: subagent_model
  sp_allow_guarded :: bool
  sp_max_turns :: nat
  sp_history :: "history_entry list"
  sp_message :: string
  sp_worktree :: worktree_binding
  sp_parent_perms :: permission_matrix

record subagent_report =
  rp_response :: string
  rp_history :: "history_entry list"
  rp_worktree_path :: "path option"
  rp_worktree_branch :: "string option"
  rp_verdict :: "verdict option"

text \<open>The parts of the earth plate a sub-agent is built from.\<close>

record earth =
  ea_readonly_tools :: tool_registry
  ea_coder_tools :: tool_registry
  ea_aux_core :: bool
  ea_loop :: loop_env

datatype core_choice = MainCore | AuxCore

record subagent_setup =
  su_session_id :: string
  su_history :: "history_entry list"
  su_registry :: tool_registry
  su_max_turns :: nat
  su_mode :: interaction_mode
  su_perms :: permission_matrix
  su_cwd :: path
  su_worktree :: "path option"
  su_plate :: human_plate
  su_core :: core_choice

definition setup_subagent :: "earth \<Rightarrow> subagent_spec \<Rightarrow> path option \<Rightarrow> subagent_setup" where
  "setup_subagent ea sp wt =
     (let perms = (case wt of
            Some p \<Rightarrow> build_worktree_perms (ea_loop ea) p
          | None \<Rightarrow> sp_parent_perms sp)
      in \<lparr>su_session_id = sp_session_id sp, su_history = sp_history sp,
          su_registry = (case sp_kind sp of
              Coder \<Rightarrow> ea_coder_tools ea
            | Verifier \<Rightarrow> verifier_registry (ea_readonly_tools ea)
            | _ \<Rightarrow> ea_readonly_tools ea),
          su_max_turns = sp_max_turns sp,
          su_mode = (case sp_kind sp of Coder \<Rightarrow> Auto | Verifier \<Rightarrow> Auto | _ \<Rightarrow> Plan),
          su_perms = perms, su_cwd = workspace_root (sandbox perms), su_worktree = wt,
          su_plate = (with_state perms)
            \<lparr>confirmation_override := Some (sp_allow_guarded sp), verifier_shell_only := (sp_kind sp = Verifier)\<rparr>,
          su_core = (case sp_model sp of
              Secondary \<Rightarrow> (if ea_aux_core ea then AuxCore else MainCore)
            | Primary \<Rightarrow> MainCore)\<rparr>)"

datatype agent_event =
  EvDelta string
| EvRetrying
| EvStreamEnd
| EvToolCall
| EvError string
| EvDone
| EvOther

record collector =
  cl_response :: string
  cl_attempt_start :: nat
  cl_error :: "string option"
  cl_tool_count :: nat

definition collector_new :: collector where
  "collector_new = \<lparr>cl_response = [], cl_attempt_start = 0, cl_error = None, cl_tool_count = 0\<rparr>"

fun collect_event :: "agent_event \<Rightarrow> collector \<Rightarrow> collector" where
  "collect_event (EvDelta c) cl = cl\<lparr>cl_response := cl_response cl @ c\<rparr>"
| "collect_event EvRetrying cl = cl\<lparr>cl_response := take (cl_attempt_start cl) (cl_response cl)\<rparr>"
| "collect_event EvStreamEnd cl = cl\<lparr>cl_attempt_start := length (cl_response cl)\<rparr>"
| "collect_event EvToolCall cl = cl\<lparr>cl_tool_count := Suc (cl_tool_count cl)\<rparr>"
| "collect_event (EvError msg) cl = cl\<lparr>cl_error := (case cl_error cl of None \<Rightarrow> Some msg | e \<Rightarrow> e)\<rparr>"
| "collect_event _ cl = cl"

definition collect_events :: "agent_event list \<Rightarrow> collector" where
  "collect_events evs = fold collect_event (takeWhile (\<lambda>e. e \<noteq> EvDone) evs) collector_new"

text \<open>What a run depends on: whether a slot came free in time, the id of a new branch, \<open>git\<close>, which directories
  there are, the loop itself, whether its collector ended in time, and whether the parent cancelled.\<close>

record sub_env =
  se_slot :: bool
  se_uuid :: string
  se_git :: "path \<Rightarrow> path \<Rightarrow> string \<Rightarrow> (string, unit) result"
  se_is_dir :: "path \<Rightarrow> bool"
  se_loop :: "subagent_setup \<Rightarrow> string \<Rightarrow> agent_event list \<times> history_entry list"
  se_collected :: bool
  se_cancelled :: bool
  se_now :: int

datatype run_error =
  SlotTimeout
| EnterFailed worktree_error
| WorktreeGone path
| RunCancelled
| RunFailed string
| EmptyResponse

definition branch_name :: "string \<Rightarrow> string" where
  "branch_name uuid = ''coder-'' @ hd (split_char CHR ''-'' uuid)"

definition bind_worktree ::
  "earth \<Rightarrow> sub_env \<Rightarrow> subagent_spec \<Rightarrow> (run_error, path option \<times> string option) result" where
  "bind_worktree ea se sp =
     (case sp_worktree sp of
        Enter \<Rightarrow>
          (let branch = branch_name (se_uuid se) in
           case enter_worktree (le_fs (ea_loop ea)) (se_git se) (JObject [(''name'', JString branch)]) (sp_parent_perms sp) of
             Inl e \<Rightarrow> Err (EnterFailed e)
           | Inr _ \<Rightarrow> Ok (Some (worktree_path (workspace_root (sandbox (sp_parent_perms sp))) branch), Some branch))
      | Reattach p \<Rightarrow> (if se_is_dir se p then Ok (Some p, None) else Err (WorktreeGone p))
      | NoWorktree \<Rightarrow> Ok (None, None))"

definition error_note :: "string \<Rightarrow> string" where
  "error_note e = [CHR 0x0A, CHR 0x0A] @ ''['' @ [CHR 0xE6, CHR 0xB3, CHR 0xA8, CHR 0xE6, CHR 0x84, CHR 0x8F] @ '': '' @ [CHR 0xE5, CHR 0xAD, CHR 0x90, CHR 0xE4, CHR 0xBB, CHR 0xA3, CHR 0xE7, CHR 0x90, CHR 0x86, CHR 0xE7, CHR 0xBB, CHR 0x88, CHR 0xE6, CHR 0xAD, CHR 0xA2, CHR 0xE4, CHR 0xBA, CHR 0x8E, CHR 0xE9, CHR 0x94, CHR 0x99, CHR 0xE8, CHR 0xAF, CHR 0xAF] @ '' '' @ [CHR 0xE2, CHR 0x80, CHR 0x94] @ '' '' @ e @ '']''"

definition run_subagent :: "earth \<Rightarrow> sub_env \<Rightarrow> subagent_spec \<Rightarrow> (run_error, subagent_report) result" where
  "run_subagent ea se sp =
     (if \<not> se_slot se then Err SlotTimeout
      else case bind_worktree ea se sp of
        Inl e \<Rightarrow> Err e
      | Inr (wt, branch) \<Rightarrow>
          (case se_loop se (setup_subagent ea sp wt) (sp_message sp) of
             (evs, history) \<Rightarrow>
               (let cl = collect_events evs;
                    response = (if se_collected se then cl_response cl else []);
                    err = (if se_collected se then cl_error cl else Some ''sub-agent event collector failed'')
                in if se_cancelled se then Err RunCancelled
                   else if trim response = [] then
                     (case err of Some e \<Rightarrow> Err (RunFailed e) | None \<Rightarrow> Err EmptyResponse)
                   else
                     (let response = (case err of None \<Rightarrow> response | Some e \<Rightarrow> response @ error_note e) in
                      Ok \<lparr>rp_response = response, rp_history = history, rp_worktree_path = wt,
                          rp_worktree_branch = branch,
                          rp_verdict = (if sp_kind sp = Verifier then parse_verdict response else None)\<rparr>))))"

section \<open>The session table\<close>

record session_row =
  row_json :: string
  row_type :: string
  row_created_at :: int
  row_last_used :: int

record lifecycle =
  lc_id :: string
  lc_kind :: string
  lc_status :: string
  lc_summary :: string

text \<open>What the tools change: the sessions in memory, their rows in the store, the background tasks with their output
  files, and the life-cycle events sent to the parent.\<close>

record sub_state =
  sub_sessions :: "(string \<times> subagent_session) list"
  sub_rows :: "(string \<times> session_row) list"
  sub_tasks :: task_store
  sub_files :: out_files
  sub_events :: "lifecycle list"

text \<open>\<open>min_by_key\<close>: the first of the least recently used.\<close>

fun oldest_session :: "(string \<times> subagent_session) list \<Rightarrow> (string \<times> subagent_session) option" where
  "oldest_session [] = None"
| "oldest_session (x # xs) =
     (case oldest_session xs of
        None \<Rightarrow> Some x
      | Some y \<Rightarrow> (if ss_last_used (snd x) \<le> ss_last_used (snd y) then Some x else Some y))"

definition insert_session ::
  "string \<Rightarrow> subagent_session \<Rightarrow> (string \<times> subagent_session) list \<Rightarrow> (string \<times> subagent_session) list" where
  "insert_session i ss table =
     AList.update i ss
       (if length table \<ge> 64 \<and> map_of table i = None
        then (case oldest_session table of Some (k, _) \<Rightarrow> AList.delete k table | None \<Rightarrow> table)
        else table)"

definition persist_session :: "session_serde \<Rightarrow> string \<Rightarrow> subagent_session \<Rightarrow> sub_state \<Rightarrow> sub_state" where
  "persist_session sd i ss st =
     st\<lparr>sub_sessions := insert_session i ss (sub_sessions st),
        sub_rows := (case to_stored_json sd ss of
            Some json \<Rightarrow>
              AList.update i \<lparr>row_json = json, row_type = subagent_type_as_str (ss_type ss),
                row_created_at = ss_created_at ss, row_last_used = ss_last_used ss\<rparr> (sub_rows st)
          | None \<Rightarrow> sub_rows st)\<rparr>"

text \<open>Start-up: every row that can be read, latest first, into the table.\<close>

definition load_all_subagent_sessions :: "(string \<times> session_row) list \<Rightarrow> (string \<times> session_row) list" where
  "load_all_subagent_sessions rows = sort_key (\<lambda>(_, r). - row_last_used r) rows"

definition hydrate_sessions ::
  "session_serde \<Rightarrow> (string \<times> session_row) list \<Rightarrow> (string \<times> subagent_session) list \<Rightarrow> (string \<times> subagent_session) list" where
  "hydrate_sessions sd rows table =
     fold (\<lambda>(i, r) table.
         case from_stored sd (row_json r) (row_type r) (row_created_at r) (row_last_used r) of
           Some ss \<Rightarrow> AList.update i ss table
         | None \<Rightarrow> table)
       (load_all_subagent_sessions rows) table"

section \<open>The delegate tool\<close>

text \<open>\<open>de_joined\<close> lists the tasks of a parallel dispatch in the order in which they finish; one that is missing was
  cancelled or panicked. \<open>de_show\<close> is the text of an error.\<close>

record delegate_env =
  de_bound :: bool
  de_serde :: session_serde
  de_uuid :: "nat \<Rightarrow> string"
  de_bytes :: "nat \<Rightarrow> nat \<Rightarrow> nat"
  de_sub :: "nat \<Rightarrow> sub_env"
  de_joined :: "nat list"
  de_events :: bool
  de_instant :: nat
  de_task_io :: task_io
  de_out :: out_io
  de_write_ok :: "path \<Rightarrow> bool"
  de_show :: "run_error \<Rightarrow> string"

datatype delegate_failure = NotBound | BadInput delegate_error | UnknownSubagent string | RunError run_error

definition emit_lifecycle ::
  "bool \<Rightarrow> string \<Rightarrow> subagent_type \<Rightarrow> string \<Rightarrow> string \<Rightarrow> sub_state \<Rightarrow> sub_state" where
  "emit_lifecycle listening i kind status summary st =
     (if listening
      then st\<lparr>sub_events := sub_events st @
        [\<lparr>lc_id = i, lc_kind = subagent_type_as_str kind, lc_status = status, lc_summary = summary\<rparr>]\<rparr>
      else st)"

definition fresh_spec :: "string \<Rightarrow> task_input \<Rightarrow> permission_matrix \<Rightarrow> subagent_spec" where
  "fresh_spec i task perms =
     \<lparr>sp_session_id = i, sp_kind = ti_kind task, sp_model = ti_model task, sp_allow_guarded = ti_allow_guarded task,
      sp_max_turns = ti_max_turns task, sp_history = [], sp_message = ti_prompt task,
      sp_worktree = (case ti_kind task of Coder \<Rightarrow> Enter | _ \<Rightarrow> NoWorktree), sp_parent_perms = perms\<rparr>"

definition run_one ::
  "earth \<Rightarrow> sub_env \<Rightarrow> string \<Rightarrow> task_input \<Rightarrow> permission_matrix \<Rightarrow>
   (run_error, subagent_report \<times> subagent_session) result" where
  "run_one ea se i task perms =
     (case run_subagent ea se (fresh_spec i task perms) of
        Inl e \<Rightarrow> Err e
      | Inr report \<Rightarrow>
          Ok (report,
              \<lparr>ss_history = rp_history report, ss_type = ti_kind task, ss_model = ti_model task,
               ss_allow_guarded = ti_allow_guarded task, ss_worktree = rp_worktree_path report,
               ss_created_at = se_now se, ss_last_used = se_now se\<rparr>))"

definition format_report :: "string \<Rightarrow> subagent_type \<Rightarrow> subagent_report \<Rightarrow> string" where
  "format_report i kind report =
     ''Sub-agent '' @ i @ '' ('' @ subagent_type_as_str kind @ '') completed.'' @
     (if kind = Verifier then [CHR 0x0A] @ verdict_marker (rp_verdict report) else []) @
     (case rp_worktree_path report of
        None \<Rightarrow> []
      | Some p \<Rightarrow>
          [CHR 0x0A] @ ''Worktree: '' @ path_to_string p @ '' (branch: '' @
          (case rp_worktree_branch report of Some b \<Rightarrow> b | None \<Rightarrow> ''(resumed)'') @ '') '' @ em_dash @
          '' left on disk for review; merge or '' @ [CHR 0x60] @ ''git worktree remove'' @ [CHR 0x60] @ '' when done.'') @
     [CHR 0x0A, CHR 0x0A] @ rp_response report @ [CHR 0x0A, CHR 0x0A] @
     ''To continue this sub-agent, call send_message with subagent_id='' @ [CHR 0x22] @ i @ [CHR 0x22] @ ''.''"

definition started :: "delegate_env \<Rightarrow> nat \<Rightarrow> task_input \<Rightarrow> sub_state \<Rightarrow> sub_state" where
  "started de n task st =
     emit_lifecycle (de_events de) (de_uuid de n) (ti_kind task) ''started'' (truncate_chars (ti_prompt task) 80) st"

definition finished ::
  "delegate_env \<Rightarrow> string \<Rightarrow> subagent_type \<Rightarrow> (run_error, subagent_report) result \<Rightarrow> sub_state \<Rightarrow> sub_state" where
  "finished de i kind r st =
     (case r of
        Inl e \<Rightarrow> emit_lifecycle (de_events de) i kind ''failed'' (de_show de e) st
      | Inr report \<Rightarrow>
          emit_lifecycle (de_events de) i kind ''completed'' (truncate_chars (trim (rp_response report)) 120) st)"

text \<open>In the background: a task is registered and announced; what happens when its run is over is \<open>background_done\<close>.\<close>

definition background_task_id :: "delegate_env \<Rightarrow> nat \<Rightarrow> string" where
  "background_task_id de n = generate_id (de_bytes de n) AgentTask"

definition start_background ::
  "delegate_env \<Rightarrow> bool \<Rightarrow> nat \<times> task_input \<Rightarrow> string list \<times> sub_state \<Rightarrow> string list \<times> sub_state" where
  "start_background de batch nt acc =
     (case nt of (n, task) \<Rightarrow>
        (let tid = background_task_id de n;
             out_path = task_output_path (de_out de) tid;
             bt = \<lparr>bt_id = tid, bt_type = AgentTask, bt_status = TPending,
                   bt_description = truncate_chars (ti_prompt task) 80, bt_output_file = out_path,
                   bt_output_offset = 0, bt_notified = False, bt_started_at = de_instant de, bt_ended_at = None,
                   bt_tool_use_id = None, bt_agent_id = Some (de_uuid de n), bt_exit_code = None\<rparr>;
             st1 = (snd acc)\<lparr>sub_tasks := register_task (de_task_io de) (de_instant de) bt (sub_tasks (snd acc))\<rparr>
         in (fst acc @
               [''Sub-agent ('' @ (if batch then ''batch'' else ''single'') @ '') started in background: task_id='' @ tid @
                '', subagent_id='' @ de_uuid de n @ ''.'' @ [CHR 0x0A] @
                ''Completion will arrive as a background task notification; output file: '' @ path_to_string out_path @ ''.''],
             started de n task st1)))"

definition background_done :: "earth \<Rightarrow> delegate_env \<Rightarrow> permission_matrix \<Rightarrow> nat \<times> task_input \<Rightarrow> sub_state \<Rightarrow> sub_state" where
  "background_done ea de perms nt st =
     (case nt of (n, task) \<Rightarrow>
        (let i = de_uuid de n; tid = background_task_id de n; p = task_output_path (de_out de) tid;
             (text, status, st1) =
               (case run_one ea (de_sub de n) i task perms of
                  Inr (report, ss) \<Rightarrow>
                    (format_report i (ss_type ss) report, TCompleted, persist_session (de_serde de) i ss st)
                | Inl e \<Rightarrow> (''Sub-agent '' @ i @ '' failed: '' @ de_show de e, TFailed, st));
             st2 = (if de_write_ok de p then st1\<lparr>sub_files := AList.update p text (sub_files st1)\<rparr> else st1)
         in st2\<lparr>sub_tasks := snd (update_status (de_task_io de) (de_instant de) tid status None (sub_tasks st2))\<rparr>))"

definition delegate_single ::
  "earth \<Rightarrow> delegate_env \<Rightarrow> permission_matrix \<Rightarrow> task_input \<Rightarrow> sub_state \<Rightarrow> (delegate_failure, string) result \<times> sub_state" where
  "delegate_single ea de perms task st =
     (let i = de_uuid de 0; st1 = started de 0 task st in
      case run_one ea (de_sub de 0) i task perms of
        Inl e \<Rightarrow> (Err (RunError e), finished de i (ti_kind task) (Err e) st1)
      | Inr (report, ss) \<Rightarrow>
          (Ok (format_report i (ss_type ss) report),
           persist_session (de_serde de) i ss (finished de i (ti_kind task) (Ok report) st1)))"

text \<open>In parallel: the tasks that finish fill their slot, and the sections are written in the order of the tasks.\<close>

definition join_result ::
  "earth \<Rightarrow> delegate_env \<Rightarrow> permission_matrix \<Rightarrow> task_input list \<Rightarrow> nat \<Rightarrow>
   (nat \<rightharpoonup> (run_error, subagent_report \<times> subagent_session) result) \<times> sub_state \<Rightarrow>
   (nat \<rightharpoonup> (run_error, subagent_report \<times> subagent_session) result) \<times> sub_state" where
  "join_result ea de perms tasks n acc =
     (let r = run_one ea (de_sub de n) (de_uuid de n) (tasks ! n) perms in
      ((fst acc)(n \<mapsto> r),
       finished de (de_uuid de n) (ti_kind (tasks ! n)) (map_sum id fst r) (snd acc)))"

definition section_text ::
  "delegate_env \<Rightarrow> task_input \<Rightarrow> nat \<Rightarrow> (run_error, subagent_report \<times> subagent_session) result option \<Rightarrow> string" where
  "section_text de task n slot =
     ''## ['' @ nat_to_string (n + 1) @ ''] '' @
     (case slot of
        Some (Inr (report, _)) \<Rightarrow> format_report (de_uuid de n) (ti_kind task) report
      | Some (Inl e) \<Rightarrow> ''Sub-agent '' @ de_uuid de n @ '' failed: '' @ de_show de e
      | None \<Rightarrow> ''Sub-agent cancelled before completion.'')"

definition persist_slot ::
  "delegate_env \<Rightarrow> nat \<Rightarrow> (run_error, subagent_report \<times> subagent_session) result option \<Rightarrow> sub_state \<Rightarrow> sub_state" where
  "persist_slot de n slot st =
     (case slot of Some (Inr (_, ss)) \<Rightarrow> persist_session (de_serde de) (de_uuid de n) ss st | _ \<Rightarrow> st)"

definition delegate_parallel ::
  "earth \<Rightarrow> delegate_env \<Rightarrow> permission_matrix \<Rightarrow> task_input list \<Rightarrow> sub_state \<Rightarrow> string \<times> sub_state" where
  "delegate_parallel ea de perms tasks st =
     (let ns = [0..<length tasks];
          st1 = fold (\<lambda>n. started de n (tasks ! n)) ns st;
          (results, st2) = fold (join_result ea de perms tasks) (de_joined de) (Map.empty, st1)
      in (join_with [CHR 0x0A, CHR 0x0A] (map (\<lambda>n. section_text de (tasks ! n) n (results n)) ns),
          fold (\<lambda>n. persist_slot de n (results n)) ns st2))"

definition delegate_execute ::
  "earth \<Rightarrow> delegate_env \<Rightarrow> permission_matrix \<Rightarrow> json \<Rightarrow> sub_state \<Rightarrow> (delegate_failure, string) result \<times> sub_state" where
  "delegate_execute ea de perms input st =
     (if \<not> de_bound de then (Err NotBound, st)
      else case parse_tasks input of
        Inl e \<Rightarrow> (Err (BadInput e), st)
      | Inr tasks \<Rightarrow>
          (if as_bool (json_index input ''run_in_background'') = Some True then
             (let acc = fold (start_background de (as_array (json_index input ''tasks'') \<noteq> None))
                          (enumerate 0 tasks) ([], st)
              in (Ok (join_with [CHR 0x0A] (fst acc)), snd acc))
           else
             (case tasks of
                [task] \<Rightarrow> delegate_single ea de perms task st
              | _ \<Rightarrow> (case delegate_parallel ea de perms tasks st of (out, st1) \<Rightarrow> (Ok out, st1)))))"

section \<open>Continuing a sub-agent\<close>

definition resume_binding :: "subagent_session \<Rightarrow> worktree_binding" where
  "resume_binding ss =
     (if ss_type ss = Coder then (case ss_worktree ss of Some p \<Rightarrow> Reattach p | None \<Rightarrow> Enter) else NoWorktree)"

definition send_message ::
  "earth \<Rightarrow> delegate_env \<Rightarrow> permission_matrix \<Rightarrow> json \<Rightarrow> sub_state \<Rightarrow> (delegate_failure, string) result \<times> sub_state" where
  "send_message ea de perms input st =
     (if \<not> de_bound de then (Err NotBound, st)
      else case as_str (json_index input ''subagent_id'') of
        None \<Rightarrow> (Err (BadInput (MissingParam ''subagent_id'')), st)
      | Some i \<Rightarrow>
          (case as_str (json_index input ''message'') of
             None \<Rightarrow> (Err (BadInput (MissingParam ''message'')), st)
           | Some msg \<Rightarrow>
               (case map_of (sub_sessions st) i of
                  None \<Rightarrow> (Err (UnknownSubagent i), st)
                | Some ss \<Rightarrow>
                    (let se = de_sub de 0;
                         st1 = st\<lparr>sub_sessions := AList.update i (ss\<lparr>ss_last_used := se_now se\<rparr>) (sub_sessions st)\<rparr>;
                         sp = \<lparr>sp_session_id = i, sp_kind = ss_type ss, sp_model = ss_model ss,
                               sp_allow_guarded = ss_allow_guarded ss, sp_max_turns = turns_param input,
                               sp_history = ss_history ss, sp_message = msg, sp_worktree = resume_binding ss,
                               sp_parent_perms = perms\<rparr>;
                         st2 = emit_lifecycle (de_events de) i (ss_type ss) ''started'' (truncate_chars msg 80) st1;
                         r = run_subagent ea se sp;
                         st3 = finished de i (ss_type ss) r st2
                     in case r of
                          Inl e \<Rightarrow> (Err (RunError e), st3)
                        | Inr report \<Rightarrow>
                            (Ok ((case rp_worktree_path report of
                                    Some p \<Rightarrow> ''Worktree: '' @ path_to_string p @ '' (resumed)'' @ [CHR 0x0A, CHR 0x0A]
                                  | None \<Rightarrow> []) @ rp_response report @
                                 (if ss_type ss = Verifier
                                  then [CHR 0x0A, CHR 0x0A] @ verdict_marker (rp_verdict report) else [])),
                             persist_session (de_serde de) i
                               \<lparr>ss_history = rp_history report, ss_type = ss_type ss, ss_model = ss_model ss,
                                ss_allow_guarded = ss_allow_guarded ss, ss_worktree = rp_worktree_path report,
                                ss_created_at = ss_created_at ss, ss_last_used = se_now se\<rparr> st3)))))"

end
