(* ===== verification/Delegation.thy ===== *)
theory Delegation
  imports Subagents
begin

text \<open>
  What delegation promises: sub-agents get no tool and no consent they were not given, a Coder works in its
  worktree, verdicts and sections come back as they were produced, and sessions survive a restart with their
  bindings; with the runs where it falls short.
\<close>

section \<open>What a sub-agent may call\<close>

lemma setup_fields [simp]:
  "su_registry (setup_subagent ea sp wt) = (case sp_kind sp of
       Coder \<Rightarrow> ea_coder_tools ea | Verifier \<Rightarrow> verifier_registry (ea_readonly_tools ea) | _ \<Rightarrow> ea_readonly_tools ea)"
  "su_mode (setup_subagent ea sp wt) = (case sp_kind sp of Coder \<Rightarrow> Auto | Verifier \<Rightarrow> Auto | _ \<Rightarrow> Plan)"
  "su_session_id (setup_subagent ea sp wt) = sp_session_id sp"
  "confirmation_override (su_plate (setup_subagent ea sp wt)) = Some (sp_allow_guarded sp)"
  "verifier_shell_only (su_plate (setup_subagent ea sp wt)) \<longleftrightarrow> sp_kind sp = Verifier"
  "permissions (su_plate (setup_subagent ea sp wt)) = su_perms (setup_subagent ea sp wt)"
  "gates (su_plate (setup_subagent ea sp wt)) = replicate 8 Open"
  "closed_by_principle (su_plate (setup_subagent ea sp wt)) = 0"
  by (simp_all add: setup_subagent_def with_state_def Let_def)

text \<open>The tools of each kind, as the earth plate of a build with the given features declares them.\<close>

definition standard_earth :: "bool \<Rightarrow> bool \<Rightarrow> earth \<Rightarrow> bool" where
  "standard_earth web git ea \<longleftrightarrow>
     ea_readonly_tools ea = subagent_readonly_tools web \<and> ea_coder_tools ea = subagent_coder_tools git"

fun allowed_tools :: "bool \<Rightarrow> bool \<Rightarrow> subagent_type \<Rightarrow> base_tool set" where
  "allowed_tools web git Coder = set (coder_tools git)"
| "allowed_tools web git Verifier = set (readonly_tools web) \<union> {ShellTool, RetrieveToolResultTool}"
| "allowed_tools web git _ = {ReadFileTool, GrepTool, GlobTool}"

lemma readonly_not_destructive:
  "t \<in> set (readonly_tools web) \<Longrightarrow> \<not> is_destructive t \<Longrightarrow> t \<in> {ReadFileTool, GrepTool, GlobTool}"
  by (auto simp: readonly_tools_def split: if_splits)

text \<open>The names of the tools that lead out of a sub-agent: delegating on, asking the user, leaving the worktree.\<close>

definition way_out :: "string set" where
  "way_out = {''delegate'', ''send_message'', ''ask_user'', ''enter_worktree'', ''exit_worktree''}"

lemma allowed_no_way_out: "t \<in> allowed_tools web git k \<Longrightarrow> tool_id t \<notin> way_out"
  by (cases k) (auto simp: way_out_def readonly_tools_def coder_tools_def split: if_splits)


section \<open>What a sub-agent's calls go through\<close>

lemma override_not_asked:
  assumes "confirmation_override pl \<noteq> None"
  shows "questions (snd (prepare_guarded env pl t input sid g st)) = questions st"
    and "questions (snd (guarded_loop env pl t input sid g gs st)) = questions st"
    and "questions (snd (prepare_sandbox env pl t input sid g st)) = questions st"
  using assms
proof (induction env pl t input sid g st and env pl t input sid g gs st and env pl t input sid g st
    rule: prepare_guarded_guarded_loop_prepare_sandbox.induct)
  case (4 env pl t input sid g why gs st)
  show ?case
  proof (cases "confirm_gate env pl t input sid why st")
    case (Pair d st1)
    have "questions st1 = questions st" using Pair 4(2)
      by (auto simp: confirm_gate_def request_confirmation_def Let_def split: if_splits option.splits)
    then show ?thesis using Pair 4 by (cases d) simp_all
  qed
qed (auto simp: prepare_guarded.simps prepare_sandbox.simps split: option.splits sum.splits)

lemma prepare_override_not_asked:
  assumes "confirmation_override pl \<noteq> None"
  shows "questions (snd (prepare env pl t input sid g st)) = questions st"
proof (cases rule: prepare_cases [of env pl t input sid g st])
  case (guarded g' st')
  then show ?thesis using override_not_asked(1) [OF assms] by simp
next
  case sandbox
  then show ?thesis using override_not_asked(3) [OF assms] by simp
qed (simp_all)

text \<open>The states the human plate of a sub-agent can be in: each call it prepares is one step.\<close>

inductive plate_reach :: "environment \<Rightarrow> human_plate \<Rightarrow> string \<Rightarrow> human_state \<Rightarrow> human_state \<Rightarrow> bool"
  for env pl sid st0 where
  reach_start: "plate_reach env pl sid st0 st0"
| reach_call: "plate_reach env pl sid st0 st \<Longrightarrow> plate_reach env pl sid st0 (snd (prepare env pl t input sid g st))"

lemma prepare_lawful_all:
  "lawful env pl sid (approval_key (env_ser env) (tool_id t) input) st (snd (prepare env pl t input sid g st))"
proof (cases rule: prepare_cases [of env pl t input sid g st])
  case (refused d)
  then show ?thesis by (simp add: lawful_def)
next
  case direct
  then show ?thesis by (simp add: lawful_refl)
next
  case (guarded g' st')
  then show ?thesis
    using prepare_lawful(1) [where env = env and t = t and input = input and pl = pl and sid = sid and st = st' and g = g', OF refl]
    by (simp add: lawful_def said_yes_def)
next
  case sandbox
  then show ?thesis
    using prepare_lawful(3) [where env = env and t = t and input = input and pl = pl and sid = sid and st = st and g = g, OF refl]
    by simp
qed

lemma override_denies_approval:
  assumes "plate_reach env pl sid st0 st" "confirmation_override pl = Some v"
  shows "questions st = questions st0" "\<not> v \<Longrightarrow> \<forall>k. approved (bus st) sid k \<longrightarrow> approved (bus st0) sid k"
  using assms
proof (induction rule: plate_reach.induct)
  case (reach_call st t input g)
  case 1
  then show ?case using reach_call prepare_override_not_asked [of pl env t input sid g st] by simp
next
  case (reach_call st t input g)
  case 2
  let ?st = "snd (prepare env pl t input sid g st)"
  have "\<not> said_yes env pl st ?st"
    using 2 prepare_override_not_asked [of pl env t input sid g st] by (simp add: said_yes_def)
  then have "approved (bus ?st) sid k \<Longrightarrow> approved (bus st) sid k" for k
    using prepare_lawful_all [of env pl sid t input st g] unfolding lawful_def by blast
  then show ?case using reach_call 2 by blast
qed simp_all

lemma prepare_ok_checks:
  assumes "is_ok (fst (prepare env pl t input sid g st))"
  shows "verifier_gate env pl t input = Ok ()" "\<nexists>pol why. policy_verdict env pl t input = Deny pol why"
  using assms by (auto simp: prepare_def is_ok_def split: sum.splits chain_verdict.splits)

text \<open>C8: a sub-agent never obtains consent. However many calls it makes in a session without earlier approvals, no
  question reaches the user; unless the delegation allowed guarded calls, a call that must ask is never cleared; no
  call passes against a deny rule; and a Verifier's shell command is cleared only if it is on the allowlist.\<close>

theorem subagent_calls_confined:
  assumes "su = setup_subagent ea sp wt"
    and "plate_reach env (su_plate su) (sp_session_id sp) st0 st"
    and "\<forall>k. \<not> approved (bus st0) (sp_session_id sp) k"
    and "is_ok (fst (prepare env (su_plate su) t input (sp_session_id sp) g st))"
  shows "questions (snd (prepare env (su_plate su) t input (sp_session_id sp) g st)) = questions st0 \<and>
    (\<not> sp_allow_guarded sp \<longrightarrow> \<not> call_must_ask env (su_plate su) t input g) \<and>
    (\<nexists>pol why. policy_verdict env (su_plate su) t input = Deny pol why) \<and>
    (sp_kind sp = Verifier \<and> tool_id t = ''shell'' \<longrightarrow>
       verify_verifier_command (env_split env) (str_param input ''command'') = Ok ())"
proof -
  have o: "confirmation_override (su_plate su) = Some (sp_allow_guarded sp)" by (simp add: assms(1))
  have q: "questions (snd (prepare env (su_plate su) t input (sp_session_id sp) g st)) = questions st"
    by (rule prepare_override_not_asked) (simp add: o)
  have "\<not> call_must_ask env (su_plate su) t input g" if "\<not> sp_allow_guarded sp"
  proof
    assume "call_must_ask env (su_plate su) t input g"
    then have "approved (bus st) (sp_session_id sp) (approval_key (env_ser env) (tool_id t) input) \<or>
        said_yes env (su_plate su) st (snd (prepare env (su_plate su) t input (sp_session_id sp) g st))"
      by (rule must_ask_consent [OF assms(4)])
    then show False
      using override_denies_approval(2) [OF assms(2) o] assms(3) that q by (auto simp: said_yes_def o)
  qed
  then show ?thesis
    using q override_denies_approval(1) [OF assms(2) o] prepare_ok_checks [OF assms(4)]
    by (auto simp: verifier_gate_def assms(1))
qed

section \<open>A Coder works in its worktree\<close>

lemma enter_worktree_Ok:
  assumes "enter_worktree fs git input perms = Ok (name, p)"
  obtains base where "as_str (json_index input ''name'') = Some name" "CHR ''/'' \<notin> set name" "name \<noteq> []"
    "verify_path fs perms ''.'' Read = Ok base" "Normal ''.jia'' \<notin> set base" "p = worktree_path base name"
    "git base p name = Ok ()"
  using assms
  by (auto simp: enter_worktree_def split: option.splits if_splits sum.splits)

lemma bind_worktree_Enter:
  assumes "bind_worktree ea se sp = Ok (wt, branch)" "sp_worktree sp = Enter"
  obtains base where "verify_path (le_fs (ea_loop ea)) (sp_parent_perms sp) ''.'' Read = Ok base"
    "Normal ''.jia'' \<notin> set base" "branch = Some (branch_name (se_uuid se))"
    "wt = Some (worktree_path (workspace_root (sandbox (sp_parent_perms sp))) (branch_name (se_uuid se)))"
    "se_git se base (worktree_path base (branch_name (se_uuid se))) (branch_name (se_uuid se)) = Ok ()"
proof -
  obtain r where r: "enter_worktree (le_fs (ea_loop ea)) (se_git se)
      (JObject [(''name'', JString (branch_name (se_uuid se)))]) (sp_parent_perms sp) = Ok r"
    and w: "branch = Some (branch_name (se_uuid se))"
      "wt = Some (worktree_path (workspace_root (sandbox (sp_parent_perms sp))) (branch_name (se_uuid se)))"
    using assms by (auto simp: bind_worktree_def Let_def split: sum.splits)
  obtain name p where rp: "r = (name, p)" by fastforce
  from enter_worktree_Ok [OF r [unfolded rp]] obtain base where
    "name = branch_name (se_uuid se)" "verify_path (le_fs (ea_loop ea)) (sp_parent_perms sp) ''.'' Read = Ok base"
    "Normal ''.jia'' \<notin> set base" "p = worktree_path base name" "se_git se base p name = Ok ()"
    by (metis as_str.simps(1) json_get.simps(1) json_index_def map_of_Cons_code(2) option.inject option.simps(5))
  then show ?thesis using w that by blast
qed


section \<open>A Verifier is not read-only\<close>

lemma readonly_lookup: "map_of (tools (subagent_readonly_tools web)) ''computer_use'' = Some ComputerUseTool"
  by (cases web)
     (simp_all add: subagent_readonly_tools_def readonly_tools_def register_all_def register_def insert_tool_lookup)

lemma register_all_external: "external (register_all ts r) = external r"
  by (induction ts arbitrary: r) (simp_all add: register_all_def register_def)

lemma register_all_lookup:
  "\<exists>t \<in> set ts. tool_id t = n \<Longrightarrow> \<exists>t \<in> set ts. map_of (tools (register_all ts r)) n = Some t \<and> tool_id t = n"
proof (induction ts arbitrary: r rule: rev_induct)
  case (snoc t ts)
  then show ?case by (auto simp: register_all_def register_def insert_tool_lookup)
qed simp

lemma verifier_lookup:
  "registry_get (verifier_registry (subagent_readonly_tools web)) ''computer_use'' = Some ComputerUseTool"
proof -
  let ?ro = "subagent_readonly_tools web"
  have e: "external ?ro = {}" by (simp add: subagent_readonly_tools_def register_all_external registry_new_def)
  have c: "list_core ?ro = map snd (tools ?ro)" by (auto simp: list_core_def e)
  have "ComputerUseTool \<in> set (list_core ?ro)"
    using map_of_SomeD [OF readonly_lookup] unfolding c by (force simp: image_iff)
  then obtain t where t: "t \<in> set (list_core ?ro)" "tool_id t = ''computer_use''"
    "map_of (tools (register_all (list_core ?ro) registry_new)) ''computer_use'' = Some t"
    using register_all_lookup [of "list_core ?ro" "''computer_use''" registry_new] tool_ids by fastforce
  have "t = ComputerUseTool"
  proof -
    obtain k where "(k, t) \<in> set (tools ?ro)" using t(1) unfolding c by auto
    moreover from this have "k = ''computer_use''" "distinct (map fst (tools ?ro))"
      using registry_ok_subagents(1) [of web] t(2) by (auto simp: registry_ok_def list_all_iff)
    ultimately show ?thesis using readonly_lookup [of web] by (metis map_of_is_SomeI option.inject)
  qed
  then show ?thesis
    using t(3) by (simp add: registry_get_def verifier_registry_def register_def insert_tool_lookup)
qed

lemma desktop_direct:
  "ge_principles ge = [] \<Longrightarrow> execution_mode (tool_geju ge ComputerUseTool input) = Direct"
proof -
  have "execution_mode (evaluate (geju_new (intent_stem_from_tool CRen) (palace_stem (default_target_palace CRen)))) = Direct"
    by code_simp
  then show "ge_principles ge = [] \<Longrightarrow> execution_mode (tool_geju ge ComputerUseTool input) = Direct"
    by (simp add: tool_geju_def tighten_matching_def ComputerUseTool_def default_tool_def)
qed

text \<open>C40: a Verifier is described as read-only, its writing tools being absent from its registry; yet the gate clears \<open>computer_use\<close>,
  which drives the desktop, and the human plate lets it run directly, with no question and whatever its input,
  even when guarded calls were not allowed.\<close>

theorem verifier_drives_desktop:
  assumes "standard_earth web git ea" "sp_kind sp = Verifier" "su = setup_subagent ea sp wt"
    and "ge_registry ge = su_registry su" "ge_mode ge = su_mode su"
    and "ge_principles ge = []" "ge_hooks ge = []" "ge_user_hooks ge = []"
    and "call_name tc = ''computer_use''" "failures ''computer_use'' = None"
    and "policy_verdict env (su_plate su) (tool.truncate ComputerUseTool) (parameters tc) = Pass"
  shows "\<exists>cl. fst (gate_one_tool ge failures tc) = Cleared cl \<and> is_destructive (cl_tool cl) \<and>
    prepare env (su_plate su) (tool.truncate (cl_tool cl)) (parameters tc) (sp_session_id sp) (cl_geju_result cl) st =
      (Ok (parameters tc), st)"
proof -
  have reg: "registry_get (ge_registry ge) (call_name tc) = Some ComputerUseTool"
    using assms(1,2,4,9) verifier_lookup by (simp add: standard_earth_def assms(3))
  have "\<exists>cl. fst (gate_one_tool ge failures tc) = Cleared cl \<and> cl_tool cl = ComputerUseTool"
    using assms(2,5,7,8,9,10) by (intro cleared_without_hooks [OF _ _ _ reg]) (simp_all add: assms(3))
  then obtain cl where cl: "fst (gate_one_tool ge failures tc) = Cleared cl" "cl_tool cl = ComputerUseTool" by blast
  obtain t where "registry_get (ge_registry ge) (call_name tc) = Some t" "cl_geju_result cl = tool_geju ge t (parameters tc)"
    using gate_known_Cleared [OF gate_one_tool_Cleared(1) [OF cl(1)]] by metis
  then have "execution_mode (cl_geju_result cl) = Direct" using reg desktop_direct [OF assms(6)] by simp
  moreover have "gate_is_open (su_plate su) JingXiangMen" by (simp add: gate_is_open_def assms(3))
  moreover have "tool_id (tool.truncate ComputerUseTool) = ''computer_use''" by (simp add: tool.truncate_def)
  ultimately show ?thesis
    using cl assms(11) by (simp add: prepare_def verifier_gate_def)
qed

section \<open>Verdicts\<close>

lemma split_char_cons_append: "split_char d (s @ d # t) = split_char d s @ split_char d t"
proof (induction s)
  case (Cons c s)
  then show ?case by (cases "split_char d s") auto
qed simp

lemma str_lines_first:
  assumes "CHR 0x0A \<notin> set l"
  shows "str_lines (l @ CHR 0x0A # rest) = strip_cr l # str_lines rest"
  using split_char_nonempty [of "CHR 0x0A" rest]
  by (auto simp: str_lines_def drop_final_empty_def split_char_append [OF assms])

lemma trim_starts:
  assumes "\<not> is_whitespace c" shows "\<exists>t. trim (c # s) = c # t"
proof -
  have "prefix (trim (c # s)) (c # s)" using assms by (intro trim_prefix) simp_all
  moreover have "trim (c # s) \<noteq> []"
    using assms by (auto simp: trim_def dropWhile_eq_Nil_conv)
  ultimately show ?thesis by (cases "trim (c # s)") auto
qed

lemma scan_verdict_other:
  assumes "\<not> is_whitespace c" "c \<noteq> CHR ''V''"
  shows "scan_verdict ((c # s) # ls) = scan_verdict ls"
proof -
  obtain t where "trim (c # s) = c # t" using trim_starts [OF assms(1)] by blast
  then show ?thesis using assms(2) by (simp add: Let_def)
qed

lemma strip_cr_starts: "strip_cr (a # b # s) = a # strip_cr (b # s)"
  by (simp add: strip_cr_def)

lemma marker_line:
  "CHR 0x0A \<notin> set (verdict_marker v)" "strip_cr (verdict_marker v) = verdict_marker v" "trim (verdict_marker v) = verdict_marker v"
  by (cases v; cases "the v"; simp add: verdict_marker_def; code_simp)+

lemma scan_marker: "scan_verdict (verdict_marker v # ls) = v"
proof -
  have "scan_verdict (verdict_marker v # ls) =
      (if verdict_marker v = ''Verifier verdict: PASS'' then Some VPass
       else if verdict_marker v = ''Verifier verdict: FAIL'' then Some VFail
       else if verdict_marker v = ''Verifier verdict: UNPARSEABLE'' then None else scan_verdict ls)"
    by (simp add: marker_line(3) Let_def)
  then show ?thesis by (cases v; cases "the v"; simp add: verdict_marker_def)
qed

text \<open>The verdict line is the second line of a Verifier's report, behind any prefix without a line break.\<close>

lemma verdict_of_report:
  assumes "CHR 0x0A \<notin> set i" "CHR 0x0A \<notin> set pre"
    and "pre @ ''S'' = c # t" "\<not> is_whitespace c" "c \<noteq> CHR ''V''"
  shows "delegate_output_verdict (pre @ format_report i Verifier r @ rest) = rp_verdict r"
proof -
  let ?l = "pre @ ''Sub-agent '' @ i @ '' (Verifier) completed.''"
  obtain tl where tl: "pre @ format_report i Verifier r @ rest = ?l @ CHR 0x0A # verdict_marker (rp_verdict r) @ CHR 0x0A # tl"
  proof (cases "rp_worktree_path r")
    case None
    then show ?thesis using that by (simp add: format_report_def)
  next
    case (Some p)
    then show ?thesis using that by (simp add: format_report_def)
  qed
  have n: "CHR 0x0A \<notin> set ?l" using assms by auto
  have "strip_cr ?l = ?l" by (simp add: strip_cr_def)
  then have "str_lines (pre @ format_report i Verifier r @ rest) = ?l # verdict_marker (rp_verdict r) # str_lines tl"
    unfolding tl by (simp only: str_lines_first [OF n] str_lines_first [OF marker_line(1)] marker_line(2))
  moreover obtain u where "?l = c # u" using assms(3) by (cases pre) auto
  ultimately show ?thesis
    using scan_verdict_other [OF assms(4,5)] by (simp add: delegate_output_verdict_def scan_marker del: scan_verdict.simps)
qed

text \<open>The verdict of a single Verifier comes back. Whatever the Verifier wrote, the verdict the loop reads off the
  delegate's output is the one parsed from the last line of its response; lines in the response that look like
  verdicts do not count.\<close>

theorem single_verdict_round_trip:
  assumes "CHR 0x0A \<notin> set i"
  shows "delegate_output_verdict (format_report i Verifier r) = rp_verdict r"
  using verdict_of_report [of i "[]" "CHR ''S''" "[]" r "[]"] assms by (simp add: is_whitespace_def)

section \<open>Parallel dispatch\<close>

lemma join_slots:
  "fst (fold (join_result ea de perms tasks) js acc) n =
     (if n \<in> set js then Some (run_one ea (de_sub de n) (de_uuid de n) (tasks ! n) perms) else fst acc n)"
  by (induction js arbitrary: acc) (auto simp: join_result_def Let_def)

definition slot_of :: "earth \<Rightarrow> delegate_env \<Rightarrow> permission_matrix \<Rightarrow> task_input list \<Rightarrow> nat \<Rightarrow>
    (run_error, subagent_report \<times> subagent_session) result option" where
  "slot_of ea de perms tasks n =
     (if n \<in> set (de_joined de) then Some (run_one ea (de_sub de n) (de_uuid de n) (tasks ! n) perms) else None)"

lemma emit_lifecycle_fields [simp]:
  "sub_sessions (emit_lifecycle b i k s m st) = sub_sessions st" "sub_rows (emit_lifecycle b i k s m st) = sub_rows st"
  by (simp_all add: emit_lifecycle_def)

lemma finished_fields [simp]:
  "sub_sessions (finished de i k r st) = sub_sessions st" "sub_rows (finished de i k r st) = sub_rows st"
  by (simp_all add: finished_def split: sum.split)

lemma started_fields [simp]:
  "sub_sessions (fold (\<lambda>n. started de n (tasks ! n)) ns st) = sub_sessions st"
  "sub_rows (fold (\<lambda>n. started de n (tasks ! n)) ns st) = sub_rows st"
  by (induction ns arbitrary: st) (simp_all add: started_def)

lemma join_fields [simp]:
  "sub_sessions (snd (fold (join_result ea de perms tasks) js acc)) = sub_sessions (snd acc)"
  "sub_rows (snd (fold (join_result ea de perms tasks) js acc)) = sub_rows (snd acc)"
  by (induction js arbitrary: acc) (simp_all add: join_result_def Let_def)

lemma delegate_parallel_text:
  "fst (delegate_parallel ea de perms tasks st) =
     join_with [CHR 0x0A, CHR 0x0A] (map (\<lambda>n. section_text de (tasks ! n) n (slot_of ea de perms tasks n)) [0..<length tasks])"
proof -
  have "(\<lambda>n. section_text de (tasks ! n) n (fst (fold (join_result ea de perms tasks) (de_joined de) (Map.empty, st1)) n)) =
      (\<lambda>n. section_text de (tasks ! n) n (slot_of ea de perms tasks n))" for st1
    by (simp add: fun_eq_iff join_slots slot_of_def)
  then show ?thesis by (simp add: delegate_parallel_def Let_def case_prod_unfold)
qed

lemma rows_persist:
  "to_stored_json sd ss = Some j \<Longrightarrow> map_of (sub_rows (persist_session sd i ss st)) =
     (map_of (sub_rows st))(i \<mapsto> \<lparr>row_json = j, row_type = subagent_type_as_str (ss_type ss),
        row_created_at = ss_created_at ss, row_last_used = ss_last_used ss\<rparr>)"
  by (simp add: persist_session_def update_conv')

lemma persist_slots_rows:
  assumes "distinct (map f ns)" "n \<in> set ns" "results n = Some (Inr (report, ss))" "to_stored_json (de_serde de) ss = Some j"
    and f: "f = de_uuid de"
  shows "map_of (sub_rows (fold (\<lambda>n. persist_slot de n (results n)) ns st)) (de_uuid de n) =
    Some \<lparr>row_json = j, row_type = subagent_type_as_str (ss_type ss), row_created_at = ss_created_at ss, row_last_used = ss_last_used ss\<rparr>"
  using assms(1,2)
proof (induction ns arbitrary: st)
  case (Cons m ns)
  have other: "map_of (sub_rows (fold (\<lambda>n. persist_slot de n (results n)) ms st)) (de_uuid de n) = map_of (sub_rows st) (de_uuid de n)"
    if "de_uuid de n \<notin> de_uuid de ` set ms" for ms st
    using that by (induction ms arbitrary: st)
      (auto simp: persist_slot_def persist_session_def update_conv' split: option.splits sum.splits)
  show ?case
  proof (cases "m = n")
    case True
    have "map_of (sub_rows (persist_slot de n (results n) st)) (de_uuid de n) =
        Some \<lparr>row_json = j, row_type = subagent_type_as_str (ss_type ss), row_created_at = ss_created_at ss,
              row_last_used = ss_last_used ss\<rparr>"
      by (simp add: persist_slot_def assms(3) rows_persist [OF assms(4)])
    then show ?thesis using other [of ns "persist_slot de n (results n) st"] Cons.prems(1) True by (simp add: f)
  next
    case False
    then show ?thesis using Cons by simp
  qed
qed simp

text \<open>C17: a parallel dispatch answers for every task. Whatever the order in which the sub-agents finish and whichever
  fail or are cancelled, the output has one section per task, in the order of the tasks, with that task's own
  report, error or cancellation; and the session of every task that succeeded is in the store under its id.\<close>

theorem parallel_sections_complete:
  assumes "delegate_parallel ea de perms tasks st = (out, st')" "inj (de_uuid de)"
  shows "out = join_with [CHR 0x0A, CHR 0x0A]
      (map (\<lambda>n. section_text de (tasks ! n) n (slot_of ea de perms tasks n)) [0..<length tasks]) \<and>
    (\<forall>n report ss j. n < length tasks \<and> slot_of ea de perms tasks n = Some (Ok (report, ss)) \<and>
       to_stored_json (de_serde de) ss = Some j \<longrightarrow>
       map_of (sub_rows st') (de_uuid de n) =
         Some \<lparr>row_json = j, row_type = subagent_type_as_str (ss_type ss), row_created_at = ss_created_at ss,
               row_last_used = ss_last_used ss\<rparr>)"
proof (intro conjI allI impI)
  show "out = join_with [CHR 0x0A, CHR 0x0A]
      (map (\<lambda>n. section_text de (tasks ! n) n (slot_of ea de perms tasks n)) [0..<length tasks])"
    using delegate_parallel_text [of ea de perms tasks st] assms(1) by simp
next
  fix n report ss j
  assume n: "n < length tasks \<and> slot_of ea de perms tasks n = Some (Ok (report, ss)) \<and> to_stored_json (de_serde de) ss = Some j"
  let ?acc = "fold (join_result ea de perms tasks) (de_joined de)
    (Map.empty, fold (\<lambda>n. started de n (tasks ! n)) [0..<length tasks] st)"
  have st': "st' = fold (\<lambda>n. persist_slot de n (fst ?acc n)) [0..<length tasks] (snd ?acc)"
    using assms(1) by (simp add: delegate_parallel_def Let_def case_prod_unfold)
  have "fst ?acc n = Some (Ok (report, ss))" using n by (simp add: join_slots slot_of_def split: if_splits)
  then show "map_of (sub_rows st') (de_uuid de n) = Some \<lparr>row_json = j, row_type = subagent_type_as_str (ss_type ss),
      row_created_at = ss_created_at ss, row_last_used = ss_last_used ss\<rparr>"
    unfolding st' using n assms(2)
    by (intro persist_slots_rows [where f = "de_uuid de"]) (auto simp: distinct_map intro: inj_on_subset)
qed

text \<open>The verdict line of the first section decides for the whole batch.\<close>

lemma join_with_first: "ss \<noteq> [] \<Longrightarrow> \<exists>rest. join_with sep ss = hd ss @ rest"
  by (cases "(sep, ss)" rule: join_with.cases) auto

lemma batch_first_verdict:
  assumes "tasks \<noteq> []" "ti_kind (tasks ! 0) = Verifier" "slot_of ea de perms tasks 0 = Some (Ok (report, ss))"
    and "CHR 0x0A \<notin> set (de_uuid de 0)"
  shows "delegate_output_verdict (fst (delegate_parallel ea de perms tasks st)) = rp_verdict report"
proof -
  let ?secs = "map (\<lambda>n. section_text de (tasks ! n) n (slot_of ea de perms tasks n)) [0..<length tasks]"
  have "hd ?secs = section_text de (tasks ! 0) 0 (slot_of ea de perms tasks 0)" "?secs \<noteq> []"
    using assms(1) by (simp_all add: hd_map)
  then obtain rest where "fst (delegate_parallel ea de perms tasks st) =
      section_text de (tasks ! 0) 0 (slot_of ea de perms tasks 0) @ rest"
    using join_with_first [of ?secs "[CHR 0x0A, CHR 0x0A]"] by (auto simp: delegate_parallel_text)
  moreover have "nat_to_string (0 + 1) = ''1''" by code_simp
  ultimately have "fst (delegate_parallel ea de perms tasks st) =
      ''## [1] '' @ format_report (de_uuid de 0) Verifier report @ rest"
    by (simp add: section_text_def assms(2,3) del: nat_to_string.simps)
  then show ?thesis
    using verdict_of_report [of "de_uuid de 0" "''## [1] ''" "CHR ''#''" "''# [1] S''" report rest] assms(4)
    by (simp add: is_whitespace_def)
qed

text \<open>In a batch only the first verdict counts. When the first of several Verifiers passes, the loop takes the whole
  delegation as verified, also when another Verifier of the batch answered FAIL.\<close>

theorem batch_hides_failed_verdict:
  assumes "1 < length tasks" "ti_kind (tasks ! 0) = Verifier" "ti_kind (tasks ! 1) = Verifier"
    and "slot_of ea de perms tasks 0 = Some (Ok (report, ss))" "rp_verdict report = Some VPass"
    and "slot_of ea de perms tasks 1 = Some (Ok (report', ss'))" "rp_verdict report' = Some VFail"
    and "CHR 0x0A \<notin> set (de_uuid de 0)"
  shows "\<not> verifier_failed (fst (delegate_parallel ea de perms tasks st))"
proof -
  have "delegate_output_verdict (fst (delegate_parallel ea de perms tasks st)) = Some VPass"
    using batch_first_verdict [of tasks ea de perms report ss st] assms by fastforce
  then show ?thesis by (simp add: verifier_failed_def)
qed

section \<open>Collecting a response\<close>

text \<open>The response as the attempts that were not retried: what is committed by the end of a stream, and the attempt at hand.\<close>

fun kept_step :: "agent_event \<Rightarrow> string \<times> string \<Rightarrow> string \<times> string" where
  "kept_step (EvDelta c) (kept, cur) = (kept, cur @ c)"
| "kept_step EvRetrying (kept, cur) = (kept, [])"
| "kept_step EvStreamEnd (kept, cur) = (kept @ cur, [])"
| "kept_step _ acc = acc"

lemma kept_fold:
  assumes "cl_response cl = kept @ cur" "cl_attempt_start cl = length kept"
  shows "cl_response (fold collect_event evs cl) = (case fold kept_step evs (kept, cur) of (k, c) \<Rightarrow> k @ c)"
  using assms
proof (induction evs arbitrary: cl kept cur)
  case (Cons e evs)
  then show ?case by (cases e) simp_all
qed simp

text \<open>The collector keeps exactly the attempts that stand. The response it assembles by truncating to a remembered length
  is the text of the streams that ended and of the last attempt, without anything a retried attempt had
  written, up to the end of the run.\<close>

theorem collector_drops_retried_attempts:
  "cl_response (collect_events evs) =
     (case fold kept_step (takeWhile (\<lambda>e. e \<noteq> EvDone) evs) ([], []) of (kept, cur) \<Rightarrow> kept @ cur)"
  unfolding collect_events_def by (rule kept_fold) (simp_all add: collector_new_def)

section \<open>Sessions survive a restart\<close>

text \<open>The JSON of a session's envelope parses back, and its worktree is an absolute path.\<close>

definition storable :: "session_serde \<Rightarrow> subagent_session \<Rightarrow> bool" where
  "storable sd ss \<longleftrightarrow>
     (\<exists>j. sd_print sd (envelope_of ss) = Some j \<and> sd_envelope sd j = Some (envelope_of ss)) \<and>
     (\<forall>p. ss_worktree ss = Some p \<longrightarrow> proper_path p)"

lemma lower_types:
  "to_lowercase ''Explore'' = ''explore''" "to_lowercase ''Plan'' = ''plan''"
  "to_lowercase ''Coder'' = ''coder''" "to_lowercase ''Verifier'' = ''verifier''"
  by code_simp+

lemma type_round_trip: "subagent_type_from_str (subagent_type_as_str k) = Ok k"
  by (cases k) (simp_all add: subagent_type_from_str_def lower_types)

lemma model_round_trip: "subagent_model_from_str (subagent_model_as_str m) = Ok m"
  by (cases m) (simp_all add: subagent_model_from_str_def to_lowercase_def lower_char_def Let_def)

lemma session_round_trip:
  assumes "storable sd ss"
  shows "\<exists>j. to_stored_json sd ss = Some j \<and>
    from_stored sd j (subagent_type_as_str (ss_type ss)) (ss_created_at ss) (ss_last_used ss) = Some ss"
proof -
  obtain j where j: "sd_print sd (envelope_of ss) = Some j" "sd_envelope sd j = Some (envelope_of ss)"
    using assms by (auto simp: storable_def)
  have "map_option parse_path (map_option path_to_string (ss_worktree ss)) = ss_worktree ss"
    using assms by (cases "ss_worktree ss") (simp_all add: storable_def parse_path_to_string)
  then have "from_stored sd j (subagent_type_as_str (ss_type ss)) (ss_created_at ss) (ss_last_used ss) = Some ss"
    using j by (simp add: from_stored_def type_round_trip model_round_trip envelope_of_def Let_def)
  then show ?thesis using j(1) by (auto simp: to_stored_json_def)
qed

definition row_of :: "session_serde \<Rightarrow> subagent_session \<Rightarrow> session_row" where
  "row_of sd ss = \<lparr>row_json = the (to_stored_json sd ss), row_type = subagent_type_as_str (ss_type ss),
     row_created_at = ss_created_at ss, row_last_used = ss_last_used ss\<rparr>"

definition row_session :: "session_serde \<Rightarrow> session_row \<Rightarrow> subagent_session option" where
  "row_session sd r = from_stored sd (row_json r) (row_type r) (row_created_at r) (row_last_used r)"

lemma row_session_of: "storable sd ss \<Longrightarrow> row_session sd (row_of sd ss) = Some ss"
  using session_round_trip [of sd ss] by (auto simp: row_session_def row_of_def)

lemma persist_rows:
  "storable sd ss \<Longrightarrow> sub_rows (persist_session sd i ss st) = AList.update i (row_of sd ss) (sub_rows st)"
  using session_round_trip [of sd ss] by (auto simp: persist_session_def row_of_def)

lemma hydrate_fold:
  assumes "distinct (map fst rs)"
  shows "map_of (fold (\<lambda>(i, r) table. case row_session sd r of Some ss \<Rightarrow> AList.update i ss table | None \<Rightarrow> table) rs table) i =
    (case Option.bind (map_of rs i) (row_session sd) of Some ss \<Rightarrow> Some ss | None \<Rightarrow> map_of table i)"
  using assms
proof (induction rs arbitrary: table)
  case (Cons x rs)
  obtain k r where x: "x = (k, r)" by fastforce
  have k: "map_of rs k = None" using Cons.prems x by (simp add: map_of_eq_None_iff)
  show ?case
    using Cons.IH [of "case row_session sd r of Some ss \<Rightarrow> AList.update k ss table | None \<Rightarrow> table"] Cons.prems x k
    by (cases "i = k"; cases "row_session sd r") (auto simp: update_conv' split: option.split)
qed simp

lemma hydrate_lookup:
  assumes "distinct (map fst rows)"
  shows "map_of (hydrate_sessions sd rows []) i = Option.bind (map_of rows i) (row_session sd)"
proof -
  let ?rs = "load_all_subagent_sessions rows"
  have p: "mset ?rs = mset rows" by (simp add: load_all_subagent_sessions_def)
  then have d: "distinct (map fst ?rs)" using assms by (metis mset_map mset_eq_imp_distinct_iff)
  have "map_of ?rs i = map_of rows i"
  proof (cases "map_of rows i")
    case (Some r)
    then show ?thesis using d p assms by (metis map_of_SomeD map_of_is_SomeI mset_eq_setD)
  next
    case None
    then show ?thesis using p by (metis map_of_eq_None_iff mset_eq_setD)
  qed
  then show ?thesis
    using hydrate_fold [OF d, of sd "[]" i]
    by (simp add: hydrate_sessions_def row_session_def [symmetric] cong: option.case_cong) (simp split: option.split)
qed

lemma length_session_update: "length (AList.update i v xs) = (if map_of xs i = None then Suc (length xs) else length xs)"
  by (induction xs) auto

lemma oldest_session_in: "oldest_session table = Some x \<Longrightarrow> x \<in> set table"
  by (induction table arbitrary: x) (auto split: option.splits if_splits)

lemma oldest_session_None: "oldest_session table = None \<longleftrightarrow> table = []"
  by (cases table) (auto split: option.splits)

lemma length_delete_less: "(k, v) \<in> set xs \<Longrightarrow> length (AList.delete k xs) < length xs"
  by (induction xs) (auto simp: AList.delete_eq le_imp_less_Suc)

lemma insert_session_bound:
  assumes "length table \<le> 64" shows "length (insert_session i ss table) \<le> 64"
proof (cases "length table \<ge> 64 \<and> map_of table i = None")
  case True
  then obtain k v where "oldest_session table = Some (k, v)"
    by (cases "oldest_session table") (auto simp: oldest_session_None)
  moreover from this have "length (AList.delete k table) < length table" by (intro length_delete_less oldest_session_in)
  ultimately show ?thesis using True assms by (simp add: insert_session_def length_session_update)
next
  case False
  then show ?thesis using assms by (auto simp: insert_session_def length_session_update)
qed

lemma insert_session_lookup:
  assumes "map_of (insert_session i ss table) k = Some v"
  shows "if k = i then v = ss else map_of table k = Some v"
  using assms
  by (auto simp: insert_session_def update_conv' delete_conv' split: if_splits option.splits prod.splits)

lemma insert_session_self: "map_of (insert_session i ss table) i = Some ss"
  by (simp add: insert_session_def update_conv')

definition persist_all :: "session_serde \<Rightarrow> (string \<times> subagent_session) list \<Rightarrow> sub_state \<Rightarrow> sub_state" where
  "persist_all sd ops st = fold (\<lambda>(i, ss). persist_session sd i ss) ops st"

lemma persist_all_rows:
  assumes "distinct (map fst (sub_rows st))" "list_all (\<lambda>(_, ss). storable sd ss) ops"
  shows "distinct (map fst (sub_rows (persist_all sd ops st))) \<and>
    Option.bind (map_of (sub_rows (persist_all sd ops st)) i) (row_session sd) =
      (case map_of (rev ops) i of Some ss \<Rightarrow> Some ss | None \<Rightarrow> Option.bind (map_of (sub_rows st) i) (row_session sd))"
  using assms
proof (induction ops arbitrary: st)
  case (Cons x ops)
  obtain k ss where x: "x = (k, ss)" by fastforce
  let ?st = "persist_session sd k ss st"
  have s: "storable sd ss" using Cons.prems(2) x by simp
  have r: "sub_rows ?st = AList.update k (row_of sd ss) (sub_rows st)" by (rule persist_rows [OF s])
  have "distinct (map fst (sub_rows ?st))" using Cons.prems(1) by (simp add: r distinct_update)
  from Cons.IH [OF this] Cons.prems(2) x show ?case
    by (auto simp: persist_all_def r update_conv' row_session_of [OF s] map_add_def split: option.split)
qed (simp add: persist_all_def)

lemma persist_all_sessions:
  assumes "length (sub_sessions st) \<le> 64"
  shows "length (sub_sessions (persist_all sd ops st)) \<le> 64 \<and>
    (map_of (sub_sessions (persist_all sd ops st)) i = Some ss \<longrightarrow>
       (case map_of (rev ops) i of Some ss' \<Rightarrow> ss = ss' | None \<Rightarrow> map_of (sub_sessions st) i = Some ss))"
  using assms
proof (induction ops arbitrary: st)
  case (Cons x ops)
  obtain k s where x: "x = (k, s)" by fastforce
  let ?st = "persist_session sd k s st"
  have t: "sub_sessions ?st = insert_session k s (sub_sessions st)" by (simp add: persist_session_def)
  have "length (sub_sessions ?st) \<le> 64" using insert_session_bound [OF Cons.prems] by (simp add: t)
  from Cons.IH [OF this] show ?case
    using insert_session_lookup [of k s "sub_sessions st" i ss] x
    by (auto simp: persist_all_def t map_add_def split: option.splits if_splits)
qed (simp add: persist_all_def)


text \<open>Continuing a session never changes what it is bound to. Whatever the arguments of \<open>send_message\<close> and however the run
  ends, the session keeps its type, model, authorisation and creation time.\<close>

theorem resume_keeps_bindings:
  assumes "map_of (sub_sessions st) i = Some ss" "as_str (json_index input ''subagent_id'') = Some i"
    and "send_message ea de perms input st = (r, st')"
  shows "\<exists>ss'. map_of (sub_sessions st') i = Some ss' \<and> ss_type ss' = ss_type ss \<and> ss_model ss' = ss_model ss \<and>
    ss_allow_guarded ss' = ss_allow_guarded ss \<and> ss_created_at ss' = ss_created_at ss"
proof (cases "de_bound de")
  case True
  show ?thesis
  proof (cases "as_str (json_index input ''message'')")
    case None
    then show ?thesis using assms True by (simp add: send_message_def)
  next
    case (Some msg)
    then show ?thesis using assms True
      by (auto simp: send_message_def Let_def persist_session_def insert_session_self update_conv' split: sum.splits)
  qed
qed (use assms in \<open>simp add: send_message_def\<close>)

section \<open>Sample runs\<close>

definition sample_sub_env :: "string \<Rightarrow> sub_env" where
  "sample_sub_env response = \<lparr>se_slot = True, se_uuid = ''ab-cd'', se_git = (\<lambda>_ _ _. Ok ()), se_is_dir = (\<lambda>_. True),
     se_loop = (\<lambda>_ _. ([EvDelta response, EvStreamEnd, EvDone], [])), se_collected = True, se_cancelled = False, se_now = 5\<rparr>"

definition sample_earth :: earth where
  "sample_earth = \<lparr>ea_readonly_tools = subagent_readonly_tools False, ea_coder_tools = subagent_coder_tools True,
     ea_aux_core = False, ea_loop = sample_loop\<rparr>"

lemma standard_sample: "standard_earth False True sample_earth"
  by (simp add: standard_earth_def sample_earth_def)

definition sample_task_input :: "subagent_type \<Rightarrow> task_input" where
  "sample_task_input k = \<lparr>ti_kind = k, ti_prompt = ''look'', ti_max_turns = 25, ti_model = Secondary, ti_allow_guarded = False\<rparr>"

abbreviation sample_spec :: "subagent_type \<Rightarrow> subagent_spec" where
  "sample_spec k \<equiv> fresh_spec ''u'' (sample_task_input k) sample_matrix"


theorem subagent_calls_confined_witness:
  "\<not> call_must_ask sample_env (su_plate (setup_subagent sample_earth (sample_spec Explore) None)) sample_tool (JObject [])
      (evaluate (geju_new (intent_stem_from_tool CWu) (palace_stem (default_target_palace CWu))))"
proof -
  let ?su = "setup_subagent sample_earth (sample_spec Explore) None"
  let ?g = "evaluate (geju_new (intent_stem_from_tool CWu) (palace_stem (default_target_palace CWu)))"
  have sp: "sp_kind (sample_spec Explore) = Explore" "sp_session_id (sample_spec Explore) = ''u''"
    "\<not> sp_allow_guarded (sample_spec Explore)" "sp_parent_perms (sample_spec Explore) = sample_matrix"
    by (simp_all add: fresh_spec_def sample_task_input_def)
  have v: "policy_verdict sample_env (su_plate ?su) sample_tool (JObject []) = Pass"
    by (rule plain_verdict) (simp add: fresh_spec_def setup_subagent_def Let_def with_state_def sample_matrix_def)
  have "execution_mode ?g = Direct" by code_simp
  moreover have "gate_is_open (su_plate ?su) JingXiangMen" by (simp add: gate_is_open_def)
  ultimately have "prepare sample_env (su_plate ?su) sample_tool (JObject []) ''u'' ?g sample_state = (Ok (JObject []), sample_state)"
    using v sp(1) by (simp add: prepare_def verifier_gate_def)
  then have "is_ok (fst (prepare sample_env (su_plate ?su) sample_tool (JObject []) (sp_session_id (sample_spec Explore)) ?g sample_state))"
    by (simp add: sp(2) is_ok_def)
  moreover have "\<forall>k. \<not> approved (bus sample_state) (sp_session_id (sample_spec Explore)) k"
    by (simp add: approved_def sample_state_def bus_new_def)
  ultimately show ?thesis
    using subagent_calls_confined [OF refl plate_reach.reach_start] sp(3) by blast
qed

lemma sample_bind:
  "bind_worktree sample_earth (sample_sub_env r) (sample_spec Coder) =
     Ok (Some [RootDir, Normal ''w'', Normal ''.jia'', Normal ''worktrees'', Normal ''coder-ab''], Some ''coder-ab'')"
  by (simp add: bind_worktree_def enter_worktree_def fresh_spec_def sample_task_input_def sample_sub_env_def sample_earth_def
      sample_loop_def branch_name_def json_index_def verify_path_def canonical_target_def resolve_def parse_path_def
      component_of_def path_join_def within_boundary_def path_starts_with_def str_contains_def plain_fs_def sample_matrix_def
      worktree_path_def component_string_def Let_def)


theorem verifier_drives_desktop_witness:
  "\<exists>cl :: cleared_call. is_destructive (cl_tool cl) \<and>
     prepare sample_env (su_plate (setup_subagent sample_earth (sample_spec Verifier) None)) (tool.truncate (cl_tool cl))
       (JObject []) ''u'' (cl_geju_result cl) sample_state = (Ok (JObject []), sample_state)"
proof -
  let ?su = "setup_subagent sample_earth (sample_spec Verifier) None"
  let ?ge = "sample_gate\<lparr>ge_registry := su_registry ?su, ge_mode := su_mode ?su\<rparr>"
  have v: "policy_verdict sample_env (su_plate ?su) (tool.truncate ComputerUseTool) (parameters (sample_call ''computer_use'')) = Pass"
    unfolding sample_call_def tool_call.simps
    by (rule plain_verdict) (simp add: fresh_spec_def setup_subagent_def Let_def with_state_def sample_matrix_def)
  have sp: "sp_kind (sample_spec Verifier) = Verifier" "sp_session_id (sample_spec Verifier) = ''u''"
    by (simp_all add: fresh_spec_def sample_task_input_def)
  let ?tc = "sample_call ''computer_use''"
  have "\<exists>cl. fst (gate_one_tool ?ge Map.empty ?tc) = Cleared cl \<and> is_destructive (cl_tool cl) \<and>
      prepare sample_env (su_plate ?su) (tool.truncate (cl_tool cl)) (parameters ?tc) (sp_session_id (sample_spec Verifier))
        (cl_geju_result cl) sample_state = (Ok (parameters ?tc), sample_state)"
    by (rule verifier_drives_desktop [OF standard_sample sp(1) refl _ _ _ _ _ _ _ v])
       (simp_all add: sample_gate_def sample_call_def)
  moreover have "parameters ?tc = JObject []" by (simp add: sample_call_def)
  ultimately show ?thesis unfolding sp(2) by (simp only:) blast
qed

theorem single_verdict_round_trip_witness:
  "delegate_output_verdict (format_report ''u'' Verifier \<lparr>rp_response = ''Verifier verdict: PASS'', rp_history = [],
     rp_worktree_path = None, rp_worktree_branch = None, rp_verdict = Some VFail\<rparr>) = Some VFail"
  by (simp add: single_verdict_round_trip)

definition sample_serde :: session_serde where
  "sample_serde = \<lparr>sd_print = (\<lambda>e. Some (env_model e)),
     sd_envelope = (\<lambda>s. Some \<lparr>env_v = 2, env_history = [], env_model = s, env_allow_guarded = False, env_worktree_path = None\<rparr>),
     sd_messages = (\<lambda>_. None)\<rparr>"

definition sample_session :: subagent_session where
  "sample_session = \<lparr>ss_history = [], ss_type = Coder, ss_model = Primary, ss_allow_guarded = False, ss_worktree = None,
     ss_created_at = 1, ss_last_used = 2\<rparr>"

lemma storable_sample: "storable sample_serde sample_session"
  by (simp add: storable_def sample_serde_def sample_session_def envelope_of_def)

definition sample_sub_state :: sub_state where
  "sample_sub_state = \<lparr>sub_sessions = [], sub_rows = [], sub_tasks = task_store_new, sub_files = [], sub_events = []\<rparr>"


definition sample_verdicts :: "nat \<Rightarrow> string" where
  "sample_verdicts n = (if n = 0 then ''Verdict: PASS'' else ''Verdict: FAIL'')"

definition sample_delegate_env :: delegate_env where
  "sample_delegate_env = \<lparr>de_bound = True, de_serde = sample_serde, de_uuid = (\<lambda>n. replicate n CHR ''u''), de_bytes = (\<lambda>_ _. 0),
     de_sub = (\<lambda>n. sample_sub_env (sample_verdicts n)), de_joined = [1, 0], de_events = True, de_instant = 3,
     de_task_io = sample_task_io, de_out = sample_out_io, de_write_ok = (\<lambda>_. True), de_show = (\<lambda>_. ''error'')\<rparr>"

definition sample_report :: "nat \<Rightarrow> subagent_report" where
  "sample_report n = \<lparr>rp_response = sample_verdicts n, rp_history = [], rp_worktree_path = None, rp_worktree_branch = None,
     rp_verdict = Some (if n = 0 then VPass else VFail)\<rparr>"

lemma sample_parse_verdict: "parse_verdict (sample_verdicts n) = Some (if n = 0 then VPass else VFail)"
proof (cases "n = 0")
  case True
  have "parse_verdict ''Verdict: PASS'' = Some VPass" by code_simp
  then show ?thesis using True by (simp add: sample_verdicts_def)
next
  case False
  have "parse_verdict ''Verdict: FAIL'' = Some VFail" by code_simp
  then show ?thesis using False by (simp add: sample_verdicts_def)
qed

lemma sample_trim: "trim (sample_verdicts n) \<noteq> []"
proof -
  have "trim ''Verdict: PASS'' \<noteq> []" "trim ''Verdict: FAIL'' \<noteq> []" by code_simp+
  then show ?thesis by (simp add: sample_verdicts_def)
qed

lemma sample_collect: "collect_events [EvDelta r, EvStreamEnd, EvDone] =
    \<lparr>cl_response = r, cl_attempt_start = length r, cl_error = None, cl_tool_count = 0\<rparr>"
  by (simp add: collect_events_def collector_new_def)

lemma sample_run:
  "run_subagent sample_earth (sample_sub_env (sample_verdicts n)) (fresh_spec i (sample_task_input Verifier) perms) = Ok (sample_report n)"
  by (simp add: run_subagent_def sample_sub_env_def bind_worktree_def fresh_spec_def sample_task_input_def sample_collect
      sample_trim sample_parse_verdict sample_report_def Let_def)

lemma sample_slot:
  assumes "n = 0 \<or> n = 1"
  obtains ss where "slot_of sample_earth sample_delegate_env perms [sample_task_input Verifier, sample_task_input Verifier] n =
    Some (Ok (sample_report n, ss))"
  using assms that by (auto simp: slot_of_def sample_delegate_env_def run_one_def sample_run)

theorem batch_hides_failed_verdict_witness:
  "\<not> verifier_failed (fst (delegate_parallel sample_earth sample_delegate_env sample_matrix
     [sample_task_input Verifier, sample_task_input Verifier] sample_sub_state))"
proof -
  obtain ss ss' where
    "slot_of sample_earth sample_delegate_env sample_matrix [sample_task_input Verifier, sample_task_input Verifier] 0 = Some (Ok (sample_report 0, ss))"
    "slot_of sample_earth sample_delegate_env sample_matrix [sample_task_input Verifier, sample_task_input Verifier] 1 = Some (Ok (sample_report 1, ss'))"
    using sample_slot by metis
  from batch_hides_failed_verdict [OF _ _ _ this(1) _ this(2)] show ?thesis
    by (simp add: sample_task_input_def sample_report_def sample_delegate_env_def)
qed

theorem parallel_sections_complete_witness:
  "\<exists>j (ss :: subagent_session). map_of (sub_rows (snd (delegate_parallel sample_earth sample_delegate_env sample_matrix
       [sample_task_input Verifier, sample_task_input Verifier] sample_sub_state))) ''u'' =
     Some \<lparr>row_json = j, row_type = ''Verifier'', row_created_at = ss_created_at ss, row_last_used = ss_last_used ss\<rparr>"
proof -
  let ?ts = "[sample_task_input Verifier, sample_task_input Verifier]"
  have "inj (de_uuid sample_delegate_env)" by (simp add: sample_delegate_env_def inj_def)
  note p = parallel_sections_complete [OF surjective_pairing this, of sample_earth sample_matrix ?ts sample_sub_state]
  obtain ss where ss: "slot_of sample_earth sample_delegate_env sample_matrix ?ts 1 = Some (Ok (sample_report 1, ss))"
    using sample_slot by metis
  then have "ss_type ss = Verifier"
    by (auto simp: slot_of_def sample_delegate_env_def run_one_def sample_run sample_task_input_def split: sum.splits)
  moreover obtain j where "to_stored_json (de_serde sample_delegate_env) ss = Some j"
    by (simp add: to_stored_json_def sample_delegate_env_def sample_serde_def)
  moreover have "de_uuid sample_delegate_env 1 = ''u''" by (simp add: sample_delegate_env_def)
  ultimately have "map_of (sub_rows (snd (delegate_parallel sample_earth sample_delegate_env sample_matrix ?ts sample_sub_state))) ''u'' =
      Some \<lparr>row_json = j, row_type = ''Verifier'', row_created_at = ss_created_at ss, row_last_used = ss_last_used ss\<rparr>"
    using p [THEN conjunct2, rule_format, of 1 "sample_report 1" ss j] ss by simp
  then show ?thesis by blast
qed

theorem resume_keeps_bindings_witness:
  "\<exists>ss'. map_of (sub_sessions (snd (send_message sample_earth sample_delegate_env sample_matrix
       (JObject [(''subagent_id'', JString ''u''), (''message'', JString ''go'')])
       (persist_all sample_serde [(''u'', sample_session)] sample_sub_state)))) ''u'' = Some ss' \<and> ss_type ss' = Coder"
  using resume_keeps_bindings [of "persist_all sample_serde [(''u'', sample_session)] sample_sub_state" "''u''" sample_session
      "JObject [(''subagent_id'', JString ''u''), (''message'', JString ''go'')]" sample_earth sample_delegate_env sample_matrix]
  by (cases "send_message sample_earth sample_delegate_env sample_matrix
       (JObject [(''subagent_id'', JString ''u''), (''message'', JString ''go'')])
       (persist_all sample_serde [(''u'', sample_session)] sample_sub_state)")
     (auto simp: persist_all_def persist_session_def insert_session_self json_index_def sample_session_def)

end
