(* ===== verification/SubagentBatch.thy ===== *)
theory SubagentBatch
  imports Prelude
begin

text \<open>
  The controller of concurrent sub-agents (\<open>plates/tian_heaven/subagent_batch.rs\<close>): a semaphore, a back-off multiplier that
  rate limits raise, and the recovery that adds permits. Instants are milliseconds on a monotonic clock. Several
  sub-agents use one controller at a time; a run of it is a sequence of its operations.
\<close>

record subagent_batch =
  sb_available :: nat
  sb_in_use :: nat
  sb_max_concurrency :: nat
  sb_multiplier :: nat
  sb_last_rate_limit :: "nat option"
  sb_last_clear :: nat

definition batch_new :: "nat \<Rightarrow> subagent_batch" where
  "batch_new now = \<lparr>sb_available = 5, sb_in_use = 0, sb_max_concurrency = 8, sb_multiplier = 1,
     sb_last_rate_limit = None, sb_last_clear = now\<rparr>"

text \<open>Acquiring waits while no permit is available, so it happens only when one is; a dropped permit returns.\<close>

definition acquire :: "subagent_batch \<Rightarrow> subagent_batch option" where
  "acquire b =
     (if sb_available b = 0 then None
      else Some (b\<lparr>sb_available := sb_available b - 1, sb_in_use := Suc (sb_in_use b)\<rparr>))"

definition release :: "subagent_batch \<Rightarrow> subagent_batch" where
  "release b = b\<lparr>sb_available := Suc (sb_available b), sb_in_use := sb_in_use b - 1\<rparr>"

definition on_rate_limited :: "nat \<Rightarrow> subagent_batch \<Rightarrow> subagent_batch" where
  "on_rate_limited now b =
     b\<lparr>sb_multiplier := min 16 (min (2 ^ 32 - 1) (sb_multiplier b * 2)), sb_last_rate_limit := Some now\<rparr>"

definition maybe_recover :: "nat \<Rightarrow> subagent_batch \<Rightarrow> subagent_batch" where
  "maybe_recover now b =
     (if now - sb_last_clear b > 180000 \<and> sb_multiplier b > 1
      then b\<lparr>sb_multiplier := saturating_sub (sb_multiplier b) 1, sb_last_clear := now,
             sb_available := (if sb_available b < sb_max_concurrency b then Suc (sb_available b) else sb_available b)\<rparr>
      else b)"

section \<open>Runs\<close>

datatype batch_op = Acquire | Release | RateLimited nat | Recover nat

inductive batch_step :: "subagent_batch \<Rightarrow> batch_op \<Rightarrow> subagent_batch \<Rightarrow> bool" where
  step_acquire: "acquire b = Some b' \<Longrightarrow> batch_step b Acquire b'"
| step_release: "0 < sb_in_use b \<Longrightarrow> batch_step b Release (release b)"
| step_limited: "batch_step b (RateLimited now) (on_rate_limited now b)"
| step_recover: "batch_step b (Recover now) (maybe_recover now b)"

inductive_simps batch_step_simps:
  "batch_step b Acquire b'" "batch_step b Release b'" "batch_step b (RateLimited t) b'" "batch_step b (Recover t) b'"

inductive batch_run :: "subagent_batch \<Rightarrow> batch_op list \<Rightarrow> subagent_batch \<Rightarrow> bool" for b0 where
  batch_start: "batch_run b0 [] b0"
| batch_more: "batch_run b0 ops b \<Longrightarrow> batch_step b op b' \<Longrightarrow> batch_run b0 (ops @ [op]) b'"

fun recovers :: "batch_op \<Rightarrow> bool" where
  "recovers (Recover _) = True"
| "recovers _ = False"

abbreviation permits :: "subagent_batch \<Rightarrow> nat" where
  "permits b \<equiv> sb_available b + sb_in_use b"


text \<open>The maximum is not one. The controller is documented to let at most eight sub-agents run and to shrink its capacity when a
  provider limits the rate; after a rate limit nothing shrinks, and recoveries while sub-agents run add permits
  until nine run at once.\<close>

theorem batch_exceeds_maximum:
  "\<exists>ops b. batch_run (batch_new 0) ops b \<and> sb_max_concurrency b < sb_in_use b \<and> permits (on_rate_limited t b) = permits b"
proof -
  let ?b0 = "batch_new 0"
  let ?b3 = "(on_rate_limited 1 ^^ 3) ?b0"
  let ?b8 = "?b3\<lparr>sb_available := 0, sb_in_use := 5\<rparr>"
  let ?b12 = "\<lparr>sb_available = 4, sb_in_use = 5, sb_max_concurrency = 8, sb_multiplier = 4, sb_last_rate_limit = Some 1,
    sb_last_clear = 800000\<rparr>"
  let ?b16 = "?b12\<lparr>sb_available := 0, sb_in_use := 9\<rparr>"
  have step: "batch_run ?b0 ops b \<Longrightarrow> batch_step b op b' \<Longrightarrow> \<exists>ops. batch_run ?b0 ops b'" for ops b op b'
    by (blast intro: batch_more)
  have "\<exists>ops. batch_run ?b0 ops ?b3"
    using batch_run.intros [of ?b0] batch_step.step_limited by (simp add: numeral_3_eq_3) blast
  moreover have "\<exists>ops. batch_run ?b0 ops (b\<lparr>sb_available := sb_available b - k, sb_in_use := sb_in_use b + k\<rparr>)"
    if "\<exists>ops. batch_run ?b0 ops b" "k \<le> sb_available b" for b k
    using that
  proof (induction k)
    case (Suc k)
    then obtain ops where "batch_run ?b0 ops (b\<lparr>sb_available := sb_available b - k, sb_in_use := sb_in_use b + k\<rparr>)" by auto
    from step [OF this step_acquire] show ?case using Suc(3) by (simp add: acquire_def)
  qed simp
  note take = this
  ultimately have "\<exists>ops. batch_run ?b0 ops (?b3\<lparr>sb_available := sb_available ?b3 - 5, sb_in_use := sb_in_use ?b3 + 5\<rparr>)"
    by (intro take) (simp_all add: numeral_3_eq_3 on_rate_limited_def batch_new_def)
  moreover have "?b3\<lparr>sb_available := sb_available ?b3 - 5, sb_in_use := sb_in_use ?b3 + 5\<rparr> = ?b8"
    by (simp add: numeral_3_eq_3 on_rate_limited_def batch_new_def)
  ultimately obtain ops where "batch_run ?b0 ops ?b8" by auto
  from step [OF this step_recover [of _ 200000]] obtain ops where
    "batch_run ?b0 ops (maybe_recover 200000 ?b8)" by auto
  from step [OF this step_recover [of _ 400000]] obtain ops where
    "batch_run ?b0 ops (maybe_recover 400000 (maybe_recover 200000 ?b8))" by auto
  from step [OF this step_recover [of _ 600000]] obtain ops where
    "batch_run ?b0 ops (maybe_recover 600000 (maybe_recover 400000 (maybe_recover 200000 ?b8)))" by auto
  from step [OF this step_recover [of _ 800000]] obtain ops where
    "batch_run ?b0 ops (maybe_recover 800000 (maybe_recover 600000 (maybe_recover 400000 (maybe_recover 200000 ?b8))))" by auto
  moreover have "maybe_recover 800000 (maybe_recover 600000 (maybe_recover 400000 (maybe_recover 200000 ?b8))) = ?b12"
    by (simp add: maybe_recover_def numeral_3_eq_3 on_rate_limited_def batch_new_def)
  ultimately have "\<exists>ops. batch_run ?b0 ops ?b12" by auto
  from take [OF this, of 4] have "\<exists>ops. batch_run ?b0 ops ?b16" by simp
  then obtain ops where "batch_run ?b0 ops ?b16" by blast
  then show ?thesis by (intro exI [of _ ops] exI [of _ ?b16]) (simp add: on_rate_limited_def)
qed


end
