(* ===== verification/Spec2Isabelle.thy ===== *)
theory Spec2Isabelle
  imports Compaction Provider FileEdits ToolParse CronFire Delegation SubagentBatch
begin

text \<open>
  \<^bold>\<open>Jia\<close> is an agent kernel written in Rust (\<open>src/kernel\<close>), with chat channels, a terminal front end and a
  command line around it. A language model proposes tool calls; the kernel decides which of them run, with
  which input, in which order and beside which others, and what of the conversation the model sees next.

  \<^bold>\<open>How a turn goes, and which theory models what.\<close>

  \<^item> \<^bold>\<open>Classification.\<close> Every tool has a ceremony, which gives it a stem and a palace (\<open>Stems\<close>: \<open>types.rs\<close>,
    \<open>zhen_tool/base.rs\<close>). Three layers of rules turn intent and target into an execution mode (\<open>GeJu\<close>:
    \<open>geju/evaluate.rs\<close>, \<open>geju/patterns.rs\<close>), a fourth tightens it with principles learnt from the working
    memory of past turns (\<open>Mano\<close>: \<open>vijnana/mano\<close>; \<open>Principles\<close>: \<open>principles/mod.rs\<close>). \<open>Floats\<close> holds the \<open>f32\<close>
    arithmetic this uses.
  \<^item> \<^bold>\<open>Permission.\<close> \<open>Paths\<close>, \<open>Quoting\<close>, \<open>Permission\<close> and \<open>Policy\<close> model \<open>palaces/qian_permission\<close>: path
    confinement, shell command filters, the policy chain, the verifier's allowlist. \<open>Session\<close> is the session
    bus and \<open>HumanPlate\<close> the human plate with \<open>prepare\<close>, the decision about one call including the
    questions put to the user and the memory of approvals (\<open>plates/ren_human\<close>).
  \<^item> \<^bold>\<open>Dispatch.\<close> \<open>Tools\<close> is the registry (\<open>zhen_tool/registry.rs\<close>), \<open>Scheduler\<close> the planning of a turn's calls into
    batches (\<open>tian_heaven/tool_scheduler.rs\<close>), \<open>Hooks\<close> the user and spirit hooks, \<open>Dispatch\<close> the gate in front
    of every call and the early dispatch while the model streams (\<open>loop_dispatch.rs\<close>, \<open>loop.rs\<close>),
    \<open>Guards\<close> the repeat guard and the verification tracker, \<open>BatchExec\<close> the concurrent window of a batch,
    \<open>Completion\<close> the completion checklist, \<open>AgentLoop\<close> the agent's state and what a turn does to it.
  \<^item> \<^bold>\<open>Context.\<close> \<open>Context\<close>, \<open>Handoff\<close> and \<open>Compaction\<close> model the context window, the handoff note and the
    compaction of the history (\<open>palaces/xun_context\<close>, \<open>loop.rs\<close>); \<open>TextUtil\<close> the text helpers of \<open>utils.rs\<close>;
    \<open>ToolParse\<close> the tool calls in model text (\<open>stems/tool_parse.rs\<close>); \<open>Provider\<close> circuit breaker, routing and
    retries (\<open>palaces/zhong_core\<close>).
  \<^item> \<^bold>\<open>Tools.\<close> \<open>Patch\<close>, \<open>FileTools\<close> and \<open>FileEdits\<close> model reading, writing, patching and reverting files with
    the freshness gate (\<open>builtin/fs\<close>, \<open>stems/action.rs\<close>); \<open>Cron\<close>, \<open>CronSync\<close>, \<open>CronRun\<close> and \<open>CronFire\<close> the
    scheduled jobs, their directory and their runner (\<open>builtin/cron\<close>, \<open>builtin/cron_runner.rs\<close>). \<open>ToolDecls\<close> has what
    the built-in tools declare (name, ceremony, accesses) and the registries that sub-agents get (\<open>di_earth/mod.rs\<close>).
  \<^item> \<^bold>\<open>Work beside the turn.\<close> \<open>BackgroundTasks\<close> is the store of background tasks with its snapshot and the
    notifications of the loop (\<open>exec/background_task.rs\<close>, \<open>loop.rs\<close>), \<open>DiskOutput\<close> their output files and the stored results
    of tools (\<open>exec/disk_output.rs\<close>, \<open>exec/retrieve_tool_result.rs\<close>).
  \<^item> \<^bold>\<open>Delegation.\<close> \<open>Subagents\<close> has the tools \<open>delegate\<close> and \<open>send_message\<close>, the setup and the run of a sub-agent and
    the table of sessions (\<open>builtin/delegate.rs\<close>, \<open>run_subagent\<close> of \<open>spawn.rs\<close>), \<open>Delegation\<close> the proofs about
    them, \<open>SubagentBatch\<close> the controller of concurrency (\<open>subagent_batch.rs\<close>).

  \<open>Prelude\<close> has what they share: results as sums, the ASCII view of \<open>str\<close>, JSON values, saturating arithmetic, and
  three interface locales.

  \<^bold>\<open>Conventions.\<close> A struct is a record, an enum a datatype, a fallible function returns \<open>(error, value) result\<close>, and
  a panic is \<open>None\<close>. State behind locks is passed explicitly: the gates are serial in the code, and where tasks
  really run side by side (\<open>BatchExec\<close>) the order in which they finish is an argument of the
  definitions and every theorem holds for all of them. A \<open>str\<close> is its UTF-8 bytes.

  \<^bold>\<open>Parameters.\<close> Code outside the repository is an argument: the file system and what its calls answer (\<open>file_system\<close>,
  \<open>io\<close>, \<open>cron_io\<close>, \<open>task_io\<close>, \<open>out_io\<close>), \<open>git\<close>, \<open>shell_words\<close>, globs and regular expressions, \<open>serde_json\<close>, the tokenizer, the \<open>lru\<close> cache, the
  clock, the user's answers, the model's stream, and what a tool or a hook computes. Where a theorem relies
  on one of them, what it relies on is a named hypothesis (\<open>lru_laws\<close>, \<open>healthy\<close>, \<open>healthy_task_io\<close>, \<open>reads_well\<close>, \<open>writes_well\<close>,
  \<open>storable\<close>), and its witness instantiates it. The rounding of \<open>f32\<close> is written out (\<open>round_f32\<close>) and proved to satisfy the contract
  the proofs use.

  \<^bold>\<open>Interfaces.\<close> \<open>float_rounding\<close> is what proofs use of a rounding (interpreted by \<open>round_f32\<close>);
  \<open>bounded_history\<close> a buffer that drops its oldest entries (working memory); \<open>one_way_tightening\<close> a step that only makes
  an evaluation stricter (Layer 4); \<open>session_table\<close> a table of the session bus whose sessions do not affect
  each other (the steer queue); \<open>independent_steps\<close> steps that commute unless they clash (the calls of a batch).

  \<^bold>\<open>What the theorems show.\<close>

  \<^item> \<^emph>\<open>Consent.\<close> A call that needs a confirmation runs only with one, given now or remembered for that very
    call in that session; a deny rule is absolute; sandboxed calls get paths inside the workspace; plan mode, hooks
    and principles only make the outcome stricter; nothing that writes is dispatched early.
  \<^item> \<^emph>\<open>Execution.\<close> Batches respect the order of conflicting calls and every order inside a batch has the same
    effect; every call of a turn ends with exactly one outcome and one entry in the history, whatever tasks
    fail, are cancelled or finish first; the join loop terminates.
  \<^item> \<^emph>\<open>Files.\<close> The editing tools change nothing outside the workspace, only files that the session
    has seen in their present version, patch exactly one place, and a revert undoes a write.
  \<^item> \<^emph>\<open>Memory of the conversation.\<close> Fitting drops as little as possible, compaction keeps the
    preserved user messages, steering messages are never lost.
  \<^item> \<^emph>\<open>Cron.\<close> Memory and directory agree after every operation, so a restart restores the jobs; firings keep
    their distance; the calendar is the proleptic Gregorian one; an accepted daily schedule fires.
  \<^item> \<^emph>\<open>Delegation.\<close> A sub-agent's calls come from the registry of its type and its guarded calls are refused
    unless it was given the permission; a Coder writes inside its worktree; sessions come back after a restart with their
    bindings, and a resumed one keeps them; a parallel dispatch reports every task in order.
  \<^item> \<^emph>\<open>Background work.\<close> A finished task never changes its outcome, is announced at most once, and a crash
    turns exactly the unfinished tasks into lost ones; stored results are frozen, confined to their session and read
    back completely page by page.
  \<^item> \<^emph>\<open>Departures.\<close> Runs where the code does not do what it says, as theorems on concrete inputs.

  \<^bold>\<open>Bounds and fuel.\<close> Counters that wrap or saturate in the code do so here. The only fuel is the search for a
  free backup slot (\<open>free_slot\<close>), which gets one step more than the disk has nodes; \<open>free_slot_total\<close> proves that it
  is enough. Reading a stored result page by page (\<open>read_pages\<close>) ends because every page advances. All other loops are structural or have a termination proof.

  \<^bold>\<open>Not modelled.\<close> SQLite statements and what is built on them (seeds, skills, the forgetting pipeline), HTTP and
  WebSocket handlers, model providers' wire formats, MCP and WASM plug-ins, browser and desktop drivers,
  operating-system sandboxes, language servers, the front ends: their behaviour is that of a service or
  library the sources call. Log lines, metrics and runtime events have no effect on what is modelled. The
  certainty heuristics, the task list, the entropy trigger and the agents that the gateway and the cron runner start
  are logic of the program that the development does not reach.
\<close>

end
